(* ===== verification/Prelude.thy ===== *)
theory Prelude
  imports Complex_Main "HOL-Library.AList" "HOL-Library.List_Lexorder" "HOL-Library.Product_Lexorder"
begin

text \<open>
  The vocabulary every component of the library shares: Python strings, the exceptions of the
  program, state-passing computations that can raise, dictionaries with insertion order, slices,
  the ranking order (score descending, identifier ascending), the floating-point operations the
  scoring code uses, and the generic lemmas about them.
\<close>

section \<open>Strings\<close>

text \<open>
  A Python \<open>str\<close> is a sequence of code points and compares lexicographically by code point, which
  is the order \<^term>\<open>(<) :: nat list \<Rightarrow> nat list \<Rightarrow> bool\<close> of the library.
  \<open>ustr\<close> turns an ASCII literal into such a sequence.
\<close>

type_synonym codepoint = nat
type_synonym pystr = "codepoint list"

definition ustr :: "string \<Rightarrow> pystr" where
  "ustr s = map of_char s"

text \<open>
  What the program uses of the Unicode database (\<open>unicodedata.normalize("NFKC", \<cdot>)\<close>,
  \<open>str.casefold\<close>, \<open>str.isalnum\<close>, \<open>str.isspace\<close>): a parameter of the model.
\<close>

record unicode =
  ud_nfkc :: "pystr \<Rightarrow> pystr"
  ud_casefold :: "pystr \<Rightarrow> pystr"
  ud_isalnum :: "codepoint \<Rightarrow> bool"
  ud_isspace :: "codepoint \<Rightarrow> bool"

text \<open>The database restricted to ASCII text, where it is small enough to write down.\<close>

definition ascii_unicode :: unicode where
  "ascii_unicode =
     \<lparr>ud_nfkc = (\<lambda>s. s),
      ud_casefold = map (\<lambda>c. if 65 \<le> c \<and> c \<le> 90 then c + 32 else c),
      ud_isalnum = (\<lambda>c. 48 \<le> c \<and> c \<le> 57 \<or> 65 \<le> c \<and> c \<le> 90 \<or> 97 \<le> c \<and> c \<le> 122),
      ud_isspace = (\<lambda>c. 9 \<le> c \<and> c \<le> 13 \<or> 28 \<le> c \<and> c \<le> 32)\<rparr>"

text \<open>\<open>str.strip()\<close> and \<open>str.split(sep)\<close> for a one-character separator.\<close>

definition py_strip :: "unicode \<Rightarrow> pystr \<Rightarrow> pystr" where
  "py_strip ud s = rev (dropWhile (ud_isspace ud) (rev (dropWhile (ud_isspace ud) s)))"

fun py_split :: "codepoint \<Rightarrow> pystr \<Rightarrow> pystr list" where
  "py_split sep [] = [[]]"
| "py_split sep (c # s) =
     (if c = sep then [] # py_split sep s
      else case py_split sep s of [] \<Rightarrow> [[c]] | w # ws \<Rightarrow> (c # w) # ws)"

text \<open>\<open>str(n)\<close> for an \<open>int\<close>.\<close>

fun py_digits :: "nat \<Rightarrow> pystr" where
  "py_digits n = (if n < 10 then [48 + n] else py_digits (n div 10) @ [48 + n mod 10])"

declare py_digits.simps [simp del]

definition py_str_int :: "int \<Rightarrow> pystr" where
  "py_str_int n = (if n < 0 then 45 # py_digits (nat (- n)) else py_digits (nat n))"

text \<open>\<open>sep.join(parts)\<close>.\<close>

fun py_join :: "pystr \<Rightarrow> pystr list \<Rightarrow> pystr" where
  "py_join sep [] = []"
| "py_join sep [x] = x"
| "py_join sep (x # y # ys) = x @ sep @ py_join sep (y # ys)"

lemma digits_range: "c \<in> set (py_digits n) \<Longrightarrow> 48 \<le> c \<and> c \<le> 57"
proof (induction n rule: py_digits.induct)
  case (1 n)
  then show ?case by (cases "n < 10") (auto simp: py_digits.simps [of n])
qed

lemma digits_value: "foldl (\<lambda>a c. a * 10 + (c - 48)) 0 (py_digits n) = n"
proof (induction n rule: py_digits.induct)
  case (1 n)
  then show ?case by (cases "n < 10") (simp_all add: py_digits.simps [of n])
qed

lemma digits_inj: "py_digits n = py_digits m \<longleftrightarrow> n = m"
  using digits_value by metis

lemma py_str_int_inj: "py_str_int a = py_str_int b \<longleftrightarrow> a = b"
proof -
  have "45 \<notin> set (py_digits n)" for n using digits_range by fastforce
  then have "py_digits n \<noteq> 45 # xs" for n xs by (metis list.set_intros(1))
  then show ?thesis by (auto simp: py_str_int_def digits_inj dest: sym)
qed

lemma py_digits_nonempty: "py_digits n \<noteq> []"
  by (simp add: py_digits.simps [of n])

lemma py_strip_empty_iff: "py_strip ud s = [] \<longleftrightarrow> (\<forall>c\<in>set s. ud_isspace ud c)"
proof
  assume "py_strip ud s = []"
  then have "\<forall>c\<in>set (dropWhile (ud_isspace ud) s). ud_isspace ud c"
    by (simp add: py_strip_def)
  then have "dropWhile (ud_isspace ud) s = []"
    by (metis dropWhile_eq_Nil_conv hd_dropWhile list.set_sel(1))
  then show "\<forall>c\<in>set s. ud_isspace ud c"
    by (simp add: dropWhile_eq_Nil_conv)
next
  assume "\<forall>c\<in>set s. ud_isspace ud c"
  then have "dropWhile (ud_isspace ud) s = []"
    by (simp only: dropWhile_eq_Nil_conv)
  then show "py_strip ud s = []"
    by (simp only: py_strip_def rev.simps dropWhile.simps)
qed

lemma py_split_nonempty [simp]: "py_split sep s \<noteq> []"
  by (induction s) (auto split: list.splits)

section \<open>Exceptions\<close>

text \<open>
  One constructor per exception class the code raises: the language's own, and those of
  \<open>app/search/errors.py\<close>, \<open>app/storage/errors.py\<close>, \<open>app/semantic/errors.py\<close> and
  \<open>app/cluster/errors.py\<close>. The two classes that carry shard numbers keep them;
  \<open>HTTPException\<close> keeps its status code. Messages are left out.
\<close>

datatype exn =
    KeyError
  | IndexError
  | ValueError
  | TypeError
  | ZeroDivisionError
  | OSError
  | Sqlite3Error
  | InvalidDocumentError
  | DocumentNotFoundError
  | EngineNotReadyError
  | IndexInvariantError
  | StorageError
  | StorageInitializationError
  | SemanticDisabledError
  | EmbeddingError
  | SemanticIdentityMismatchError
  | VectorIndexError
  | ShardUnavailableError
  | ShardTimeoutError
  | DistributedSearchError "nat list"
  | ReplicationError
  | ShardCopiesExhaustedError nat
  | HTTPException nat

text \<open>The subclass tests \<open>except ClusterError\<close> and the error handlers perform.\<close>

fun is_ClusterError :: "exn \<Rightarrow> bool" where
  "is_ClusterError ShardUnavailableError = True"
| "is_ClusterError ShardTimeoutError = True"
| "is_ClusterError (DistributedSearchError _) = True"
| "is_ClusterError ReplicationError = True"
| "is_ClusterError (ShardCopiesExhaustedError _) = True"
| "is_ClusterError _ = False"

fun is_StorageError :: "exn \<Rightarrow> bool" where
  "is_StorageError StorageError = True"
| "is_StorageError StorageInitializationError = True"
| "is_StorageError _ = False"

fun is_SemanticError :: "exn \<Rightarrow> bool" where
  "is_SemanticError SemanticDisabledError = True"
| "is_SemanticError EmbeddingError = True"
| "is_SemanticError SemanticIdentityMismatchError = True"
| "is_SemanticError VectorIndexError = True"
| "is_SemanticError _ = False"

section \<open>Computations that can raise\<close>

text \<open>
  A pure computation returns \<open>exn + 'a\<close>, the exception on the left. A computation over a mutable
  object returns its outcome together with the object, because Python keeps whatever was already
  written when an exception leaves a method.
\<close>

type_synonym 'a res = "exn + 'a"
type_synonym ('s, 'a) st = "'s \<Rightarrow> 'a res \<times> 's"

fun ebind :: "'a res \<Rightarrow> ('a \<Rightarrow> 'b res) \<Rightarrow> 'b res" where
  "ebind (Inl e) f = Inl e"
| "ebind (Inr a) f = f a"

definition sbind :: "('s, 'a) st \<Rightarrow> ('a \<Rightarrow> ('s, 'b) st) \<Rightarrow> ('s, 'b) st" where
  "sbind m f s = (case m s of (Inl e, s') \<Rightarrow> (Inl e, s') | (Inr a, s') \<Rightarrow> f a s')"

text \<open>A pure outcome, a read and a write inside a stateful computation.\<close>

definition slift :: "'a res \<Rightarrow> ('s, 'a) st" where
  "slift r s = (r, s)"

definition sgets :: "('s \<Rightarrow> 'a) \<Rightarrow> ('s, 'a) st" where
  "sgets f s = (Inr (f s), s)"

definition smodify :: "('s \<Rightarrow> 's) \<Rightarrow> ('s, unit) st" where
  "smodify f s = (Inr (), f s)"

fun efold :: "('x \<Rightarrow> 'a \<Rightarrow> 'a res) \<Rightarrow> 'x list \<Rightarrow> 'a \<Rightarrow> 'a res" where
  "efold f [] a = Inr a"
| "efold f (x # xs) a = ebind (f x a) (efold f xs)"

fun emap :: "('x \<Rightarrow> 'a res) \<Rightarrow> 'x list \<Rightarrow> 'a list res" where
  "emap f [] = Inr []"
| "emap f (x # xs) = ebind (f x) (\<lambda>y. ebind (emap f xs) (\<lambda>ys. Inr (y # ys)))"

fun sfold :: "('x \<Rightarrow> ('s, unit) st) \<Rightarrow> 'x list \<Rightarrow> ('s, unit) st" where
  "sfold f [] s = (Inr (), s)"
| "sfold f (x # xs) s = sbind (f x) (\<lambda>_. sfold f xs) s"

lemma ebind_Inr_iff: "ebind m f = Inr b \<longleftrightarrow> (\<exists>a. m = Inr a \<and> f a = Inr b)"
  by (cases m) auto

lemma ebind_Inl_iff: "ebind m f = Inl e \<longleftrightarrow> m = Inl e \<or> (\<exists>a. m = Inr a \<and> f a = Inl e)"
  by (cases m) auto

lemma sbind_Inr [simp]: "m s = (Inr a, s') \<Longrightarrow> sbind m f s = f a s'"
  by (simp add: sbind_def)

lemma sbind_Inl [simp]: "m s = (Inl e, s') \<Longrightarrow> sbind m f s = (Inl e, s')"
  by (simp add: sbind_def)

lemmas st_defs = slift_def sgets_def smodify_def

lemma efold_all_Inr:
  assumes "\<And>x a. x \<in> set xs \<Longrightarrow> f x a = Inr (g x a)"
  shows "efold f xs a = Inr (fold g xs a)"
  using assms by (induction xs arbitrary: a) auto

lemma efold_unit_iff: "efold (\<lambda>x _. f x) xs () = Inr () \<longleftrightarrow> (\<forall>x\<in>set xs. f x = Inr ())"
  by (induction xs) (auto simp: ebind_Inr_iff)

lemma efold_sum_iff:
  "efold (\<lambda>x a. case g x of None \<Rightarrow> Inl e | Some n \<Rightarrow> Inr (a + n)) xs a = Inr r \<longleftrightarrow>
   (\<forall>x\<in>set xs. g x \<noteq> None) \<and> r = a + sum_list (map (\<lambda>x. the (g x)) xs)" for a :: int
  by (induction xs arbitrary: a) (auto simp: ebind_Inr_iff add.assoc split: option.splits)

lemma emap_all_Inr:
  assumes "\<And>x. x \<in> set xs \<Longrightarrow> f x = Inr (g x)"
  shows "emap f xs = Inr (map g xs)"
  using assms by (induction xs) auto

lemma emap_Inr_iff: "emap f xs = Inr ys \<longleftrightarrow> list_all2 (\<lambda>x y. f x = Inr y) xs ys"
  by (induction xs arbitrary: ys) (auto simp: ebind_Inr_iff list_all2_Cons1)

lemma emap_Inl_D: "emap f xs = Inl e \<Longrightarrow> \<exists>x\<in>set xs. f x = Inl e"
  by (induction xs) (auto simp: ebind_Inl_iff)

section \<open>Dictionaries\<close>

text \<open>
  A \<open>dict\<close> keeps its keys in insertion order: assigning to a present key keeps its place, assigning
  to a new one appends it. \<^const>\<open>AList.update\<close> and \<^const>\<open>AList.delete\<close> of the library
  do exactly this, and \<^const>\<open>map_of\<close> is the lookup. \<open>dict_ok\<close> says that no key occurs twice.
\<close>

type_synonym ('k, 'v) dict = "('k \<times> 'v) list"

abbreviation dkeys :: "('k, 'v) dict \<Rightarrow> 'k list" where
  "dkeys d \<equiv> map fst d"

abbreviation dict_ok :: "('k, 'v) dict \<Rightarrow> bool" where
  "dict_ok d \<equiv> distinct (dkeys d)"

abbreviation dhas :: "('k, 'v) dict \<Rightarrow> 'k \<Rightarrow> bool" where
  "dhas d k \<equiv> map_of d k \<noteq> None"

definition dget_or :: "('k, 'v) dict \<Rightarrow> 'k \<Rightarrow> 'v \<Rightarrow> 'v" where
  "dget_or d k v = (case map_of d k of None \<Rightarrow> v | Some w \<Rightarrow> w)"

definition dget_item :: "('k, 'v) dict \<Rightarrow> 'k \<Rightarrow> 'v res" where
  "dget_item d k = (case map_of d k of None \<Rightarrow> Inl KeyError | Some w \<Rightarrow> Inr w)"

text \<open>
  The library rewrites \<^prop>\<open>map_of d k = Some v\<close> to membership whenever it can show that the keys
  are distinct; lookups are the better normal form here.
\<close>

declare map_of_eq_Some_iff [simp del] Some_eq_map_of_iff [simp del]

named_theorems dict_simps \<open>lookups and keys after dictionary updates\<close>

lemma map_of_dset [dict_simps]: "map_of (AList.update k v d) = (map_of d)(k \<mapsto> v)"
  by (rule update_conv')

lemma map_of_ddel [dict_simps]: "map_of (AList.delete k d) = (map_of d)(k := None)"
  by (rule delete_conv')

lemma dict_ok_dset [simp]: "dict_ok d \<Longrightarrow> dict_ok (AList.update k v d)"
  by (rule distinct_update)

lemma dict_ok_ddel [simp]: "dict_ok d \<Longrightarrow> dict_ok (AList.delete k d)"
  by (rule distinct_delete)

lemma set_dkeys_dset [dict_simps]: "set (dkeys (AList.update k v d)) = insert k (set (dkeys d))"
  by (simp add: dom_update)

lemma set_dkeys_ddel [dict_simps]: "set (dkeys (AList.delete k d)) = set (dkeys d) - {k}"
  by (simp add: delete_keys del: set_map)

lemma set_dkeys_dom: "set (dkeys d) = dom (map_of d)"
  by (simp add: dom_map_of_conv_image_fst)

lemma dhas_iff: "dhas d k \<longleftrightarrow> k \<in> set (dkeys d)"
  by (simp add: map_of_eq_None_iff)

lemma dict_in_set: "dict_ok d \<Longrightarrow> (k, v) \<in> set d \<longleftrightarrow> map_of d k = Some v"
  by (simp add: map_of_eq_Some_iff)

lemma map_of_set_eq: "dict_ok xs \<Longrightarrow> dict_ok ys \<Longrightarrow> set xs = set ys \<Longrightarrow> map_of xs = map_of ys"
  by (rule ext) (metis dict_in_set option.exhaust)

lemma dict_length: "dict_ok d \<Longrightarrow> length d = card (dom (map_of d))"
  by (metis distinct_card length_map set_dkeys_dom)

lemma dict_sum:
  assumes "dict_ok d"
  shows "sum_list (map (\<lambda>(k, v). f k v) d) = (\<Sum>k \<in> dom (map_of d). f k (the (map_of d k)))"
proof -
  have "map (\<lambda>(k, v). f k v) d = map ((\<lambda>k. f k (the (map_of d k))) \<circ> fst) d"
    using assms by (intro map_cong) (auto simp: dict_in_set [symmetric])
  then have "sum_list (map (\<lambda>(k, v). f k v) d) = sum_list (map (\<lambda>k. f k (the (map_of d k))) (dkeys d))"
    by (simp only: map_map)
  also have "\<dots> = (\<Sum>k \<in> dom (map_of d). f k (the (map_of d k)))"
    using assms by (simp only: sum_list_distinct_conv_sum_set set_dkeys_dom)
  finally show ?thesis .
qed

lemma dict_Nil_iff: "d = [] \<longleftrightarrow> dom (map_of d) = {}"
  by (simp add: dom_map_of_conv_image_fst)

lemma ddel_Nil_iff: "AList.delete k d = [] \<longleftrightarrow> dom (map_of d) \<subseteq> {k}"
  by (simp only: dict_Nil_iff map_of_ddel) auto

section \<open>Slices, ranks and top-k\<close>

text \<open>\<open>xs[:n]\<close>: a negative bound counts from the end.\<close>

definition py_take :: "int \<Rightarrow> 'a list \<Rightarrow> 'a list" where
  "py_take n xs = (if 0 \<le> n then take (nat n) xs else take (length xs - nat (- n)) xs)"

lemma py_take_nonneg [simp]: "0 \<le> n \<Longrightarrow> py_take n xs = take (nat n) xs"
  by (simp add: py_take_def)

lemma set_py_take: "set (py_take n xs) \<subseteq> set xs"
  by (auto simp: py_take_def dest: in_set_takeD)

text \<open>
  The sort key \<open>(-score, document_id)\<close>. Negation reverses the order of the scores, which
  \<open>Desc\<close> does without arithmetic, so the key works for any ordered type of scores.
\<close>

datatype 'a desc = Desc 'a

instantiation desc :: (linorder) linorder
begin
fun less_eq_desc :: "'a desc \<Rightarrow> 'a desc \<Rightarrow> bool" where
  "less_eq_desc (Desc x) (Desc y) = (y \<le> x)"
fun less_desc :: "'a desc \<Rightarrow> 'a desc \<Rightarrow> bool" where
  "less_desc (Desc x) (Desc y) = (y < x)"
instance
proof
  fix x y z :: "'a desc"
  show "(x < y) = (x \<le> y \<and> \<not> y \<le> x)" by (cases x; cases y) auto
  show "x \<le> x" by (cases x) auto
  show "x \<le> y \<Longrightarrow> y \<le> z \<Longrightarrow> x \<le> z" by (cases x; cases y; cases z) auto
  show "x \<le> y \<Longrightarrow> y \<le> x \<Longrightarrow> x = y" by (cases x; cases y) auto
  show "x \<le> y \<or> y \<le> x" by (cases x; cases y) auto
qed
end

abbreviation rank_key :: "'f \<Rightarrow> pystr \<Rightarrow> 'f desc \<times> pystr" where
  "rank_key score document_id \<equiv> (Desc score, document_id)"

lemma sort_key_unique:
  assumes "inj_on f (set xs)" "distinct xs" "distinct ys" "set xs = set ys"
  shows "sort_key f xs = sort_key f ys"
proof (rule map_sorted_distinct_set_unique [where f = f])
  show "inj_on f (set (sort_key f xs) \<union> set (sort_key f ys))" using assms by simp
  show "sorted (map f (sort_key f xs))" "sorted (map f (sort_key f ys))" by simp_all
  show "distinct (map f (sort_key f xs))" "distinct (map f (sort_key f ys))"
    using assms by (simp_all add: distinct_map)
  show "set (sort_key f xs) = set (sort_key f ys)" using assms by simp
qed

lemma sort_key_split:
  assumes "inj_on f (set (us @ vs))" "distinct (us @ vs)"
    and "\<And>x y. x \<in> set us \<Longrightarrow> y \<in> set vs \<Longrightarrow> f x \<le> f y"
  shows "sort_key f (us @ vs) = sort_key f us @ sort_key f vs"
proof (rule map_sorted_distinct_set_unique [where f = f])
  show "inj_on f (set (sort_key f (us @ vs)) \<union> set (sort_key f us @ sort_key f vs))"
    using assms(1) by simp
  show "sorted (map f (sort_key f (us @ vs)))" by simp
  show "sorted (map f (sort_key f us @ sort_key f vs))"
    using assms(3) by (auto simp: sorted_append)
  show "distinct (map f (sort_key f (us @ vs)))" "distinct (map f (sort_key f us @ sort_key f vs))"
    using assms(1,2) by (auto simp: distinct_map inj_on_Un)
  show "set (sort_key f (us @ vs)) = set (sort_key f us @ sort_key f vs)" by simp
qed

lemma map_insort_key: "map g (insort_key (\<lambda>x. f (g x)) x xs) = insort_key f (g x) (map g xs)"
  by (induction xs) auto

lemma map_sort_key: "map g (sort_key (\<lambda>x. f (g x)) xs) = sort_key f (map g xs)"
  by (induction xs) (simp_all add: map_insort_key)

text \<open>
  The first \<open>k\<close> of a ranking are found in any part of the data that contains them: this is the
  argument that a shard's local top-k is enough for the global top-k.
\<close>

lemma take_sort_key_subset:
  assumes inj: "inj_on f (set xs)" and xs: "distinct xs" and ys: "distinct ys"
    and sub: "set ys \<subseteq> set xs" and top: "set (take k (sort_key f xs)) \<subseteq> set ys"
  shows "take k (sort_key f ys) = take k (sort_key f xs)"
proof -
  define us where "us = take k (sort_key f xs)"
  define vs where "vs = filter (\<lambda>y. y \<notin> set us) ys"
  have split: "sort_key f xs = us @ drop k (sort_key f xs)" by (simp add: us_def)
  have d: "distinct (sort_key f xs)" using xs by simp
  have us: "distinct us" "set us \<subseteq> set ys" "set us \<subseteq> set xs"
    using d top sub by (auto simp: us_def)
  have sus: "sorted (map f us)"
    by (simp add: us_def take_map [symmetric] sorted_wrt_take)
  have le: "f x \<le> f y" if "x \<in> set us" "y \<in> set vs" for x y
  proof -
    from that(2) sub have "y \<in> set (sort_key f xs)" "y \<notin> set us" by (auto simp: vs_def)
    with split have "y \<in> set (drop k (sort_key f xs))"
      by (metis Un_iff set_append)
    moreover have "sorted (map f (us @ drop k (sort_key f xs)))"
      using split by (metis sorted_sort_key)
    ultimately show ?thesis using that(1) by (auto simp: sorted_append)
  qed
  have "sort_key f ys = sort_key f (us @ vs)"
    using inj sub ys us by (intro sort_key_unique) (auto simp: vs_def intro: inj_on_subset)
  also have "\<dots> = sort_key f us @ sort_key f vs"
    using inj sub ys us le by (intro sort_key_split) (auto simp: vs_def intro: inj_on_subset)
  also have "sort_key f us = us" using sus by (simp add: sort_key_id_if_sorted)
  finally have eq: "sort_key f ys = us @ sort_key f vs" .
  show ?thesis
  proof (cases "length us = k")
    case True
    with eq show ?thesis by (simp add: us_def)
  next
    case False
    then have "us = sort_key f xs" by (auto simp: us_def)
    then have "vs = []" using sub by (auto simp: vs_def filter_empty_conv)
    with eq show ?thesis by (simp add: us_def)
  qed
qed

lemma in_take_sort_key_iff:
  assumes inj: "inj_on f (set xs)" and xs: "distinct xs"
  shows "x \<in> set (take k (sort_key f xs)) \<longleftrightarrow> x \<in> set xs \<and> card {y \<in> set xs. f y < f x} < k"
proof -
  define l where "l = sort_key f xs"
  have l: "set l = set xs" "distinct l" "sorted (map f l)" "inj_on f (set l)"
    using inj xs by (simp_all add: l_def)
  have strict: "f (l ! i) < f (l ! j)" if "i < j" "j < length l" for i j
  proof -
    from that l(3) have "f (l ! i) \<le> f (l ! j)"
      using sorted_nth_mono [of "map f l" i j] by simp
    moreover have "f (l ! i) \<noteq> f (l ! j)"
      using that inj_onD [OF l(4), of "l ! i" "l ! j"] l(2) by (auto simp: nth_eq_iff_index_eq)
    ultimately show ?thesis by simp
  qed
  have rank: "card {y \<in> set l. f y < f (l ! i)} = i" if i: "i < length l" for i
  proof -
    have "y \<in> set (take i l) \<longleftrightarrow> y \<in> set l \<and> f y < f (l ! i)" for y
    proof
      assume "y \<in> set (take i l)"
      then obtain j where "j < i" "y = l ! j" using i by (auto simp: in_set_conv_nth)
      with strict [of j i] i show "y \<in> set l \<and> f y < f (l ! i)" by auto
    next
      assume y: "y \<in> set l \<and> f y < f (l ! i)"
      then obtain j where j: "j < length l" "y = l ! j" by (auto simp: in_set_conv_nth)
      have "j < i"
      proof (rule ccontr)
        assume "\<not> j < i"
        with strict [of i j] j y show False by (cases "i = j") auto
      qed
      with j i show "y \<in> set (take i l)" by (auto simp: in_set_conv_nth)
    qed
    then have "{y \<in> set l. f y < f (l ! i)} = set (take i l)" by blast
    also have "card \<dots> = i" using i l(2) by (simp add: distinct_card)
    finally show ?thesis .
  qed
  have "x \<in> set (take k l) \<longleftrightarrow> (\<exists>i < length l. i < k \<and> x = l ! i)"
    by (auto simp: in_set_conv_nth)
  also have "\<dots> \<longleftrightarrow> x \<in> set l \<and> card {y \<in> set l. f y < f x} < k"
    using rank by (auto simp: in_set_conv_nth)
  finally show ?thesis by (simp add: l_def)
qed

lemma in_take_sort_keyD: "x \<in> set (take k (sort_key f xs)) \<Longrightarrow> x \<in> set xs"
  by (metis in_set_takeD set_sort)

lemma set_concat_take_sort:
  "set (concat (map (\<lambda>xs. take k (sort_key f xs)) xss)) \<subseteq> set (concat xss)"
  by (induction xss) (auto dest: in_take_sort_keyD)

lemma distinct_concat_map_take_sort:
  "distinct (concat xss) \<Longrightarrow> distinct (concat (map (\<lambda>xs. take k (sort_key f xs)) xss))"
proof (induction xss)
  case (Cons xs xss)
  then have "set xs \<inter> set (concat xss) = {}" by simp
  then have "set (take k (sort_key f xs)) \<inter> set (concat (map (\<lambda>xs. take k (sort_key f xs)) xss)) = {}"
    using set_concat_take_sort [of k f xss] by (blast dest: in_take_sort_keyD)
  with Cons show ?case by simp
qed simp

theorem top_k_merge:
  assumes dist: "distinct (concat xss)" and inj: "inj_on f (set (concat xss))"
  shows "take k (sort_key f (concat (map (\<lambda>xs. take k (sort_key f xs)) xss))) =
    take k (sort_key f (concat xss))"
proof (rule take_sort_key_subset [OF inj dist distinct_concat_map_take_sort [OF dist]])
  show "set (concat (map (\<lambda>xs. take k (sort_key f xs)) xss)) \<subseteq> set (concat xss)"
    by (rule set_concat_take_sort)
  show "set (take k (sort_key f (concat xss))) \<subseteq> set (concat (map (\<lambda>xs. take k (sort_key f xs)) xss))"
  proof
    fix x assume x: "x \<in> set (take k (sort_key f (concat xss)))"
    then have card: "card {y \<in> set (concat xss). f y < f x} < k" and "x \<in> set (concat xss)"
      using in_take_sort_key_iff [OF inj dist] by blast+
    then obtain xs where xs: "xs \<in> set xss" "x \<in> set xs" by auto
    then have "distinct xs" "inj_on f (set xs)"
      using dist inj by (auto simp: distinct_concat_iff intro: inj_on_subset)
    moreover have "card {y \<in> set xs. f y < f x} \<le> card {y \<in> set (concat xss). f y < f x}"
      using xs by (intro card_mono) auto
    ultimately have "x \<in> set (take k (sort_key f xs))"
      using card xs by (subst in_take_sort_key_iff) auto
    with xs show "x \<in> set (concat (map (\<lambda>xs. take k (sort_key f xs)) xss))" by auto
  qed
qed

text \<open>
  The ranking of a finite map from identifiers to scores: the one list every search is specified by.
\<close>

definition unrank :: "'f desc \<times> pystr \<Rightarrow> pystr \<times> 'f" where
  "unrank k = (case k of (Desc s, d) \<Rightarrow> (d, s))"

definition ranking :: "(pystr \<rightharpoonup> 'f::linorder) \<Rightarrow> (pystr \<times> 'f) list" where
  "ranking S = map unrank (sorted_list_of_set ((\<lambda>d. rank_key (the (S d)) d) ` dom S))"

definition by_rank :: "pystr \<times> 'f \<Rightarrow> 'f desc \<times> pystr" where
  "by_rank p = (case p of (d, s) \<Rightarrow> rank_key s d)"

lemma unrank_by_rank [simp]: "unrank (by_rank p) = p"
  by (cases p) (simp add: unrank_def by_rank_def)

lemma inj_by_rank: "inj_on by_rank X"
  by (metis inj_onI unrank_by_rank)

lemma sort_by_rank:
  fixes xs :: "(pystr \<times> 'f::linorder) list"
  assumes "dict_ok xs"
  shows "sort_key by_rank xs = ranking (map_of xs)"
proof -
  have d: "distinct xs" using assms by (simp add: distinct_map)
  have "by_rank ` set xs = (\<lambda>d. rank_key (the (map_of xs d)) d) ` dom (map_of xs)"
  proof (rule set_eqI, rule iffI)
    fix k assume "k \<in> by_rank ` set xs"
    then obtain d s where "(d, s) \<in> set xs" "k = rank_key s d" by (auto simp: by_rank_def)
    then have "map_of xs d = Some s" "k = rank_key (the (map_of xs d)) d"
      using map_of_is_SomeI [OF assms] by simp_all
    then show "k \<in> (\<lambda>d. rank_key (the (map_of xs d)) d) ` dom (map_of xs)" by blast
  next
    fix k assume "k \<in> (\<lambda>d. rank_key (the (map_of xs d)) d) ` dom (map_of xs)"
    then obtain d s where "map_of xs d = Some s" "k = rank_key s d" by auto
    then show "k \<in> by_rank ` set xs"
      by (auto simp: by_rank_def dest!: map_of_SomeD intro!: rev_image_eqI [of "(d, s)"])
  qed
  moreover have "map by_rank (sort_key by_rank xs) = sorted_list_of_set (by_rank ` set xs)"
    using d by (intro sorted_distinct_set_unique) (simp_all add: distinct_map inj_by_rank)
  ultimately have "map unrank (map by_rank (sort_key by_rank xs)) = ranking (map_of xs)"
    by (simp add: ranking_def)
  then show ?thesis by (simp add: comp_def)
qed

lemma ranking_dict:
  assumes "finite (dom S)"
  shows "dict_ok (ranking S)" "map_of (ranking S) = S" "sort_key by_rank (ranking S) = ranking S"
proof -
  obtain xs where xs: "set xs = dom S" "distinct xs" using finite_distinct_list [OF assms] by blast
  let ?d = "map (\<lambda>d. (d, the (S d))) xs"
  have d: "dict_ok ?d" using xs(2) by (simp add: comp_def)
  have m: "map_of ?d = S" using xs(1)
    by (auto simp: fun_eq_iff map_of_map_restrict restrict_map_def comp_def)
  have r: "sort_key by_rank ?d = ranking S" using sort_by_rank [OF d] m by simp
  have "set (ranking S) = set ?d" by (simp flip: r)
  moreover have "distinct (ranking S)" using xs(2) by (simp flip: r add: distinct_map inj_on_def)
  ultimately show "dict_ok (ranking S)" using d by (simp only: distinct_map)
  then show "map_of (ranking S) = S"
    using d m by (metis (no_types, lifting) dict_in_set not_None_eq r set_sort ext)
  show "sort_key by_rank (ranking S) = ranking S" by (simp flip: r add: sort_key_id_if_sorted)
qed

text \<open>Merging the top \<open>k\<close> of disjoint parts gives the top \<open>k\<close> of the whole.\<close>

lemma merge_rankings:
  fixes xss :: "(pystr \<times> 'f::linorder) list list"
  assumes "dict_ok (concat xss)"
  shows "take k (sort_key by_rank (concat (map (\<lambda>xs. take k (sort_key by_rank xs)) xss)))
    = take k (ranking (map_of (concat xss)))"
proof -
  have "distinct (concat xss)" using assms by (simp add: distinct_map)
  from top_k_merge [OF this inj_by_rank, of k] sort_by_rank [OF assms] show ?thesis by simp
qed

section \<open>Floating-point operations\<close>

text \<open>
  The arithmetic of Python's \<open>float\<close> as the scoring code uses it, as a record of operations on an
  ordered type of values (the floats without NaN, the two zeros identified, ordered as \<open><\<close> orders
  them). \<open>f_rat\<close> is the float nearest to a rational number: it is the meaning of a literal, of the
  conversion of an \<open>int\<close>, and of the true division of two \<open>int\<close>s. Nothing is assumed about
  rounding, so a theorem over an arbitrary record holds for IEEE doubles bit for bit. \<open>real_ops\<close>
  is exact arithmetic, for the theorems about the mathematics of the scores.
\<close>

record 'f fops =
  f_rat :: "rat \<Rightarrow> 'f"
  f_add :: "'f \<Rightarrow> 'f \<Rightarrow> 'f"
  f_sub :: "'f \<Rightarrow> 'f \<Rightarrow> 'f"
  f_mul :: "'f \<Rightarrow> 'f \<Rightarrow> 'f"
  f_quot :: "'f \<Rightarrow> 'f \<Rightarrow> 'f"
  f_ln :: "'f \<Rightarrow> 'f"

definition real_ops :: "real fops" where
  "real_ops = \<lparr>f_rat = of_rat, f_add = (+), f_sub = (-), f_mul = (*), f_quot = (/), f_ln = ln\<rparr>"

definition rat_ops :: "rat fops" where
  "rat_ops = \<lparr>f_rat = (\<lambda>q. q), f_add = (+), f_sub = (-), f_mul = (*), f_quot = (/), f_ln = (\<lambda>q. q)\<rparr>"

text \<open>\<open>x / y\<close> raises on a zero divisor and \<open>math.log(x)\<close> outside its domain.\<close>

definition f_of_int :: "'f fops \<Rightarrow> int \<Rightarrow> 'f" where
  "f_of_int fo n = f_rat fo (of_int n)"

definition f_div :: "'f::linorder fops \<Rightarrow> 'f \<Rightarrow> 'f \<Rightarrow> 'f res" where
  "f_div fo x y = (if y = f_rat fo 0 then Inl ZeroDivisionError else Inr (f_quot fo x y))"

definition f_log :: "'f::linorder fops \<Rightarrow> 'f \<Rightarrow> 'f res" where
  "f_log fo x = (if x \<le> f_rat fo 0 then Inl ValueError else Inr (f_ln fo x))"

lemma real_ops_simps [simp]:
  "f_rat real_ops = of_rat" "f_add real_ops = (+)" "f_sub real_ops = (-)"
  "f_mul real_ops = (*)" "f_quot real_ops = (/)" "f_ln real_ops = ln"
  by (simp_all add: real_ops_def)

lemma rat_ops_simps [simp]:
  "f_rat rat_ops = (\<lambda>q. q)" "f_add rat_ops = (+)" "f_sub rat_ops = (-)"
  "f_mul rat_ops = (*)" "f_quot rat_ops = (/)" "f_ln rat_ops = (\<lambda>q. q)"
  by (simp_all add: rat_ops_def)

section \<open>NumPy arrays\<close>

text \<open>
  A NumPy array is its shape and its elements in row-major order. What the program asks of NumPy
  (conversion to \<open>float32\<close>, literals, \<open>isfinite\<close>, element-wise arithmetic, the dot product of a row
  with a vector, the length of a row) is third-party code, so it is a parameter. A dot product is a
  function of the two vectors: which row of a matrix a vector occupies does not influence it.
\<close>

record 'f ndarray =
  nd_shape :: "nat list"
  nd_data :: "'f list"

record 'f numpy =
  np_float32 :: "'f \<Rightarrow> 'f"
  np_isfinite :: "'f \<Rightarrow> bool"
  np_lit :: "rat \<Rightarrow> 'f"
  np_div :: "'f \<Rightarrow> 'f \<Rightarrow> 'f"
  np_abs_diff :: "'f \<Rightarrow> 'f \<Rightarrow> 'f"
  np_dot :: "'f list \<Rightarrow> 'f list \<Rightarrow> 'f"
  np_norm :: "'f list \<Rightarrow> 'f"

text \<open>Exact arithmetic with the Euclidean length, for the mathematics of normalisation.\<close>

definition real_numpy :: "real numpy" where
  "real_numpy = \<lparr>np_float32 = (\<lambda>x. x), np_isfinite = (\<lambda>_. True), np_lit = of_rat, np_div = (/),
     np_abs_diff = (\<lambda>x y. \<bar>x - y\<bar>), np_dot = (\<lambda>xs ys. sum_list (map2 (*) xs ys)),
     np_norm = (\<lambda>xs. sqrt (sum_list (map (\<lambda>x. x\<^sup>2) xs)))\<rparr>"

text \<open>Exact arithmetic in place of \<open>float32\<close>, for concrete inputs: every value is finite, and the
  length of a row is the sum of the absolute values of its elements.\<close>

definition rat_numpy :: "rat numpy" where
  "rat_numpy = \<lparr>np_float32 = (\<lambda>x. x), np_isfinite = (\<lambda>_. True), np_lit = (\<lambda>q. q), np_div = (/),
     np_abs_diff = (\<lambda>x y. \<bar>x - y\<bar>), np_dot = (\<lambda>xs ys. sum_list (map2 (*) xs ys)),
     np_norm = (\<lambda>xs. sum_list (map abs xs))\<rparr>"

definition nd_vec :: "'f list \<Rightarrow> 'f ndarray" where
  "nd_vec xs = \<lparr>nd_shape = [length xs], nd_data = xs\<rparr>"

text \<open>The rows of an array: what iterating over it yields. A 0-dimensional array is not iterable.\<close>

definition nd_rows :: "'f ndarray \<Rightarrow> 'f ndarray list res" where
  "nd_rows a = (case nd_shape a of [] \<Rightarrow> Inl TypeError
     | n # sh \<Rightarrow> Inr (map (\<lambda>i. \<lparr>nd_shape = sh, nd_data = take (prod_list sh) (drop (i * prod_list sh) (nd_data a))\<rparr>) [0..<n]))"

text \<open>Everything outside the repository that the program computes with, in one record.\<close>

record 'f runtime =
  rt_unicode :: unicode
  rt_float :: "'f fops"
  rt_numpy :: "'f numpy"
end
