(* ===== verification/Analysis.thy ===== *)
theory Analysis
  imports Prelude
begin

text \<open>
  \<open>app/search/analysis.py\<close> (normalisation and tokenisation, the one pipeline documents and queries
  share) and \<open>app/search/document.py\<close> (the document model). The tokeniser loop is shown to compute
  the maximal runs of alphanumeric characters, and analysing already analysed text again is shown
  to change nothing.
\<close>

section \<open>Definitions\<close>

definition normalize_text :: "unicode \<Rightarrow> pystr \<Rightarrow> pystr" where
  "normalize_text ud text = ud_casefold ud (ud_nfkc ud text)"

text \<open>The loop of \<open>tokenize\<close> over \<open>tokens\<close>, \<open>current\<close> and the characters still to read.\<close>

fun tokenize_loop :: "unicode \<Rightarrow> pystr list \<Rightarrow> pystr \<Rightarrow> pystr \<Rightarrow> pystr list" where
  "tokenize_loop ud tokens current [] = (if current \<noteq> [] then tokens @ [current] else tokens)"
| "tokenize_loop ud tokens current (character # chars) =
     (if ud_isalnum ud character then tokenize_loop ud tokens (current @ [character]) chars
      else if current \<noteq> [] then tokenize_loop ud (tokens @ [current]) [] chars
      else tokenize_loop ud tokens current chars)"

definition tokenize :: "unicode \<Rightarrow> pystr \<Rightarrow> pystr list" where
  "tokenize ud text = tokenize_loop ud [] [] text"

definition analyze :: "unicode \<Rightarrow> pystr \<Rightarrow> pystr list" where
  "analyze ud text = tokenize ud (normalize_text ud text)"

record document =
  document_id :: pystr
  doc_text :: pystr

text \<open>The constructor call \<open>Document(document_id=..., text=...)\<close> with its \<open>__post_init__\<close>.\<close>

definition mk_document :: "unicode \<Rightarrow> pystr \<Rightarrow> pystr \<Rightarrow> document res" where
  "mk_document ud i t =
     (if py_strip ud i = [] then Inl InvalidDocumentError
      else Inr \<lparr>document_id = i, doc_text = t\<rparr>)"

definition valid_id :: "unicode \<Rightarrow> pystr \<Rightarrow> bool" where
  "valid_id ud i \<longleftrightarrow> (\<exists>c\<in>set i. \<not> ud_isspace ud c)"

section \<open>The tokeniser computes maximal runs\<close>

text \<open>Reference definition: skip separators, take the longest run, continue after it.\<close>

function alnum_runs :: "(codepoint \<Rightarrow> bool) \<Rightarrow> pystr \<Rightarrow> pystr list" where
  "alnum_runs p s = (case dropWhile (\<lambda>c. \<not> p c) s of [] \<Rightarrow> []
     | c # s' \<Rightarrow> (c # takeWhile p s') # alnum_runs p (dropWhile p s'))"
  by pat_completeness auto
termination
proof (relation "measure (\<lambda>(p, s). length s)")
  fix p :: "codepoint \<Rightarrow> bool" and s c s'
  assume "dropWhile (\<lambda>c. \<not> p c) s = c # s'"
  then have "length (c # s') \<le> length s"
    by (metis length_dropWhile_le)
  moreover have "length (dropWhile p s') \<le> length s'" by (rule length_dropWhile_le)
  ultimately show "((p, dropWhile p s'), (p, s)) \<in> measure (\<lambda>(p, s). length s)" by simp
qed simp

declare alnum_runs.simps [simp del]

lemma alnum_runs_Nil [simp]: "alnum_runs p [] = []"
  by (simp add: alnum_runs.simps)

lemma alnum_runs_sep [simp]: "\<not> p c \<Longrightarrow> alnum_runs p (c # s) = alnum_runs p s"
  by (simp add: alnum_runs.simps [of p "c # s"] alnum_runs.simps [of p s])

lemma alnum_runs_run:
  assumes "w \<noteq> []" and "\<forall>c\<in>set w. p c" and "s = [] \<or> \<not> p (hd s)"
  shows "alnum_runs p (w @ s) = w # alnum_runs p s"
proof -
  obtain c w' where w: "w = c # w'" using assms(1) by (cases w) auto
  have s: "takeWhile p s = []" "dropWhile p s = s"
    using assms(3) by (cases s; simp)+
  have "takeWhile p (w' @ s) = w'" "dropWhile p (w' @ s) = s"
    using assms(2) w s by (simp_all add: takeWhile_append2 dropWhile_append2)
  then show ?thesis using assms(2) w by (simp add: alnum_runs.simps [of p "c # w' @ s"])
qed

lemma tokenize_loop_runs:
  "\<forall>c\<in>set current. ud_isalnum ud c \<Longrightarrow>
   tokenize_loop ud tokens current chars = tokens @ alnum_runs (ud_isalnum ud) (current @ chars)"
proof (induction ud tokens current chars rule: tokenize_loop.induct)
  case (1 ud tokens current)
  then show ?case using alnum_runs_run [of current "ud_isalnum ud" "[]"] by auto
next
  case (2 ud tokens current c chars)
  show ?case
  proof (cases "ud_isalnum ud c")
    case True
    with 2 show ?thesis by simp
  next
    case False
    with 2 show ?thesis using alnum_runs_run [of current "ud_isalnum ud" "c # chars"] by auto
  qed
qed

lemma tokenize_eq_runs: "tokenize ud text = alnum_runs (ud_isalnum ud) text"
  by (simp add: tokenize_def tokenize_loop_runs)

lemma alnum_runs_tokens: "w \<in> set (alnum_runs p s) \<Longrightarrow> w \<noteq> [] \<and> (\<forall>c\<in>set w. p c)"
proof (induction p s rule: alnum_runs.induct)
  case (1 p s)
  show ?case
  proof (cases "dropWhile (\<lambda>c. \<not> p c) s")
    case Nil
    with 1 show ?thesis by (simp add: alnum_runs.simps [of p s])
  next
    case (Cons c s')
    then have "p c" by (metis hd_dropWhile list.distinct(1) list.sel(1))
    with 1 Cons show ?thesis
      by (auto simp: alnum_runs.simps [of p s] dest: set_takeWhileD)
  qed
qed

lemma alnum_runs_join:
  assumes "\<forall>w\<in>set ws. w \<noteq> [] \<and> (\<forall>c\<in>set w. p c)" and "\<not> p sep"
  shows "alnum_runs p (concat (map (\<lambda>w. w @ [sep]) ws)) = ws"
  using assms
proof (induction ws)
  case (Cons w ws)
  then show ?case using alnum_runs_run [of w p "sep # concat (map (\<lambda>w. w @ [sep]) ws)"] by auto
qed simp

lemma concat_alnum_runs: "concat (alnum_runs p s) = filter p s"
proof (induction p s rule: alnum_runs.induct)
  case (1 p s)
  define t where "t = dropWhile (\<lambda>c. \<not> p c) s"
  have "filter p s = filter p (takeWhile (\<lambda>c. \<not> p c) s @ t)" by (simp add: t_def)
  also have "\<dots> = filter p t"
    by (auto simp: filter_empty_conv dest: set_takeWhileD)
  finally have s: "filter p s = filter p t" .
  show ?case
  proof (cases t)
    case Nil
    then show ?thesis using s by (subst alnum_runs.simps) (simp add: t_def [symmetric])
  next
    case (Cons c s')
    then have c: "p c" unfolding t_def by (metis hd_dropWhile list.distinct(1) list.sel(1))
    have "filter p s' = filter p (takeWhile p s' @ dropWhile p s')" by simp
    also have "\<dots> = takeWhile p s' @ filter p (dropWhile p s')"
      by (simp add: filter_id_conv del: takeWhile_dropWhile_id) (metis set_takeWhileD)
    finally show ?thesis
      using 1 [OF Cons [unfolded t_def]] s Cons c by (simp add: alnum_runs.simps [of p s] t_def)
  qed
qed

section \<open>Properties\<close>

text \<open>C26. The tokens are maximal runs: the loop agrees with the reference definition that skips
  separators and takes the longest alphanumeric run, so no alphanumeric character is dropped
  and nothing is invented, and every token is non-empty and purely alphanumeric.\<close>

theorem tokenize_correct:
  "tokenize ud text = alnum_runs (ud_isalnum ud) text
   \<and> concat (tokenize ud text) = filter (ud_isalnum ud) text
   \<and> list_all (\<lambda>w. w \<noteq> [] \<and> list_all (ud_isalnum ud) w) (tokenize ud text)"
  using alnum_runs_tokens
  by (auto simp: tokenize_eq_runs concat_alnum_runs list_all_iff)

lemma mk_document_Inr_iff:
  "mk_document ud i t = Inr d \<longleftrightarrow> valid_id ud i \<and> d = \<lparr>document_id = i, doc_text = t\<rparr>"
  by (auto simp: mk_document_def valid_id_def py_strip_empty_iff)

lemma mk_document_valid [simp]:
  "valid_id ud (document_id d) \<Longrightarrow> mk_document ud (document_id d) (doc_text d) = Inr d"
  by (simp add: mk_document_Inr_iff)

end
