(* ===== verification/Interfaces.thy ===== *)
theory Interfaces
  imports Analysis
begin

text \<open>
  The interfaces between components, each with the facts its clients need.
\<close>

section \<open>Derived structures\<close>

text \<open>
  The contract the search engine relies on for each of its derived structures (the document cache,
  the inverted index and the vector index): a structure represents a finite map from document
  identifiers to values, adding a document updates the map and removing one restricts it. The
  engine's rebuild, its incremental updates and its recovery need nothing else.
\<close>

locale derived_structure =
  fixes repr :: "'s \<Rightarrow> (pystr \<rightharpoonup> 'b) \<Rightarrow> bool"
    and empty :: 's
    and ok :: "'a \<Rightarrow> bool"
    and val :: "'a \<Rightarrow> 'b"
    and add :: "pystr \<Rightarrow> 'a \<Rightarrow> ('s, unit) st"
    and remove :: "pystr \<Rightarrow> ('s, unit) st"
  assumes repr_empty: "repr empty Map.empty"
    and add_ok: "repr s M \<Longrightarrow> ok v \<Longrightarrow> \<exists>s'. add k v s = (Inr (), s') \<and> repr s' (M(k \<mapsto> val v))"
    and remove_ok: "repr s M \<Longrightarrow> M k \<noteq> None \<Longrightarrow> \<exists>s'. remove k s = (Inr (), s') \<and> repr s' (M(k := None))"
begin

lemma rebuild_from:
  assumes "repr s M" and "\<forall>(k, v)\<in>set kvs. ok v" and "distinct (map fst kvs)"
  shows "\<exists>s'. sfold (\<lambda>(k, v). add k v) kvs s = (Inr (), s')
    \<and> repr s' (M ++ map_of (map (\<lambda>(k, v). (k, val v)) kvs))"
  using assms
proof (induction kvs arbitrary: s M)
  case Nil
  then show ?case by simp
next
  case (Cons kv kvs)
  obtain k v where kv: "kv = (k, v)" by (cases kv)
  let ?N = "map_of (map (\<lambda>(k, v). (k, val v)) kvs)"
  have "ok v" using Cons.prems kv by simp
  then obtain s1 where s1: "add k v s = (Inr (), s1)" "repr s1 (M(k \<mapsto> val v))"
    using add_ok [OF Cons.prems(1)] by blast
  have "?N k = None" using Cons.prems(3) kv by (force simp: map_of_eq_None_iff)
  then have "M(k \<mapsto> val v) ++ ?N = M ++ map_of (map (\<lambda>(k, v). (k, val v)) (kv # kvs))"
    by (auto simp: kv fun_eq_iff map_add_def split: option.splits)
  moreover obtain s2 where "sfold (\<lambda>(k, v). add k v) kvs s1 = (Inr (), s2)"
      "repr s2 (M(k \<mapsto> val v) ++ ?N)"
  proof -
    have "\<forall>(k, v)\<in>set kvs. ok v" "distinct (map fst kvs)" using Cons.prems by simp_all
    from Cons.IH [OF s1(2) this] that show thesis by blast
  qed
  ultimately show ?case using s1(1) kv by (simp del: fun_upd_apply)
qed

lemma rebuild:
  assumes "\<forall>(k, v)\<in>set kvs. ok v" and "distinct (map fst kvs)"
  shows "\<exists>s'. sfold (\<lambda>(k, v). add k v) kvs empty = (Inr (), s')
    \<and> repr s' (map_of (map (\<lambda>(k, v). (k, val v)) kvs))"
  using rebuild_from [OF repr_empty assms] by simp

end

section \<open>The document store\<close>

text \<open>
  The protocol \<open>DocumentStore\<close> of \<open>app/storage/base.py\<close>: a store holds a corpus and the generation it
  has applied up to, and every mutation commits both together or raises \<open>StorageError\<close> and changes
  nothing. Clients that only use the protocol see a store whose content is exactly the effect of the
  mutations that returned.
\<close>

datatype store_op = PutDoc document int | DeleteDoc pystr int | ReplaceDocs "document list" int

definition docs_corpus :: "document list \<Rightarrow> pystr \<rightharpoonup> pystr" where
  "docs_corpus docs = map_of (map (\<lambda>doc. (document_id doc, doc_text doc)) docs)"

fun store_op_effect :: "store_op \<Rightarrow> (pystr \<rightharpoonup> pystr) \<times> int \<Rightarrow> (pystr \<rightharpoonup> pystr) \<times> int" where
  "store_op_effect (PutDoc doc g) (C, _) = (C(document_id doc \<mapsto> doc_text doc), g)"
| "store_op_effect (DeleteDoc d g) (C, _) = (C(d := None), g)"
| "store_op_effect (ReplaceDocs docs g) (C, _) = (docs_corpus docs, g)"

fun store_op_valid :: "(pystr \<Rightarrow> bool) \<Rightarrow> store_op \<Rightarrow> bool" where
  "store_op_valid valid (PutDoc doc g) = valid (document_id doc)"
| "store_op_valid valid (DeleteDoc d g) = True"
| "store_op_valid valid (ReplaceDocs docs g) = list_all (\<lambda>doc. valid (document_id doc)) docs"

definition acked :: "'a res \<times> 's \<Rightarrow> bool \<times> 's" where
  "acked r = (case r of (Inl _, s) \<Rightarrow> (False, s) | (Inr _, s) \<Rightarrow> (True, s))"

fun store_op_run :: "(document \<Rightarrow> int \<Rightarrow> ('s, bool) st) \<Rightarrow> (pystr \<Rightarrow> int \<Rightarrow> ('s, bool) st)
    \<Rightarrow> (document list \<Rightarrow> int \<Rightarrow> ('s, unit) st) \<Rightarrow> store_op \<Rightarrow> 's \<Rightarrow> bool \<times> 's" where
  "store_op_run put delete replace_all (PutDoc doc g) s = acked (put doc g s)"
| "store_op_run put delete replace_all (DeleteDoc d g) s = acked (delete d g s)"
| "store_op_run put delete replace_all (ReplaceDocs docs g) s = acked (replace_all docs g s)"

text \<open>A session of mutations: the ones that were acknowledged, and the store afterwards.\<close>

fun store_session :: "(document \<Rightarrow> int \<Rightarrow> ('s, bool) st) \<Rightarrow> (pystr \<Rightarrow> int \<Rightarrow> ('s, bool) st)
    \<Rightarrow> (document list \<Rightarrow> int \<Rightarrow> ('s, unit) st) \<Rightarrow> store_op list \<Rightarrow> 's \<Rightarrow> store_op list \<times> 's" where
  "store_session put delete replace_all [] s = ([], s)"
| "store_session put delete replace_all (op # ops) s =
     (case store_op_run put delete replace_all op s of (a, s1) \<Rightarrow>
        case store_session put delete replace_all ops s1 of (done, s2) \<Rightarrow>
          (if a then op # done else done, s2))"

locale document_store =
  fixes ok :: "'s \<Rightarrow> bool"
    and content :: "'s \<Rightarrow> (pystr \<rightharpoonup> pystr) \<times> int"
    and valid :: "pystr \<Rightarrow> bool"
    and put :: "document \<Rightarrow> int \<Rightarrow> ('s, bool) st"
    and delete :: "pystr \<Rightarrow> int \<Rightarrow> ('s, bool) st"
    and replace_all :: "document list \<Rightarrow> int \<Rightarrow> ('s, unit) st"
    and generation :: "('s, int) st"
    and iter_documents :: "('s, document list) st"
  assumes put_law: "ok s \<Longrightarrow> valid (document_id doc) \<Longrightarrow> \<exists>s'. ok s' \<and>
      (put doc g s = (Inr (fst (content s) (document_id doc) = None), s')
         \<and> content s' = store_op_effect (PutDoc doc g) (content s)
       \<or> put doc g s = (Inl StorageError, s') \<and> content s' = content s)"
    and delete_law: "ok s \<Longrightarrow> \<exists>s'. ok s' \<and>
      (delete d g s = (Inr (fst (content s) d \<noteq> None), s') \<and> content s' = store_op_effect (DeleteDoc d g) (content s)
       \<or> delete d g s = (Inl StorageError, s') \<and> content s' = content s)"
    and replace_law: "ok s \<Longrightarrow> list_all (\<lambda>doc. valid (document_id doc)) docs \<Longrightarrow> \<exists>s'. ok s' \<and>
      (distinct (map document_id docs) \<and> replace_all docs g s = (Inr (), s')
         \<and> content s' = store_op_effect (ReplaceDocs docs g) (content s)
       \<or> replace_all docs g s = (Inl StorageError, s') \<and> content s' = content s)"
    and generation_law: "ok s \<Longrightarrow> \<exists>s'. ok s' \<and> content s' = content s \<and>
      (generation s = (Inr (snd (content s)), s') \<or> generation s = (Inl StorageError, s'))"
    and iter_law: "ok s \<Longrightarrow> \<exists>s'. ok s' \<and> content s' = content s \<and>
      ((\<exists>docs. iter_documents s = (Inr docs, s') \<and> docs_corpus docs = fst (content s)
           \<and> sorted (map document_id docs) \<and> distinct (map document_id docs)
           \<and> list_all (\<lambda>doc. valid (document_id doc)) docs)
       \<or> iter_documents s = (Inl StorageError, s'))"
begin

lemma op_run_cases:
  assumes "ok s" "store_op_valid valid op"
  shows "\<exists>a s'. store_op_run put delete replace_all op s = (a, s') \<and> ok s'
    \<and> content s' = (if a then store_op_effect op (content s) else content s)"
proof (cases op)
  case (PutDoc doc g)
  then show ?thesis using put_law [OF assms(1), of doc g] assms(2) by (auto simp: acked_def)
next
  case (DeleteDoc d g)
  then show ?thesis using delete_law [OF assms(1), of d g] by (auto simp: acked_def)
next
  case (ReplaceDocs docs g)
  then show ?thesis using replace_law [OF assms(1), of docs g] assms(2) by (auto simp: acked_def)
qed

lemma session_content:
  assumes "ok s" "list_all (store_op_valid valid) ops"
  shows "\<exists>done s'. store_session put delete replace_all ops s = (done, s') \<and> ok s'
    \<and> content s' = fold store_op_effect done (content s)"
  using assms
proof (induction ops arbitrary: s)
  case (Cons op ops)
  from Cons.prems have "ok s" "store_op_valid valid op" by simp_all
  from op_run_cases [OF this] obtain a s1 where
    1: "store_op_run put delete replace_all op s = (a, s1)" "ok s1"
      "content s1 = (if a then store_op_effect op (content s) else content s)" by blast
  from Cons.prems have "list_all (store_op_valid valid) ops" by simp
  from Cons.IH [OF 1(2) this] obtain dn s2 where
    2: "store_session put delete replace_all ops s1 = (dn, s2)" "ok s2"
      "content s2 = fold store_op_effect dn (content s1)" by blast
  show ?case using 1 2 by (cases a) auto
qed simp

end

end
