(* ===== verification/Inverted_Index.thy ===== *)
theory Inverted_Index
  imports Interfaces
begin

text \<open>
  \<open>app/search/index.py\<close>: the in-memory inverted index and the statistics BM25 needs. The state is
  the four fields of \<open>InvertedIndex\<close>; a \<open>frozenset\<close> of terms is a list without repetitions. The
  specification \<open>index_repr\<close> says which corpus (a finite map from document identifiers to their
  tokens) an index stands for; the operations are shown to implement adding and removing a document
  of that corpus, and \<open>validate\<close> is shown to accept exactly the indexes that stand for some corpus.
\<close>

section \<open>State and queries\<close>

record corpus_stats =
  cs_document_count :: int
  cs_total_document_length :: int
  cs_document_frequencies :: "(pystr, int) dict"

definition cs_average_document_length :: "'f fops \<Rightarrow> corpus_stats \<Rightarrow> 'f" where
  "cs_average_document_length fo st =
     (if cs_document_count st = 0 then f_rat fo 0
      else f_rat fo (of_int (cs_total_document_length st) / of_int (cs_document_count st)))"

definition cs_document_frequency :: "corpus_stats \<Rightarrow> pystr \<Rightarrow> int" where
  "cs_document_frequency st t = dget_or (cs_document_frequencies st) t 0"

text \<open>\<open>merge_corpus_stats\<close>: the loop over the parts, its three accumulators as one record.\<close>

definition merge_frequencies :: "(pystr, int) dict \<Rightarrow> (pystr, int) dict \<Rightarrow> (pystr, int) dict" where
  "merge_frequencies part acc = fold (\<lambda>(t, f) d. AList.update t (dget_or d t 0 + f) d) part acc"

definition merge_corpus_stats :: "corpus_stats list \<Rightarrow> corpus_stats" where
  "merge_corpus_stats parts =
     fold (\<lambda>part acc.
         \<lparr>cs_document_count = cs_document_count acc + cs_document_count part,
          cs_total_document_length = cs_total_document_length acc + cs_total_document_length part,
          cs_document_frequencies =
            merge_frequencies (cs_document_frequencies part) (cs_document_frequencies acc)\<rparr>)
       parts \<lparr>cs_document_count = 0, cs_total_document_length = 0, cs_document_frequencies = []\<rparr>"

record posting =
  po_document_id :: pystr
  po_term_frequency :: int

record 'f index_stats =
  is_document_count :: int
  is_unique_term_count :: int
  is_average_document_length :: 'f
  is_total_token_count :: int

record inverted_index =
  ix_postings :: "(pystr, (pystr, int) dict) dict"
  ix_document_terms :: "(pystr, pystr list) dict"
  ix_document_lengths :: "(pystr, int) dict"
  ix_total_length :: int

definition index_empty :: inverted_index where
  "index_empty = \<lparr>ix_postings = [], ix_document_terms = [], ix_document_lengths = [], ix_total_length = 0\<rparr>"

definition index_document_count :: "inverted_index \<Rightarrow> int" where
  "index_document_count ix = int (length (ix_document_lengths ix))"

definition index_unique_term_count :: "inverted_index \<Rightarrow> int" where
  "index_unique_term_count ix = int (length (ix_postings ix))"

definition index_average_document_length :: "'f fops \<Rightarrow> inverted_index \<Rightarrow> 'f" where
  "index_average_document_length fo ix =
     (if ix_document_lengths ix = [] then f_rat fo 0
      else f_rat fo (of_int (ix_total_length ix) / of_int (index_document_count ix)))"

definition index_posting_map :: "inverted_index \<Rightarrow> pystr \<Rightarrow> (pystr, int) dict" where
  "index_posting_map ix t = dget_or (ix_postings ix) t []"

definition index_document_frequency :: "inverted_index \<Rightarrow> pystr \<Rightarrow> int" where
  "index_document_frequency ix t = int (length (index_posting_map ix t))"

definition index_term_frequency :: "inverted_index \<Rightarrow> pystr \<Rightarrow> pystr \<Rightarrow> int" where
  "index_term_frequency ix t d = dget_or (index_posting_map ix t) d 0"

definition index_document_length :: "inverted_index \<Rightarrow> pystr \<Rightarrow> int" where
  "index_document_length ix d = dget_or (ix_document_lengths ix) d 0"

definition index_contains :: "inverted_index \<Rightarrow> pystr \<Rightarrow> bool" where
  "index_contains ix d \<longleftrightarrow> dhas (ix_document_lengths ix) d"

definition index_document_ids :: "inverted_index \<Rightarrow> pystr set" where
  "index_document_ids ix = set (dkeys (ix_document_lengths ix))"

definition index_postings :: "inverted_index \<Rightarrow> pystr \<Rightarrow> posting list" where
  "index_postings ix t =
     map (\<lambda>(d, f). \<lparr>po_document_id = d, po_term_frequency = f\<rparr>) (index_posting_map ix t)"

definition index_corpus_stats :: "inverted_index \<Rightarrow> pystr list \<Rightarrow> corpus_stats" where
  "index_corpus_stats ix terms =
     \<lparr>cs_document_count = index_document_count ix,
      cs_total_document_length = ix_total_length ix,
      cs_document_frequencies =
        fold (\<lambda>t d. AList.update t (index_document_frequency ix t) d) terms []\<rparr>"

definition index_get_stats :: "'f fops \<Rightarrow> inverted_index \<Rightarrow> 'f index_stats" where
  "index_get_stats fo ix =
     \<lparr>is_document_count = index_document_count ix,
      is_unique_term_count = index_unique_term_count ix,
      is_average_document_length = index_average_document_length fo ix,
      is_total_token_count = ix_total_length ix\<rparr>"

section \<open>Mutation\<close>

text \<open>\<open>collections.Counter\<close>: a dictionary of counts in order of first occurrence.\<close>

definition counter :: "pystr list \<Rightarrow> (pystr, int) dict" where
  "counter tokens = fold (\<lambda>t d. AList.update t (dget_or d t 0 + 1) d) tokens []"

text \<open>The body of the loop of \<open>remove_document\<close> for one term of the document.\<close>

definition remove_posting :: "pystr \<Rightarrow> pystr \<Rightarrow> (inverted_index, unit) st" where
  "remove_posting d t ix =
     (case map_of (ix_postings ix) t of None \<Rightarrow> (Inl KeyError, ix)
      | Some m \<Rightarrow>
         (case map_of m d of None \<Rightarrow> (Inl KeyError, ix)
          | Some _ \<Rightarrow>
             (let m' = AList.delete d m
              in (Inr (), ix\<lparr>ix_postings :=
                   (if m' = [] then AList.delete t (ix_postings ix)
                    else AList.update t m' (ix_postings ix))\<rparr>))))"

definition index_remove_document :: "pystr \<Rightarrow> (inverted_index, unit) st" where
  "index_remove_document d ix =
     (case map_of (ix_document_lengths ix) d of None \<Rightarrow> (Inl KeyError, ix)
      | Some len \<Rightarrow>
         (case map_of (ix_document_terms ix) d of None \<Rightarrow> (Inl KeyError, ix)
          | Some terms \<Rightarrow>
             sbind (sfold (remove_posting d) terms)
               (\<lambda>_ ix'. (Inr (), ix'\<lparr>ix_document_lengths := AList.delete d (ix_document_lengths ix'),
                                   ix_total_length := ix_total_length ix' - len\<rparr>))
               (ix\<lparr>ix_document_terms := AList.delete d (ix_document_terms ix)\<rparr>)))"

text \<open>\<open>self._postings.setdefault(term, {})[document_id] = term_frequency\<close>\<close>

definition set_posting ::
    "pystr \<Rightarrow> pystr \<Rightarrow> int \<Rightarrow> (pystr, (pystr, int) dict) dict \<Rightarrow> (pystr, (pystr, int) dict) dict" where
  "set_posting d t f ps = AList.update t (AList.update d f (dget_or ps t [])) ps"

definition index_add_document :: "pystr \<Rightarrow> pystr list \<Rightarrow> (inverted_index, unit) st" where
  "index_add_document d tokens ix =
     sbind (\<lambda>ix. if dhas (ix_document_lengths ix) d then index_remove_document d ix else (Inr (), ix))
       (\<lambda>_ ix.
          (let frequencies = counter tokens
           in (Inr (), ix\<lparr>ix_postings := fold (\<lambda>(t, f). set_posting d t f) frequencies (ix_postings ix),
                          ix_document_terms := AList.update d (dkeys frequencies) (ix_document_terms ix),
                          ix_document_lengths := AList.update d (int (length tokens)) (ix_document_lengths ix),
                          ix_total_length := ix_total_length ix + int (length tokens)\<rparr>)))
       ix"

section \<open>Validation\<close>

definition validate_posting :: "inverted_index \<Rightarrow> pystr \<Rightarrow> pystr \<times> int \<Rightarrow> unit res" where
  "validate_posting ix t p =
     (case p of (d, f) \<Rightarrow>
        if \<not> dhas (ix_document_lengths ix) d then Inl IndexInvariantError
        else if f < 1 then Inl IndexInvariantError
        else ebind (dget_item (ix_document_terms ix) d)
               (\<lambda>terms. if t \<notin> set terms then Inl IndexInvariantError else Inr ()))"

definition validate_document :: "inverted_index \<Rightarrow> pystr \<times> pystr list \<Rightarrow> unit res" where
  "validate_document ix p =
     (case p of (d, terms) \<Rightarrow>
        ebind (efold (\<lambda>t summed. case map_of (index_posting_map ix t) d of
                   None \<Rightarrow> Inl IndexInvariantError | Some f \<Rightarrow> Inr (summed + f)) terms 0)
          (\<lambda>summed. ebind (dget_item (ix_document_lengths ix) d)
             (\<lambda>len. if summed \<noteq> len then Inl IndexInvariantError else Inr ())))"

definition validate_term :: "inverted_index \<Rightarrow> pystr \<times> (pystr, int) dict \<Rightarrow> unit res" where
  "validate_term ix p =
     (case p of (t, ps) \<Rightarrow>
        if ps = [] then Inl IndexInvariantError
        else efold (\<lambda>p _. validate_posting ix t p) ps ())"

definition index_validate :: "inverted_index \<Rightarrow> unit res" where
  "index_validate ix =
     (if set (dkeys (ix_document_terms ix)) \<noteq> set (dkeys (ix_document_lengths ix)) then Inl IndexInvariantError
      else if ix_total_length ix \<noteq> sum_list (map snd (ix_document_lengths ix)) then Inl IndexInvariantError
      else if list_ex (\<lambda>(d, len). len < 0) (ix_document_lengths ix) then Inl IndexInvariantError
      else ebind (efold (\<lambda>p _. validate_term ix p) (ix_postings ix) ())
             (\<lambda>_. efold (\<lambda>p _. validate_document ix p) (ix_document_terms ix) ()))"

section \<open>Which corpus an index stands for\<close>

text \<open>The posting of a term for a document, if there is one.\<close>

definition posting_of :: "inverted_index \<Rightarrow> pystr \<Rightarrow> pystr \<Rightarrow> int option" where
  "posting_of ix t d = map_of (index_posting_map ix t) d"

text \<open>What a corpus of token lists says the posting should be.\<close>

definition corpus_posting :: "(pystr \<rightharpoonup> pystr list) \<Rightarrow> pystr \<Rightarrow> pystr \<Rightarrow> int option" where
  "corpus_posting M t d =
     (case M d of None \<Rightarrow> None
      | Some toks \<Rightarrow> if t \<in> set toks then Some (int (count_list toks t)) else None)"

text \<open>The shape Python guarantees of the dictionaries: no repeated keys, sets without repetitions.\<close>

definition index_shape :: "inverted_index \<Rightarrow> bool" where
  "index_shape ix \<longleftrightarrow>
     dict_ok (ix_postings ix) \<and> dict_ok (ix_document_terms ix) \<and> dict_ok (ix_document_lengths ix)
     \<and> (\<forall>t m. map_of (ix_postings ix) t = Some m \<longrightarrow> dict_ok m)
     \<and> (\<forall>d ts. map_of (ix_document_terms ix) d = Some ts \<longrightarrow> distinct ts)"

definition index_repr :: "inverted_index \<Rightarrow> (pystr \<rightharpoonup> pystr list) \<Rightarrow> bool" where
  "index_repr ix M \<longleftrightarrow>
     index_shape ix
     \<and> map_of (ix_document_lengths ix) = (\<lambda>d. map_option (\<lambda>toks. int (length toks)) (M d))
     \<and> (\<forall>d. map_option set (map_of (ix_document_terms ix) d) = map_option set (M d))
     \<and> (\<forall>t m. map_of (ix_postings ix) t = Some m \<longrightarrow> m \<noteq> [])
     \<and> (\<forall>t d. posting_of ix t d = corpus_posting M t d)
     \<and> ix_total_length ix = sum_list (map snd (ix_document_lengths ix))"

named_theorems index_simps \<open>how a representing index answers queries\<close>

lemma posting_map_ok: "index_shape ix \<Longrightarrow> dict_ok (index_posting_map ix t)"
  by (auto simp: index_shape_def index_posting_map_def dget_or_def split: option.splits)

lemma index_shapeD:
  assumes "index_shape ix"
  shows "dict_ok (ix_postings ix)" "dict_ok (ix_document_terms ix)" "dict_ok (ix_document_lengths ix)"
    "map_of (ix_document_terms ix) d = Some ts \<Longrightarrow> distinct ts"
  using assms unfolding index_shape_def by blast+

lemma index_repr_shape: "index_repr ix M \<Longrightarrow> index_shape ix"
  by (simp add: index_repr_def)

lemma index_repr_posting [index_simps]:
  "index_repr ix M \<Longrightarrow> map_of (index_posting_map ix t) d = corpus_posting M t d"
  by (auto simp: index_repr_def posting_of_def)

lemma index_repr_length [index_simps]:
  "index_repr ix M \<Longrightarrow> map_of (ix_document_lengths ix) d = map_option (\<lambda>toks. int (length toks)) (M d)"
  by (simp add: index_repr_def)

lemma index_repr_dom: "index_repr ix M \<Longrightarrow> dom (map_of (ix_document_lengths ix)) = dom M"
  by (auto simp: index_repr_length dom_def)

lemma index_repr_finite: "index_repr ix M \<Longrightarrow> finite (dom M)"
  by (metis index_repr_dom finite_dom_map_of)

lemma index_repr_total [index_simps]:
  assumes "index_repr ix M"
  shows "ix_total_length ix = (\<Sum>d \<in> dom M. int (length (the (M d))))"
proof -
  have "snd = (\<lambda>(d :: pystr, len :: int). len)" by (rule ext) (simp add: case_prod_beta)
  then have "ix_total_length ix = sum_list (map (\<lambda>(d, len). len) (ix_document_lengths ix))"
    using assms by (simp only: index_repr_def)
  also have "\<dots> = (\<Sum>d \<in> dom M. the (map_of (ix_document_lengths ix) d))"
    using index_repr_shape [OF assms] dict_sum [of "ix_document_lengths ix" "\<lambda>d len. len"]
    by (simp only: index_shape_def index_repr_dom [OF assms])
  also have "\<dots> = (\<Sum>d \<in> dom M. int (length (the (M d))))"
    using assms by (intro sum.cong) (auto simp: index_repr_length)
  finally show ?thesis .
qed

lemma index_repr_count [index_simps]:
  "index_repr ix M \<Longrightarrow> index_document_count ix = int (card (dom M))"
  using dict_length [of "ix_document_lengths ix"]
  by (simp only: index_document_count_def index_repr_dom) (simp add: index_repr_def index_shape_def)

lemma index_repr_df [index_simps]:
  assumes "index_repr ix M"
  shows "index_document_frequency ix t = int (card {d. \<exists>toks. M d = Some toks \<and> t \<in> set toks})"
proof -
  have "dom (map_of (index_posting_map ix t)) = {d. \<exists>toks. M d = Some toks \<and> t \<in> set toks}"
    using assms by (auto simp: index_repr_posting corpus_posting_def split: option.splits if_splits)
  then show ?thesis
    using dict_length [OF posting_map_ok [OF index_repr_shape [OF assms]]]
    by (simp add: index_document_frequency_def)
qed

section \<open>Adding and removing a document\<close>

lemma map_of_fold_dset:
  "map_of (fold (\<lambda>t d. AList.update t (g t) d) ts d0) t =
   (if t \<in> set ts then Some (g t) else map_of d0 t)"
  by (induction ts arbitrary: d0) (auto simp: dict_simps)

lemma dict_ok_fold_dset [simp]:
  "dict_ok d0 \<Longrightarrow> dict_ok (fold (\<lambda>t d. AList.update t (g t d) d) ts d0)"
  by (induction ts arbitrary: d0) auto

lemma map_of_counter_aux:
  "map_of (fold (\<lambda>t d. AList.update t (dget_or d t 0 + 1) d) ts d0) t =
   (if t \<in> set ts then Some (dget_or d0 t 0 + int (count_list ts t)) else map_of d0 t)"
  by (induction ts arbitrary: d0) (auto simp: dict_simps dget_or_def)

lemma map_of_counter: "map_of (counter ts) t = (if t \<in> set ts then Some (int (count_list ts t)) else None)"
  unfolding counter_def map_of_counter_aux by (simp add: dget_or_def)

lemma dict_ok_counter [simp]: "dict_ok (counter ts)"
  by (simp add: counter_def)

lemma set_dkeys_counter [simp]: "set (dkeys (counter ts)) = set ts"
  by (auto simp: set_dkeys_dom map_of_counter simp del: set_map split: if_splits)

lemma map_of_set_postings:
  "distinct (map fst fs) \<Longrightarrow>
   map_of (fold (\<lambda>(t, f). set_posting d t f) fs ps) t =
   (case map_of fs t of None \<Rightarrow> map_of ps t | Some f \<Rightarrow> Some (AList.update d f (dget_or ps t [])))"
proof (induction fs arbitrary: ps)
  case (Cons tf fs)
  obtain t' f where tf: "tf = (t', f)" by (cases tf)
  then have "map_of fs t' = None" using Cons.prems by (simp add: map_of_eq_None_iff)
  with Cons tf show ?case
    by (auto simp: set_posting_def dict_simps dget_or_def split: option.splits)
qed simp

lemma dict_ok_set_postings:
  "dict_ok ps \<Longrightarrow> dict_ok (fold (\<lambda>(t, f). set_posting d t f) fs ps)"
  by (induction fs arbitrary: ps) (simp_all add: set_posting_def case_prod_beta)

lemma sum_snd_dset:
  "k \<notin> set (dkeys d) \<Longrightarrow> sum_list (map snd (AList.update k v d)) = sum_list (map snd d) + (v :: int)"
  by (induction d) auto

lemma sum_snd_ddel:
  "dict_ok d \<Longrightarrow> map_of d k = Some v \<Longrightarrow> sum_list (map snd (AList.delete k d)) = sum_list (map snd d) - (v :: int)"
proof (induction d)
  case (Cons a d)
  then show ?case by (cases "fst a = k") (auto simp: map_of_eq_None_iff)
qed simp

text \<open>\<open>ix'\<close> is \<open>ix\<close> without the postings of the terms \<open>T\<close> for the document \<open>d\<close>.\<close>

definition postings_nonempty :: "inverted_index \<Rightarrow> bool" where
  "postings_nonempty ix \<longleftrightarrow> (\<forall>t m. map_of (ix_postings ix) t = Some m \<longrightarrow> m \<noteq> [])"

definition postings_removed :: "inverted_index \<Rightarrow> pystr \<Rightarrow> pystr set \<Rightarrow> inverted_index \<Rightarrow> bool" where
  "postings_removed ix d T ix' \<longleftrightarrow>
     index_shape ix' \<and> ix_document_terms ix' = ix_document_terms ix
     \<and> ix_document_lengths ix' = ix_document_lengths ix \<and> ix_total_length ix' = ix_total_length ix
     \<and> (\<forall>t' d'. posting_of ix' t' d' = (if t' \<in> T \<and> d' = d then None else posting_of ix t' d'))
     \<and> (postings_nonempty ix \<longrightarrow> postings_nonempty ix')"

lemma postings_removed_refl: "index_shape ix \<Longrightarrow> postings_removed ix d {} ix"
  by (simp add: postings_removed_def)

lemma postings_removed_posting:
  "postings_removed ix d T ix' \<Longrightarrow>
   posting_of ix' t' d' = (if t' \<in> T \<and> d' = d then None else posting_of ix t' d')"
  unfolding postings_removed_def by blast

lemma postings_removed_trans:
  assumes "postings_removed ix d S ix1" and "postings_removed ix1 d T ix2"
  shows "postings_removed ix d (S \<union> T) ix2"
proof -
  have "posting_of ix2 t' d' = (if t' \<in> S \<union> T \<and> d' = d then None else posting_of ix t' d')" for t' d'
    using postings_removed_posting [OF assms(1), of t' d'] postings_removed_posting [OF assms(2), of t' d']
    by (auto split: if_splits)
  with assms show ?thesis unfolding postings_removed_def by metis
qed

lemma remove_posting_removes:
  assumes "posting_of ix t d \<noteq> None" and "index_shape ix"
  shows "\<exists>ix'. remove_posting d t ix = (Inr (), ix') \<and> postings_removed ix d {t} ix'"
proof -
  from assms(1) obtain m f where m: "map_of (ix_postings ix) t = Some m" and f: "map_of m d = Some f"
    by (auto simp: posting_of_def index_posting_map_def dget_or_def split: option.splits)
  define ps where "ps = (if AList.delete d m = [] then AList.delete t (ix_postings ix)
     else AList.update t (AList.delete d m) (ix_postings ix))"
  have step: "remove_posting d t ix = (Inr (), ix\<lparr>ix_postings := ps\<rparr>)"
    by (simp add: remove_posting_def m f ps_def Let_def)
  have lookup: "map_of ps = (map_of (ix_postings ix))
      (t := if AList.delete d m = [] then None else Some (AList.delete d m))"
    by (simp add: ps_def dict_simps)
  have m': "map_of (AList.delete d m) d' = (if d' = d then None else map_of m d')" for d'
    by (simp add: dict_simps)
  have "dget_or ps t [] = AList.delete d m"
    by (cases "AList.delete d m = []") (simp_all add: dget_or_def lookup)
  moreover have "dget_or ps t' [] = dget_or (ix_postings ix) t' []" if "t' \<noteq> t" for t'
    using that by (simp add: dget_or_def lookup)
  moreover have "dget_or (ix_postings ix) t [] = m" using m by (simp add: dget_or_def)
  ultimately have "posting_of (ix\<lparr>ix_postings := ps\<rparr>) t' d' =
      (if t' \<in> {t} \<and> d' = d then None else posting_of ix t' d')" for t' d'
    using m' by (cases "t' = t") (simp_all add: posting_of_def index_posting_map_def)
  moreover have "dict_ok ps" using assms(2) by (simp add: ps_def index_shape_def)
  then have "index_shape (ix\<lparr>ix_postings := ps\<rparr>)"
    using assms(2) m by (auto simp: index_shape_def lookup split: if_splits)
  moreover have "postings_nonempty ix \<longrightarrow> postings_nonempty (ix\<lparr>ix_postings := ps\<rparr>)"
    by (auto simp: postings_nonempty_def lookup split: if_splits)
  ultimately show ?thesis by (simp add: step postings_removed_def)
qed

lemma remove_postings_loop:
  assumes "index_shape ix" and "distinct ts" and "\<forall>t\<in>set ts. posting_of ix t d \<noteq> None"
  shows "\<exists>ix'. sfold (remove_posting d) ts ix = (Inr (), ix') \<and> postings_removed ix d (set ts) ix'"
  using assms
proof (induction ts arbitrary: ix)
  case Nil
  then show ?case by (simp add: postings_removed_refl)
next
  case (Cons t ts)
  then obtain ix1 where ix1: "remove_posting d t ix = (Inr (), ix1)" "postings_removed ix d {t} ix1"
    using remove_posting_removes [of ix t d] by auto
  then have "index_shape ix1" "\<forall>t\<in>set ts. posting_of ix1 t d \<noteq> None"
    using Cons.prems by (auto simp: postings_removed_def)
  then obtain ix2 where "sfold (remove_posting d) ts ix1 = (Inr (), ix2)" "postings_removed ix1 d (set ts) ix2"
    using Cons.IH Cons.prems(2) by fastforce
  with ix1 show ?case using postings_removed_trans [OF ix1(2)] by (simp add: sbind_def)
qed

lemma remove_ok_repr:
  assumes r: "index_repr ix M" and d: "M d = Some toks"
  shows "\<exists>ix'. index_remove_document d ix = (Inr (), ix') \<and> index_repr ix' (M(d := None))"
proof -
  have shape: "index_shape ix" using r by (rule index_repr_shape)
  have len: "map_of (ix_document_lengths ix) d = Some (int (length toks))"
    using r d by (simp add: index_repr_length)
  have "map_option set (map_of (ix_document_terms ix) d) = Some (set toks)"
    using r d by (simp add: index_repr_def)
  then obtain ts where ts: "map_of (ix_document_terms ix) d = Some ts" "set ts = set toks"
    by auto
  define ix0 where "ix0 = ix\<lparr>ix_document_terms := AList.delete d (ix_document_terms ix)\<rparr>"
  have shape0: "index_shape ix0" using shape by (auto simp: index_shape_def ix0_def dict_simps split: if_splits)
  have post0: "posting_of ix0 = posting_of ix"
    by (simp add: fun_eq_iff posting_of_def index_posting_map_def ix0_def)
  have post: "posting_of ix t d' = corpus_posting M t d'" for t d'
    using r by (simp add: index_repr_def)
  have "\<forall>t\<in>set ts. posting_of ix0 t d \<noteq> None" using ts(2) d by (simp add: post0 post corpus_posting_def)
  moreover have "distinct ts" using shape ts by (auto simp: index_shape_def)
  ultimately obtain ix1 where loop: "sfold (remove_posting d) ts ix0 = (Inr (), ix1)"
      and rem: "postings_removed ix0 d (set ts) ix1"
    using remove_postings_loop [OF shape0] by blast
  define ix2 where "ix2 = ix1\<lparr>ix_document_lengths := AList.delete d (ix_document_lengths ix1),
      ix_total_length := ix_total_length ix1 - int (length toks)\<rparr>"
  have step: "index_remove_document d ix = (Inr (), ix2)"
    using loop by (simp add: index_remove_document_def len ts(1) sbind_def ix0_def ix2_def)
  have same: "ix_document_terms ix1 = ix_document_terms ix0" "ix_document_lengths ix1 = ix_document_lengths ix"
      "ix_total_length ix1 = ix_total_length ix" and shape1: "index_shape ix1"
    using rem by (simp_all add: postings_removed_def ix0_def)
  have "posting_of ix2 t d' = corpus_posting (M(d := None)) t d'" for t d'
  proof -
    have "posting_of ix2 t d' = posting_of ix1 t d'"
      by (simp add: posting_of_def index_posting_map_def ix2_def)
    also have "\<dots> = (if t \<in> set ts \<and> d' = d then None else corpus_posting M t d')"
      using rem by (simp add: postings_removed_def post0 post)
    also have "\<dots> = corpus_posting (M(d := None)) t d'"
      using ts(2) d by (simp add: corpus_posting_def)
    finally show ?thesis .
  qed
  moreover have "postings_nonempty ix2"
    using rem r by (auto simp: postings_removed_def postings_nonempty_def index_repr_def ix0_def ix2_def)
  moreover have "index_shape ix2"
    using shape1 by (auto simp: index_shape_def ix2_def)
  moreover have "map_of (ix_document_lengths ix2) = (\<lambda>d'. map_option (\<lambda>toks. int (length toks)) ((M(d := None)) d'))"
    using r by (simp add: fun_eq_iff ix2_def same dict_simps index_repr_length)
  moreover have "map_option set (map_of (ix_document_terms ix2) d') = map_option set ((M(d := None)) d')" for d'
    using r by (simp add: ix2_def same ix0_def dict_simps index_repr_def)
  moreover have "ix_total_length ix2 = sum_list (map snd (ix_document_lengths ix2))"
    using r sum_snd_ddel [OF _ len] shape by (simp add: ix2_def same index_shape_def index_repr_def)
  ultimately have "index_repr ix2 (M(d := None))"
    by (simp only: index_repr_def postings_nonempty_def) blast
  with step show ?thesis by blast
qed

lemma add_fresh_repr:
  assumes r: "index_repr ix M" and d: "M d = None"
  shows "\<exists>ix'. index_add_document d toks ix = (Inr (), ix') \<and> index_repr ix' (M(d \<mapsto> toks))"
proof -
  have shape: "index_shape ix" using r by (rule index_repr_shape)
  have len: "map_of (ix_document_lengths ix) d = None"
    using r d by (simp add: index_repr_length)
  define ps where "ps = fold (\<lambda>(t, f). set_posting d t f) (counter toks) (ix_postings ix)"
  define ix' where "ix' = ix\<lparr>ix_postings := ps,
      ix_document_terms := AList.update d (dkeys (counter toks)) (ix_document_terms ix),
      ix_document_lengths := AList.update d (int (length toks)) (ix_document_lengths ix),
      ix_total_length := ix_total_length ix + int (length toks)\<rparr>"
  have step: "index_add_document d toks ix = (Inr (), ix')"
    by (simp add: index_add_document_def len sbind_def Let_def ix'_def ps_def)
  have lookup: "map_of ps t = (if t \<in> set toks
      then Some (AList.update d (int (count_list toks t)) (index_posting_map ix t))
      else map_of (ix_postings ix) t)" for t
    unfolding ps_def index_posting_map_def
    by (simp add: map_of_set_postings map_of_counter)
  have "index_posting_map ix' t = (if t \<in> set toks
      then AList.update d (int (count_list toks t)) (index_posting_map ix t)
      else index_posting_map ix t)" for t
    by (cases "t \<in> set toks") (simp_all add: index_posting_map_def dget_or_def lookup ix'_def)
  then have post: "posting_of ix' t d' = corpus_posting (M(d \<mapsto> toks)) t d'" for t d'
    using r d by (simp add: posting_of_def dict_simps index_repr_posting corpus_posting_def)
  have "dict_ok ps" using shape by (simp add: ps_def dict_ok_set_postings index_shape_def)
  moreover have "dict_ok m" if m: "map_of ps t = Some m" for t m
  proof (cases "t \<in> set toks")
    case True
    then have "m = AList.update d (int (count_list toks t)) (index_posting_map ix t)"
      using m lookup by simp
    then show ?thesis using posting_map_ok [OF shape, of t] by (simp only: dict_ok_dset)
  next
    case False
    then have "map_of (ix_postings ix) t = Some m" using m lookup by simp
    with shape show ?thesis unfolding index_shape_def by blast
  qed
  ultimately have "index_shape ix'"
    using shape by (auto simp: index_shape_def ix'_def dict_simps split: if_splits)
  moreover have "map_of ps t = Some m \<Longrightarrow> m \<noteq> []" for t m
    using r by (auto simp: lookup index_repr_def split: if_splits)
  moreover have "map_option set (map_of (ix_document_terms ix') d') = map_option set ((M(d \<mapsto> toks)) d')" for d'
    using r set_dkeys_counter [of toks] by (simp add: ix'_def dict_simps index_repr_def)
  moreover have "map_of (ix_document_lengths ix') =
      (\<lambda>d'. map_option (\<lambda>toks. int (length toks)) ((M(d \<mapsto> toks)) d'))"
    using r by (simp add: fun_eq_iff ix'_def dict_simps index_repr_length)
  moreover have "ix_total_length ix' = sum_list (map snd (ix_document_lengths ix'))"
  proof -
    have "d \<notin> set (dkeys (ix_document_lengths ix))" using len dhas_iff by metis
    from sum_snd_dset [OF this] r show ?thesis by (simp add: ix'_def index_repr_def)
  qed
  ultimately have "index_repr ix' (M(d \<mapsto> toks))"
    using post by (simp only: index_repr_def) (simp add: ix'_def)
  with step show ?thesis by blast
qed

lemma add_ok_repr:
  assumes r: "index_repr ix M"
  shows "\<exists>ix'. index_add_document d toks ix = (Inr (), ix') \<and> index_repr ix' (M(d \<mapsto> toks))"
proof (cases "M d")
  case None
  with add_fresh_repr [OF r] show ?thesis by blast
next
  case (Some old)
  then obtain ix1 where rm: "index_remove_document d ix = (Inr (), ix1)" "index_repr ix1 (M(d := None))"
    using remove_ok_repr [OF r] by blast
  have has: "dhas (ix_document_lengths ix) d" using r Some by (simp add: index_repr_length)
  have no: "\<not> dhas (ix_document_lengths ix1) d" using rm(2) by (simp add: index_repr_length)
  have "index_add_document d toks ix = index_add_document d toks ix1"
    using has no rm(1) by (simp add: index_add_document_def sbind_def)
  with add_fresh_repr [OF rm(2), of d toks] show ?thesis by simp
qed

lemma add_snd_repr: "index_repr ix M \<Longrightarrow> index_repr (snd (index_add_document d toks ix)) (M(d \<mapsto> toks))"
  by (metis add_ok_repr snd_conv)

lemma index_empty_repr: "index_repr index_empty Map.empty"
  by (simp add: index_repr_def index_shape_def index_empty_def posting_of_def index_posting_map_def
      dget_or_def corpus_posting_def)

text \<open>The inverted index is one of the engine's derived structures.\<close>

interpretation lexical: derived_structure index_repr index_empty "\<lambda>_. True" "\<lambda>toks. toks"
  index_add_document index_remove_document
  using index_empty_repr add_ok_repr remove_ok_repr by unfold_locales blast+

section \<open>What validation accepts\<close>

lemma index_validate_iff:
  "index_validate ix = Inr () \<longleftrightarrow>
     set (dkeys (ix_document_terms ix)) = set (dkeys (ix_document_lengths ix))
     \<and> ix_total_length ix = sum_list (map snd (ix_document_lengths ix))
     \<and> (\<forall>(d, len)\<in>set (ix_document_lengths ix). 0 \<le> len)
     \<and> (\<forall>(t, ps)\<in>set (ix_postings ix). ps \<noteq> [] \<and> (\<forall>p\<in>set ps. validate_posting ix t p = Inr ()))
     \<and> (\<forall>p\<in>set (ix_document_terms ix). validate_document ix p = Inr ())"
proof -
  have "validate_term ix p = Inr () \<longleftrightarrow>
      (case p of (t, ps) \<Rightarrow> ps \<noteq> [] \<and> (\<forall>p\<in>set ps. validate_posting ix t p = Inr ()))" for p
    by (cases p) (simp add: validate_term_def efold_unit_iff)
  then have "efold (\<lambda>p _. validate_term ix p) (ix_postings ix) () = Inr () \<longleftrightarrow>
      (\<forall>(t, ps)\<in>set (ix_postings ix). ps \<noteq> [] \<and> (\<forall>p\<in>set ps. validate_posting ix t p = Inr ()))"
    by (simp only: efold_unit_iff)
  moreover have "list_ex (\<lambda>(d, len). len < 0) (ix_document_lengths ix) \<longleftrightarrow>
      \<not> (\<forall>(d, len)\<in>set (ix_document_lengths ix). 0 \<le> len)"
    by (auto simp: list_ex_iff not_le split: prod.splits)
  ultimately show ?thesis
    by (simp add: index_validate_def ebind_Inr_iff efold_unit_iff)
qed

lemma index_repr_terms:
  "index_repr ix M \<Longrightarrow> map_option set (map_of (ix_document_terms ix) d) = map_option set (M d)"
  by (simp add: index_repr_def)

lemma repr_validates_posting:
  assumes r: "index_repr ix M" and ps: "map_of (ix_postings ix) t = Some ps" "(d, f) \<in> set ps"
  shows "validate_posting ix t (d, f) = Inr ()"
proof -
  have "index_posting_map ix t = ps" using ps(1) by (simp add: index_posting_map_def dget_or_def)
  then have "corpus_posting M t d = Some f"
    using ps(2) index_repr_posting [OF r, of t d] posting_map_ok [OF index_repr_shape [OF r], of t] by (metis dict_in_set)
  then obtain toks where toks: "M d = Some toks" "t \<in> set toks" "f = int (count_list toks t)"
    by (auto simp: corpus_posting_def split: option.splits if_splits)
  then obtain ts where "map_of (ix_document_terms ix) d = Some ts" "set ts = set toks"
    using index_repr_terms [OF r, of d] by auto
  moreover have "1 \<le> f" using toks by (simp add: Suc_le_eq count_list_0_iff flip: neq0_conv)
  ultimately show ?thesis
    using toks by (simp add: validate_posting_def index_repr_length [OF r] dget_item_def)
qed

lemma repr_validates_document:
  assumes r: "index_repr ix M" and ts: "map_of (ix_document_terms ix) d = Some ts"
  shows "validate_document ix (d, ts) = Inr ()"
proof -
  note post = index_repr_posting [OF r]
  from ts index_repr_terms [OF r, of d] obtain toks where toks: "M d = Some toks" "set ts = set toks"
    by (cases "M d") auto
  have "distinct ts" using index_shapeD(4) [OF index_repr_shape [OF r] ts] .
  have "sum_list (map (\<lambda>t. the (map_of (index_posting_map ix t) d)) ts) =
      sum_list (map (\<lambda>t. int (count_list toks t)) ts)"
    using toks by (intro arg_cong [where f = sum_list] map_cong) (auto simp: post corpus_posting_def)
  also have "\<dots> = int (\<Sum>t \<in> set toks. count_list toks t)"
    using \<open>distinct ts\<close> toks(2) by (simp add: sum_list_distinct_conv_sum_set)
  also have "\<dots> = int (length toks)" by (simp add: sum_count_set)
  finally show ?thesis
    using toks by (auto simp: validate_document_def efold_sum_iff ebind_Inr_iff post corpus_posting_def
        index_repr_length [OF r] dget_item_def)
qed

lemma repr_validates:
  assumes r: "index_repr ix M"
  shows "index_validate ix = Inr ()"
proof -
  have shape: "index_shape ix" using r by (rule index_repr_shape)
  have "map_of (ix_document_terms ix) d = None \<longleftrightarrow> M d = None" for d
    using index_repr_terms [OF r, of d] by (metis map_option_is_None)
  then have "dom (map_of (ix_document_terms ix)) = dom M" by (simp only: dom_def)
  then have keys: "set (dkeys (ix_document_terms ix)) = set (dkeys (ix_document_lengths ix))"
    by (simp only: set_dkeys_dom index_repr_dom [OF r])
  have "0 \<le> len" if "(d, len) \<in> set (ix_document_lengths ix)" for d len
  proof -
    have "map_of (ix_document_lengths ix) d = Some len"
      using that dict_in_set [OF index_shapeD(3) [OF shape]] by blast
    then show ?thesis by (auto simp: index_repr_length [OF r])
  qed
  moreover have "map_of (ix_postings ix) t \<noteq> Some []" for t
    using r unfolding index_repr_def by blast
  moreover have "ix_total_length ix = sum_list (map snd (ix_document_lengths ix))"
    using r unfolding index_repr_def by blast
  ultimately show ?thesis unfolding index_validate_iff using keys repr_validates_posting [OF r] repr_validates_document [OF r]
    by (auto simp: dict_in_set [OF index_shapeD(1) [OF shape]] dict_in_set [OF index_shapeD(2) [OF shape]]
        simp del: set_map)
qed

text \<open>A corpus an accepted index stands for: each term of a document repeated as its posting says.\<close>

definition index_corpus :: "inverted_index \<Rightarrow> pystr \<rightharpoonup> pystr list" where
  "index_corpus ix d = map_option
     (\<lambda>ts. concat (map (\<lambda>t. replicate (nat (the (posting_of ix t d))) t) ts))
     (map_of (ix_document_terms ix) d)"

lemma count_list_blocks:
  "distinct ts \<Longrightarrow> count_list (concat (map (\<lambda>t. replicate (n t) t) ts)) t = (if t \<in> set ts then n t else 0)"
proof (induction ts)
  case (Cons a ts)
  have "count_list (replicate m b) t = (if b = t then m else 0)" for m and b :: 'a
    by (induction m) auto
  with Cons show ?case by auto
qed simp

lemma validated_posting:
  assumes "index_validate ix = Inr ()" "posting_of ix t d = Some f"
  shows "1 \<le> f \<and> (\<exists>ts. map_of (ix_document_terms ix) d = Some ts \<and> t \<in> set ts)"
proof -
  have ps: "\<forall>(t, m)\<in>set (ix_postings ix). m \<noteq> [] \<and> (\<forall>p\<in>set m. validate_posting ix t p = Inr ())"
    using assms(1) unfolding index_validate_iff by blast
  from assms(2) obtain m where m: "map_of (ix_postings ix) t = Some m" "map_of m d = Some f"
    by (auto simp: posting_of_def index_posting_map_def dget_or_def split: option.splits)
  then have "validate_posting ix t (d, f) = Inr ()" using ps by (blast dest: map_of_SomeD)
  then show ?thesis by (auto simp: validate_posting_def dget_item_def split: if_splits option.splits)
qed

lemma validated_document:
  assumes "index_validate ix = Inr ()" "map_of (ix_document_terms ix) d = Some ts"
  shows "(\<forall>t\<in>set ts. posting_of ix t d \<noteq> None) \<and>
    map_of (ix_document_lengths ix) d = Some (sum_list (map (\<lambda>t. the (posting_of ix t d)) ts))"
proof -
  have "\<forall>p\<in>set (ix_document_terms ix). validate_document ix p = Inr ()" using assms(1) unfolding index_validate_iff by blast
  with map_of_SomeD [OF assms(2)] show ?thesis
    by (fastforce simp: validate_document_def efold_sum_iff ebind_Inr_iff dget_item_def posting_of_def split: if_splits option.splits)
qed

lemma positive_sums:
  "\<forall>t\<in>set us. 1 \<le> g t \<Longrightarrow> 0 \<le> sum_list (map g us) \<and> sum_list (map (\<lambda>t. nat (g t)) us) = nat (sum_list (map g us))"
  for g :: "'a \<Rightarrow> int"
  by (induction us) (auto simp: nat_add_distrib)

lemma index_corpus_tokens:
  assumes shape: "index_shape ix" and ok: "index_validate ix = Inr ()" and ts: "map_of (ix_document_terms ix) d = Some ts"
    and toks: "index_corpus ix d = Some toks"
  shows "int (length toks) = sum_list (map (\<lambda>t. the (posting_of ix t d)) ts)" "set toks = set ts"
    "\<forall>t\<in>set ts. int (count_list toks t) = the (posting_of ix t d)"
proof -
  have toks: "toks = concat (map (\<lambda>t. replicate (nat (the (posting_of ix t d))) t) ts)" using toks ts by (simp add: index_corpus_def)
  have f: "1 \<le> the (posting_of ix t d)" if "t \<in> set ts" for t
    using that validated_document [OF ok ts] validated_posting [OF ok, of t d] by force
  show "int (length toks) = sum_list (map (\<lambda>t. the (posting_of ix t d)) ts)"
    using positive_sums [of ts "\<lambda>t. the (posting_of ix t d)"] f by (simp add: toks length_concat comp_def)
  show "set toks = set ts" using f by (force simp: toks)
  show "\<forall>t\<in>set ts. int (count_list toks t) = the (posting_of ix t d)"
    using f count_list_blocks [OF index_shapeD(4) [OF shape ts]] by (fastforce simp: toks)
qed

lemma validates_repr:
  assumes shape: "index_shape ix" and ok: "index_validate ix = Inr ()"
  shows "index_repr ix (index_corpus ix)"
proof -
  from ok have keys: "set (dkeys (ix_document_terms ix)) = set (dkeys (ix_document_lengths ix))"
    and total: "ix_total_length ix = sum_list (map snd (ix_document_lengths ix))"
    and ps: "\<forall>(t, m)\<in>set (ix_postings ix). m \<noteq> [] \<and> (\<forall>p\<in>set m. validate_posting ix t p = Inr ())"
    unfolding index_validate_iff by blast+
  have nodoc: "map_of (ix_document_lengths ix) d = None" "index_corpus ix d = None" if "map_of (ix_document_terms ix) d = None" for d
    using that keys by (metis dhas_iff) (simp add: index_corpus_def that)
  have isdoc: "\<exists>toks. index_corpus ix d = Some toks" if "map_of (ix_document_terms ix) d = Some ts" for d ts
    using that by (simp add: index_corpus_def)
  note doc = validated_document [OF ok] and tokens = index_corpus_tokens [OF shape ok]
  have "map_of (ix_document_lengths ix) d = map_option (\<lambda>toks. int (length toks)) (index_corpus ix d)" for d
    using doc [of d] nodoc [of d] tokens(1) [of d] isdoc [of d] by (cases "map_of (ix_document_terms ix) d") auto
  moreover have "map_option set (map_of (ix_document_terms ix) d) = map_option set (index_corpus ix d)" for d
    using nodoc [of d] tokens(2) [of d] isdoc [of d] by (cases "map_of (ix_document_terms ix) d") auto
  moreover have "posting_of ix t d = corpus_posting (index_corpus ix) t d" for t d
  proof (cases "map_of (ix_document_terms ix) d")
    case None
    then show ?thesis using validated_posting [OF ok, of t d] nodoc(2) [OF None]
      by (cases "posting_of ix t d") (auto simp: corpus_posting_def)
  next
    case (Some ts)
    from isdoc [OF Some] obtain toks where toks: "index_corpus ix d = Some toks" by blast
    then show ?thesis using validated_posting [OF ok, of t d] doc [OF Some] tokens(2,3) [OF Some toks] Some
      by (cases "posting_of ix t d") (auto simp: corpus_posting_def)
  qed
  moreover have "m \<noteq> []" if "map_of (ix_postings ix) t = Some m" for t m
    using ps map_of_SomeD [OF that] by auto
  ultimately show ?thesis
    using shape total by (simp add: index_repr_def fun_eq_iff)
qed

section \<open>Merging statistics\<close>

lemma dget_or_merge_frequencies:
  "dict_ok part \<Longrightarrow> dget_or (merge_frequencies part acc) t 0 = dget_or acc t 0 + dget_or part t 0"
proof (induction part arbitrary: acc)
  case Nil
  then show ?case by (simp add: merge_frequencies_def dget_or_def)
next
  case (Cons p part)
  obtain t' f where p: "p = (t', f)" by (cases p)
  have "map_of part t' = None" using Cons.prems p by (simp add: map_of_eq_None_iff)
  moreover have "merge_frequencies (p # part) acc =
      merge_frequencies part (AList.update t' (dget_or acc t' 0 + f) acc)"
    by (simp add: merge_frequencies_def p)
  ultimately show ?case using Cons p by (auto simp: dget_or_def dict_simps)
qed

lemma merge_corpus_stats_sums:
  assumes "\<forall>p\<in>set parts. dict_ok (cs_document_frequencies p)"
  shows "cs_document_count (merge_corpus_stats parts) = sum_list (map cs_document_count parts)"
    and "cs_total_document_length (merge_corpus_stats parts) = sum_list (map cs_total_document_length parts)"
    and "cs_document_frequency (merge_corpus_stats parts) t = sum_list (map (\<lambda>p. cs_document_frequency p t) parts)"
proof -
  let ?f = "\<lambda>part acc. \<lparr>cs_document_count = cs_document_count acc + cs_document_count part,
          cs_total_document_length = cs_total_document_length acc + cs_total_document_length part,
          cs_document_frequencies =
            merge_frequencies (cs_document_frequencies part) (cs_document_frequencies acc)\<rparr>"
  have "cs_document_count (fold ?f parts a) = cs_document_count a + sum_list (map cs_document_count parts)
      \<and> cs_total_document_length (fold ?f parts a) =
          cs_total_document_length a + sum_list (map cs_total_document_length parts)
      \<and> cs_document_frequency (fold ?f parts a) t =
          cs_document_frequency a t + sum_list (map (\<lambda>p. cs_document_frequency p t) parts)" for a
    using assms
    by (induction parts arbitrary: a) (auto simp: cs_document_frequency_def dget_or_merge_frequencies)
  then show "cs_document_count (merge_corpus_stats parts) = sum_list (map cs_document_count parts)"
    and "cs_total_document_length (merge_corpus_stats parts) = sum_list (map cs_total_document_length parts)"
    and "cs_document_frequency (merge_corpus_stats parts) t = sum_list (map (\<lambda>p. cs_document_frequency p t) parts)"
    by (simp_all add: merge_corpus_stats_def cs_document_frequency_def dget_or_def)
qed

lemma index_corpus_stats_simps:
  "cs_document_count (index_corpus_stats ix terms) = index_document_count ix"
  "cs_total_document_length (index_corpus_stats ix terms) = ix_total_length ix"
  "dict_ok (cs_document_frequencies (index_corpus_stats ix terms))"
  "cs_document_frequency (index_corpus_stats ix terms) t =
     (if t \<in> set terms then index_document_frequency ix t else 0)"
  by (simp_all add: index_corpus_stats_def cs_document_frequency_def dget_or_def map_of_fold_dset)

text \<open>The corpus of a list of shards, each document on one of them.\<close>

definition union_corpus :: "(pystr \<rightharpoonup> 'a) list \<Rightarrow> (pystr \<rightharpoonup> 'a)" where
  "union_corpus Ms = foldr (++) Ms Map.empty"

fun disjoint_corpora :: "(pystr \<rightharpoonup> 'a) list \<Rightarrow> bool" where
  "disjoint_corpora [] \<longleftrightarrow> True"
| "disjoint_corpora (M # Ms) \<longleftrightarrow> dom M \<inter> dom (union_corpus Ms) = {} \<and> disjoint_corpora Ms"

lemma union_corpus_simps [simp]:
  "union_corpus [] = Map.empty" "union_corpus (M # Ms) = M ++ union_corpus Ms"
  by (simp_all add: union_corpus_def)

lemma dom_union_corpus: "dom (union_corpus Ms) = (\<Union>M \<in> set Ms. dom M)"
  by (induction Ms) auto

lemma union_corpus_lookup:
  "disjoint_corpora Ms \<Longrightarrow> M \<in> set Ms \<Longrightarrow> M d = Some v \<Longrightarrow> union_corpus Ms d = Some v"
proof (induction Ms)
  case (Cons N Ms)
  show ?case
  proof (cases "M = N")
    case True
    then have "union_corpus Ms d = None" using Cons.prems by auto
    with True Cons.prems show ?thesis by (simp add: map_add_def)
  next
    case False
    with Cons show ?thesis by (simp add: map_add_def)
  qed
qed simp

lemma union_corpus_SomeD: "union_corpus Ms d = Some v \<Longrightarrow> \<exists>M\<in>set Ms. M d = Some v"
  by (induction Ms) (auto simp: map_add_def split: option.splits)

lemma sum_shards:
  assumes "disjoint_corpora Ms" "\<forall>M\<in>set Ms. finite (dom M)"
  shows "sum_list (map (\<lambda>M. \<Sum>d \<in> {d \<in> dom M. P (the (M d))}. h (the (M d))) Ms) =
    (\<Sum>d \<in> {d \<in> dom (union_corpus Ms). P (the (union_corpus Ms d))}. h (the (union_corpus Ms d)) :: int)"
  using assms
proof (induction Ms)
  case (Cons M Ms)
  let ?U = "union_corpus Ms" and ?V = "M ++ union_corpus Ms"
  have dis: "dom M \<inter> dom ?U = {}" using Cons.prems by simp
  have onM: "?V d = M d" if "d \<in> dom M" for d
    using that dis by (metis disjoint_iff map_add_dom_app_simps(3))
  have onU: "?V d = ?U d" if "d \<in> dom ?U" for d
    using that by (metis map_add_dom_app_simps(1))
  have fin: "finite (dom M)" "finite (dom ?U)" using Cons.prems by (auto simp: dom_union_corpus)
  have "{d \<in> dom ?V. P (the (?V d))} = {d \<in> dom M. P (the (M d))} \<union> {d \<in> dom ?U. P (the (?U d))}"
    using dis by (auto simp: map_add_def split: option.splits)
  then have "(\<Sum>d \<in> {d \<in> dom ?V. P (the (?V d))}. h (the (?V d))) =
      (\<Sum>d \<in> {d \<in> dom M. P (the (M d))}. h (the (?V d))) + (\<Sum>d \<in> {d \<in> dom ?U. P (the (?U d))}. h (the (?V d)))"
    using fin dis by (simp only:) (rule sum.union_disjoint; auto)
  also have "\<dots> = (\<Sum>d \<in> {d \<in> dom M. P (the (M d))}. h (the (M d))) + (\<Sum>d \<in> {d \<in> dom ?U. P (the (?U d))}. h (the (?U d)))"
    using onM onU by (intro arg_cong2 [where f = "(+)"] sum.cong) auto
  finally show ?case using Cons by simp
qed simp

text \<open>Statistics that scoring cannot tell apart.\<close>

definition same_stats :: "corpus_stats \<Rightarrow> corpus_stats \<Rightarrow> bool" where
  "same_stats a b \<longleftrightarrow> cs_document_count a = cs_document_count b
     \<and> cs_total_document_length a = cs_total_document_length b
     \<and> cs_document_frequency a = cs_document_frequency b"

lemma list_all2_map_eq:
  "list_all2 R xs ys \<Longrightarrow> (\<And>x y. R x y \<Longrightarrow> f x = g y) \<Longrightarrow> map f xs = map g ys"
  by (induction rule: list_all2_induct) auto

lemma shard_stats_sum:
  assumes r: "list_all2 index_repr ixs Ms" and dis: "disjoint_corpora Ms"
    and u: "index_repr ix (union_corpus Ms)"
  shows "sum_list (map index_document_count ixs) = index_document_count ix"
    and "sum_list (map ix_total_length ixs) = ix_total_length ix"
    and "sum_list (map (\<lambda>i. index_document_frequency i t) ixs) = index_document_frequency ix t"
proof -
  let ?U = "union_corpus Ms"
  have fin: "\<forall>M\<in>set Ms. finite (dom M)"
    using r by (metis index_repr_finite in_set_conv_nth list_all2_conv_all_nth)
  note sums = sum_shards [OF dis fin]
  have "map index_document_count ixs = map (\<lambda>M. \<Sum>d \<in> {d \<in> dom M. True}. 1) Ms"
    by (rule list_all2_map_eq [OF r]) (simp add: index_repr_count)
  then show "sum_list (map index_document_count ixs) = index_document_count ix"
    using sums [where P = "\<lambda>_. True" and h = "\<lambda>_. 1"] index_repr_count [OF u] by simp
  have "map ix_total_length ixs = map (\<lambda>M. \<Sum>d \<in> {d \<in> dom M. True}. int (length (the (M d)))) Ms"
    by (rule list_all2_map_eq [OF r]) (simp add: index_repr_total)
  then show "sum_list (map ix_total_length ixs) = ix_total_length ix"
    using sums [where P = "\<lambda>_. True" and h = "\<lambda>toks. int (length toks)"] index_repr_total [OF u] by simp
  have df: "index_document_frequency i t = (\<Sum>d \<in> {d \<in> dom M. t \<in> set (the (M d))}. 1)"
    if "index_repr i M" for i M
  proof -
    have "{d. \<exists>toks. M d = Some toks \<and> t \<in> set toks} = {d \<in> dom M. t \<in> set (the (M d))}" by force
    with index_repr_df [OF that, of t] show ?thesis by simp
  qed
  have "map (\<lambda>i. index_document_frequency i t) ixs = map (\<lambda>M. \<Sum>d \<in> {d \<in> dom M. t \<in> set (the (M d))}. 1) Ms"
    by (rule list_all2_map_eq [OF r]) (rule df)
  then show "sum_list (map (\<lambda>i. index_document_frequency i t) ixs) = index_document_frequency ix t"
    using sums [where P = "\<lambda>toks. t \<in> set toks" and h = "\<lambda>_. 1"] df [OF u] by simp
qed

section \<open>Properties\<close>

text \<open>C22. Adding a document to an index that stands for a corpus never raises and yields an index that
  stands for the corpus with that document's tokens replaced wholesale; removing a present document
  never raises and leaves no trace of it, and removing an absent one raises \<open>KeyError\<close> and changes
  nothing.\<close>

theorem index_mutations_refine:
  assumes "index_repr ix M"
  shows "(\<exists>ix'. index_add_document d toks ix = (Inr (), ix') \<and> index_repr ix' (M(d \<mapsto> toks)))
    \<and> (if M d = None then index_remove_document d ix = (Inl KeyError, ix)
       else \<exists>ix'. index_remove_document d ix = (Inr (), ix') \<and> index_repr ix' (M(d := None)))"
proof (cases "M d")
  case None
  then have "index_remove_document d ix = (Inl KeyError, ix)"
    by (simp add: index_remove_document_def index_repr_length [OF assms])
  with None lexical.add_ok [OF assms] show ?thesis by simp
next
  case (Some old)
  with lexical.add_ok [OF assms] lexical.remove_ok [OF assms] show ?thesis by simp
qed

theorem index_mutations_refine_witness:
  "(\<exists>ix'. index_add_document (ustr ''d'') [ustr ''x'', ustr ''x''] index_empty = (Inr (), ix')
      \<and> index_repr ix' [ustr ''d'' \<mapsto> [ustr ''x'', ustr ''x'']])
    \<and> index_remove_document (ustr ''d'') index_empty = (Inl KeyError, index_empty)"
  using index_mutations_refine [OF index_empty_repr, of "ustr ''d''" "[ustr ''x'', ustr ''x'']"] by simp

text \<open>C23. \<open>validate\<close> is exact: among indexes whose dictionaries have no repeated keys it accepts
  precisely those that stand for some corpus, so every inconsistency between postings, term sets,
  lengths and the running total is caught.\<close>

theorem index_validate_exact:
  assumes "index_shape ix"
  shows "index_validate ix = Inr () \<longleftrightarrow> (\<exists>M. index_repr ix M)"
  using repr_validates validates_repr [OF assms] by blast

theorem index_validate_exact_witness:
  "(index_validate index_empty = Inr () \<longleftrightarrow> (\<exists>M. index_repr index_empty M))
   \<and> (index_validate (index_empty\<lparr>ix_total_length := 1\<rparr>) = Inr ()
       \<longleftrightarrow> (\<exists>M. index_repr (index_empty\<lparr>ix_total_length := 1\<rparr>) M))"
proof -
  have "index_shape index_empty" "index_shape (index_empty\<lparr>ix_total_length := 1\<rparr>)"
    by (simp_all add: index_shape_def index_empty_def)
  then show ?thesis using index_validate_exact by blast
qed

text \<open>Summing per-shard statistics is exact: when every document lives on one shard, the merged
  document count, total length and document frequencies are those of one index holding the whole
  corpus.\<close>

lemma merged_stats_exact:
  assumes "list_all2 index_repr ixs Ms" and "disjoint_corpora Ms"
    and "index_repr ix (union_corpus Ms)"
  shows "same_stats (merge_corpus_stats (map (\<lambda>i. index_corpus_stats i terms) ixs))
           (index_corpus_stats ix terms)"
proof -
  let ?parts = "map (\<lambda>i. index_corpus_stats i terms) ixs"
  have parts: "\<forall>p\<in>set ?parts. dict_ok (cs_document_frequencies p)"
    by (simp add: index_corpus_stats_simps)
  note sums = merge_corpus_stats_sums [OF parts] shard_stats_sum [OF assms]
  have "cs_document_frequency (merge_corpus_stats ?parts) t = cs_document_frequency (index_corpus_stats ix terms) t" for t
    using sums(3) [of t] sums(6) [of t] by (simp add: index_corpus_stats_simps comp_def map_replicate_const sum_list_replicate)
  then show ?thesis
    using sums(1,2,4,5) by (simp add: same_stats_def fun_eq_iff index_corpus_stats_simps comp_def)
qed

end
