(* ===== verification/Ranking.thy ===== *)
theory Ranking
  imports Inverted_Index
begin

text \<open>
  \<open>app/search/ranking.py\<close>: BM25. The definitions follow the expressions of the source operation by
  operation over an arbitrary record of float operations, with the exceptions Python raises for a
  zero divisor or a logarithm outside its domain. The locale \<open>bm25_arithmetic\<close> states that these do
  not occur for the quantities an index can produce; exact arithmetic with the default parameters
  is an instance. Inside it, \<open>score_query\<close> is shown to give every document a score that depends only
  on the document's own tokens and on the statistics, accumulated in query order.
\<close>

section \<open>Definitions\<close>

record 'f bm25_params =
  bm_k1 :: 'f
  bm_b :: 'f

definition default_bm25_params :: "'f fops \<Rightarrow> 'f bm25_params" where
  "default_bm25_params fo = \<lparr>bm_k1 = f_rat fo (12 / 10), bm_b = f_rat fo (75 / 100)\<rparr>"

definition inverse_document_frequency :: "'f::linorder fops \<Rightarrow> int \<Rightarrow> int \<Rightarrow> 'f res" where
  "inverse_document_frequency fo document_frequency document_count =
     (let numerator = f_add fo (f_of_int fo (document_count - document_frequency)) (f_rat fo (1 / 2));
          denominator = f_add fo (f_of_int fo document_frequency) (f_rat fo (1 / 2))
      in ebind (f_div fo numerator denominator) (\<lambda>q. f_log fo (f_add fo (f_rat fo 1) q)))"

text \<open>The body of the inner loop up to \<open>contribution\<close>.\<close>

definition bm25_contribution ::
    "'f::linorder fops \<Rightarrow> 'f bm25_params \<Rightarrow> 'f \<Rightarrow> 'f \<Rightarrow> int \<Rightarrow> int \<Rightarrow> 'f res" where
  "bm25_contribution fo params idf average_length document_length term_frequency =
     ebind (f_div fo (f_of_int fo document_length) average_length) (\<lambda>length_ratio.
       let k1 = bm_k1 params; b = bm_b params;
           saturation = f_add fo (f_of_int fo term_frequency)
             (f_mul fo k1 (f_add fo (f_sub fo (f_rat fo 1) b) (f_mul fo b length_ratio)))
       in f_div fo
            (f_mul fo idf (f_mul fo (f_of_int fo term_frequency) (f_add fo k1 (f_rat fo 1))))
            saturation)"

definition score_posting ::
    "'f::linorder fops \<Rightarrow> 'f bm25_params \<Rightarrow> inverted_index \<Rightarrow> 'f \<Rightarrow> 'f \<Rightarrow> pystr \<times> int
       \<Rightarrow> (pystr, 'f) dict \<Rightarrow> (pystr, 'f) dict res" where
  "score_posting fo params ix idf average_length p scores =
     (case p of (d, term_frequency) \<Rightarrow>
        ebind (bm25_contribution fo params idf average_length (index_document_length ix d) term_frequency)
          (\<lambda>contribution. Inr (AList.update d (f_add fo (dget_or scores d (f_rat fo 0)) contribution) scores)))"

definition score_term ::
    "'f::linorder fops \<Rightarrow> 'f bm25_params \<Rightarrow> inverted_index \<Rightarrow> corpus_stats \<Rightarrow> pystr
       \<Rightarrow> (pystr, 'f) dict \<Rightarrow> (pystr, 'f) dict res" where
  "score_term fo params ix stats t scores =
     (let postings = index_posting_map ix t
      in if postings = [] then Inr scores
         else ebind (inverse_document_frequency fo (cs_document_frequency stats t) (cs_document_count stats))
                (\<lambda>idf. efold (score_posting fo params ix idf (cs_average_document_length fo stats)) postings scores))"

definition score_query ::
    "'f::linorder fops \<Rightarrow> 'f bm25_params \<Rightarrow> inverted_index \<Rightarrow> pystr list \<Rightarrow> corpus_stats option
       \<Rightarrow> (pystr, 'f) dict res" where
  "score_query fo params ix terms given =
     (let stats = (case given of Some s \<Rightarrow> s | None \<Rightarrow> index_corpus_stats ix terms)
      in if cs_document_count stats = 0 \<or> cs_average_document_length fo stats = f_rat fo 0 then Inr []
         else efold (score_term fo params ix stats) terms [])"

section \<open>The specification of a document's score\<close>

definition term_contribution ::
    "'f::linorder fops \<Rightarrow> 'f bm25_params \<Rightarrow> corpus_stats \<Rightarrow> pystr \<Rightarrow> pystr list \<Rightarrow> 'f res" where
  "term_contribution fo params stats t toks =
     ebind (inverse_document_frequency fo (cs_document_frequency stats t) (cs_document_count stats))
       (\<lambda>idf. bm25_contribution fo params idf (cs_average_document_length fo stats)
          (int (length toks)) (int (count_list toks t)))"

text \<open>The score of one document: the contributions of the query terms it contains, added up from
  the left in query order; \<open>None\<close> if it contains none of them.\<close>

fun doc_score_from ::
    "'f::linorder fops \<Rightarrow> 'f bm25_params \<Rightarrow> corpus_stats \<Rightarrow> pystr list \<Rightarrow> pystr list \<Rightarrow> 'f option \<Rightarrow> 'f option" where
  "doc_score_from fo params stats [] toks acc = acc"
| "doc_score_from fo params stats (t # terms) toks acc =
     doc_score_from fo params stats terms toks
       (if t \<in> set toks
        then (case term_contribution fo params stats t toks of
                Inl e \<Rightarrow> acc
              | Inr c \<Rightarrow> Some (f_add fo (case acc of None \<Rightarrow> f_rat fo 0 | Some s \<Rightarrow> s) c))
        else acc)"

definition doc_score ::
    "'f::linorder fops \<Rightarrow> 'f bm25_params \<Rightarrow> corpus_stats \<Rightarrow> pystr list \<Rightarrow> pystr list \<Rightarrow> 'f option" where
  "doc_score fo params stats terms toks =
     (if cs_document_count stats = 0 \<or> cs_average_document_length fo stats = f_rat fo 0 then None
      else doc_score_from fo params stats terms toks None)"

lemma same_stats_average:
  "same_stats a b \<Longrightarrow> cs_average_document_length fo a = cs_average_document_length fo b"
  by (simp add: same_stats_def cs_average_document_length_def)

lemma same_stats_contribution:
  "same_stats a b \<Longrightarrow> term_contribution fo params a t toks = term_contribution fo params b t toks"
  using same_stats_average [of a b fo] by (simp add: term_contribution_def same_stats_def)

lemma same_stats_score: "same_stats a b \<Longrightarrow> doc_score fo params a terms toks = doc_score fo params b terms toks"
proof -
  assume s: "same_stats a b"
  have "doc_score_from fo params a terms toks acc = doc_score_from fo params b terms toks acc" for acc
    by (induction terms arbitrary: acc) (simp_all add: same_stats_contribution [OF s])
  then show ?thesis using s same_stats_average [OF s, of fo] by (simp add: doc_score_def same_stats_def)
qed

lemma doc_score_from_Some: "doc_score_from fo params stats terms toks (Some s) \<noteq> None"
  by (induction terms arbitrary: s) (auto split: sum.splits)

section \<open>Arithmetic in which scoring never raises\<close>

text \<open>Statistics of a non-empty corpus: no term is in more documents than there are.\<close>

definition stats_ok :: "corpus_stats \<Rightarrow> bool" where
  "stats_ok stats \<longleftrightarrow> 0 \<le> cs_total_document_length stats
     \<and> (\<forall>t. 0 \<le> cs_document_frequency stats t \<and> cs_document_frequency stats t \<le> cs_document_count stats)"

lemma index_stats_ok:
  assumes "index_repr ix M"
  shows "stats_ok (index_corpus_stats ix terms)"
proof -
  have "{d. \<exists>toks. M d = Some toks \<and> t \<in> set toks} \<subseteq> dom M" for t by auto
  then have "card {d. \<exists>toks. M d = Some toks \<and> t \<in> set toks} \<le> card (dom M)" for t
    using card_mono [OF index_repr_finite [OF assms]] by blast
  then show ?thesis
    by (simp add: stats_ok_def index_corpus_stats_simps index_repr_count [OF assms] index_repr_df [OF assms]
        index_repr_total [OF assms] sum_nonneg)
qed

lemma same_stats_ok: "same_stats a b \<Longrightarrow> stats_ok a = stats_ok b"
  by (simp add: stats_ok_def same_stats_def)

locale bm25_arithmetic =
  fixes fo :: "'f::linorder fops" and params :: "'f bm25_params"
  assumes idf_defined: "0 \<le> df \<Longrightarrow> df \<le> n \<Longrightarrow> \<exists>v. inverse_document_frequency fo df n = Inr v"
    and contribution_defined:
      "1 \<le> n \<Longrightarrow> 0 \<le> tot \<Longrightarrow> f_rat fo (of_int tot / of_int n) \<noteq> f_rat fo 0 \<Longrightarrow> 0 \<le> dl \<Longrightarrow> 1 \<le> tf
       \<Longrightarrow> \<exists>c. bm25_contribution fo params idf (f_rat fo (of_int tot / of_int n)) dl tf = Inr c"
begin

lemma average_contribution:
  assumes "stats_ok stats" "cs_document_count stats \<noteq> 0"
    and "cs_average_document_length fo stats \<noteq> f_rat fo 0" "0 \<le> dl" "1 \<le> tf"
  shows "\<exists>c. bm25_contribution fo params idf (cs_average_document_length fo stats) dl tf = Inr c"
proof -
  have "0 \<le> cs_document_count stats" using assms(1) unfolding stats_ok_def by (meson order_trans)
  then have "1 \<le> cs_document_count stats" using assms(2) by simp
  then show ?thesis
    using contribution_defined [of "cs_document_count stats" "cs_total_document_length stats" dl tf idf] assms
    by (simp add: cs_average_document_length_def stats_ok_def)
qed

lemma score_postings_loop:
  assumes c: "\<And>d tf. (d, tf) \<in> set ps \<Longrightarrow>
      bm25_contribution fo params idf av (index_document_length ix d) tf = Inr (h d tf)"
    and ok: "dict_ok ps" "dict_ok scores"
  shows "\<exists>s'. efold (score_posting fo params ix idf av) ps scores = Inr s' \<and> dict_ok s'
    \<and> (\<forall>d. map_of s' d = (case map_of ps d of None \<Rightarrow> map_of scores d
         | Some tf \<Rightarrow> Some (f_add fo (dget_or scores d (f_rat fo 0)) (h d tf))))"
  using c ok
proof (induction ps arbitrary: scores)
  case Nil
  then show ?case by simp
next
  case (Cons p ps)
  obtain d tf where p: "p = (d, tf)" by (cases p)
  define s1 where "s1 = AList.update d (f_add fo (dget_or scores d (f_rat fo 0)) (h d tf)) scores"
  have step: "score_posting fo params ix idf av p scores = Inr s1"
    using Cons.prems(1) [of d tf] by (simp add: score_posting_def p s1_def)
  have "dict_ok s1" using Cons.prems(3) by (simp add: s1_def)
  then obtain s' where s': "efold (score_posting fo params ix idf av) ps s1 = Inr s'" "dict_ok s'"
      "\<forall>e. map_of s' e = (case map_of ps e of None \<Rightarrow> map_of s1 e
         | Some tf \<Rightarrow> Some (f_add fo (dget_or s1 e (f_rat fo 0)) (h e tf)))"
    using Cons.IH [of s1] Cons.prems by auto
  have "map_of ps d = None" using Cons.prems(2) p by (simp add: map_of_eq_None_iff)
  then have "map_of s' e = (case map_of (p # ps) e of None \<Rightarrow> map_of scores e
         | Some tf \<Rightarrow> Some (f_add fo (dget_or scores e (f_rat fo 0)) (h e tf)))" for e
    using s'(3) by (cases "e = d") (auto simp: p s1_def dict_simps dget_or_def split: option.splits)
  with s' step show ?case by auto
qed

lemma score_term_step:
  assumes r: "index_repr ix M" and st: "stats_ok stats" "cs_document_count stats \<noteq> 0"
      "cs_average_document_length fo stats \<noteq> f_rat fo 0"
    and ok: "dict_ok scores"
  shows "\<exists>s'. score_term fo params ix stats t scores = Inr s' \<and> dict_ok s'
    \<and> (\<forall>d. map_of s' d = (case M d of None \<Rightarrow> map_of scores d
         | Some toks \<Rightarrow> doc_score_from fo params stats [t] toks (map_of scores d)))"
proof (cases "index_posting_map ix t = []")
  case True
  then have "t \<notin> set toks" if "M d = Some toks" for d toks
    using index_repr_posting [OF r, of t d] that by (auto simp: corpus_posting_def split: if_splits)
  with True ok show ?thesis by (auto simp: score_term_def split: option.splits)
next
  case False
  obtain idf where idf: "inverse_document_frequency fo (cs_document_frequency stats t) (cs_document_count stats) = Inr idf"
    using idf_defined st(1) unfolding stats_ok_def by blast
  define h where "h d tf = projr (bm25_contribution fo params idf (cs_average_document_length fo stats)
      (index_document_length ix d) tf)" for d tf
  have tc: "M d = Some toks \<and> t \<in> set toks \<and> tf = int (count_list toks t)
      \<and> bm25_contribution fo params idf (cs_average_document_length fo stats) (index_document_length ix d) tf = Inr (h d tf)
      \<and> term_contribution fo params stats t toks = Inr (h d tf)"
    if "map_of (index_posting_map ix t) d = Some tf" "M d = Some toks" for d tf toks
  proof -
    have tf: "t \<in> set toks" "tf = int (count_list toks t)"
      using that index_repr_posting [OF r, of t d] by (auto simp: corpus_posting_def split: if_splits)
    then have "1 \<le> tf" by (simp add: Suc_le_eq count_list_0_iff flip: neq0_conv)
    moreover have dl: "index_document_length ix d = int (length toks)"
      using that by (simp add: index_document_length_def dget_or_def index_repr_length [OF r])
    ultimately obtain c where "bm25_contribution fo params idf (cs_average_document_length fo stats)
        (index_document_length ix d) tf = Inr c"
      using average_contribution [OF st, of "int (length toks)" tf idf] by auto
    then show ?thesis using tf that(2) dl by (simp add: h_def term_contribution_def idf)
  qed
  have posting: "\<exists>toks. M d = Some toks" if "map_of (index_posting_map ix t) d = Some tf" for d tf
    using that index_repr_posting [OF r, of t d] by (auto simp: corpus_posting_def split: option.splits)
  have pok: "dict_ok (index_posting_map ix t)" using posting_map_ok [OF index_repr_shape [OF r]] .
  have hc: "bm25_contribution fo params idf (cs_average_document_length fo stats) (index_document_length ix d) tf = Inr (h d tf)"
    if "(d, tf) \<in> set (index_posting_map ix t)" for d tf
    using that tc posting dict_in_set [OF pok] by blast
  obtain s' where s': "efold (score_posting fo params ix idf (cs_average_document_length fo stats))
        (index_posting_map ix t) scores = Inr s'" "dict_ok s'"
      "\<forall>d. map_of s' d = (case map_of (index_posting_map ix t) d of None \<Rightarrow> map_of scores d
         | Some tf \<Rightarrow> Some (f_add fo (dget_or scores d (f_rat fo 0)) (h d tf)))"
    using score_postings_loop [OF hc pok ok] by blast
  have "map_of s' d = (case M d of None \<Rightarrow> map_of scores d
         | Some toks \<Rightarrow> doc_score_from fo params stats [t] toks (map_of scores d))" for d
  proof (cases "map_of (index_posting_map ix t) d")
    case None
    then have "t \<notin> set toks" if "M d = Some toks" for toks
      using index_repr_posting [OF r, of t d] that by (auto simp: corpus_posting_def split: if_splits)
    with None s'(3) show ?thesis by (auto split: option.splits)
  next
    case (Some tf)
    then obtain toks where "M d = Some toks" using posting by blast
    with Some tc [OF Some this] s'(3) show ?thesis by (simp add: dget_or_def)
  qed
  with s' False idf show ?thesis by (simp add: score_term_def)
qed

lemma doc_score_from_Cons:
  "doc_score_from fo params stats (t # terms) toks acc =
   doc_score_from fo params stats terms toks (doc_score_from fo params stats [t] toks acc)"
  by simp

lemma score_terms_loop:
  assumes r: "index_repr ix M" and st: "stats_ok stats" "cs_document_count stats \<noteq> 0"
      "cs_average_document_length fo stats \<noteq> f_rat fo 0"
    and ok: "dict_ok scores"
  shows "\<exists>s'. efold (score_term fo params ix stats) terms scores = Inr s' \<and> dict_ok s'
    \<and> (\<forall>d. map_of s' d = (case M d of None \<Rightarrow> map_of scores d
         | Some toks \<Rightarrow> doc_score_from fo params stats terms toks (map_of scores d)))"
  using ok
proof (induction terms arbitrary: scores)
  case Nil
  then show ?case by (auto split: option.splits)
next
  case (Cons t terms)
  from score_term_step [OF r st Cons.prems, of t] obtain s1 where
    s1: "score_term fo params ix stats t scores = Inr s1" "dict_ok s1"
      "\<forall>d. map_of s1 d = (case M d of None \<Rightarrow> map_of scores d
         | Some toks \<Rightarrow> doc_score_from fo params stats [t] toks (map_of scores d))" by blast
  from Cons.IH [OF s1(2)] obtain s' where
    s': "efold (score_term fo params ix stats) terms s1 = Inr s'" "dict_ok s'"
      "\<forall>d. map_of s' d = (case M d of None \<Rightarrow> map_of s1 d
         | Some toks \<Rightarrow> doc_score_from fo params stats terms toks (map_of s1 d))" by blast
  have "map_of s' d = (case M d of None \<Rightarrow> map_of scores d
         | Some toks \<Rightarrow> doc_score_from fo params stats (t # terms) toks (map_of scores d))" for d
    using s1(3) s'(3) by (cases "M d") (simp_all only: option.case doc_score_from_Cons [of stats t terms])
  with s1 s' show ?case by auto
qed

lemma score_query_from_stats:
  assumes "index_repr ix M" and "stats_ok stats"
  shows "\<exists>s'. score_query fo params ix terms (Some stats) = Inr s' \<and> dict_ok s'
    \<and> (\<forall>d. map_of s' d = Option.bind (M d) (doc_score fo params stats terms))"
proof (cases "cs_document_count stats = 0 \<or> cs_average_document_length fo stats = f_rat fo 0")
  case True
  then have "Option.bind (M d) (doc_score fo params stats terms) = None" for d
    by (cases "M d") (auto simp: doc_score_def)
  with True show ?thesis by (auto simp: score_query_def)
next
  case False
  then have "cs_document_count stats \<noteq> 0" "cs_average_document_length fo stats \<noteq> f_rat fo 0" by simp_all
  from score_terms_loop [OF assms this, of "[]" terms] obtain s' where
    s': "efold (score_term fo params ix stats) terms [] = Inr s'" "dict_ok s'"
      "\<forall>d. map_of s' d = (case M d of None \<Rightarrow> map_of [] d | Some toks \<Rightarrow> doc_score_from fo params stats terms toks (map_of [] d))"
    by auto
  have "map_of s' d = Option.bind (M d) (doc_score fo params stats terms)" for d
    using s'(3) False by (cases "M d") (simp_all add: doc_score_def)
  with s' False show ?thesis by (auto simp: score_query_def)
qed

lemma score_query_own_stats:
  assumes "index_repr ix M"
  shows "\<exists>s'. score_query fo params ix terms None = Inr s' \<and> dict_ok s'
    \<and> (\<forall>d. map_of s' d = Option.bind (M d) (doc_score fo params (index_corpus_stats ix terms) terms))"
  using score_query_from_stats [OF assms index_stats_ok [OF assms], of terms terms]
  by (simp add: score_query_def)

end

section \<open>Exact arithmetic\<close>

lemma real_idf:
  assumes "0 \<le> df" "df \<le> n"
  shows "inverse_document_frequency real_ops df n = Inr (ln ((real_of_int n + 1) / (real_of_int df + 1 / 2)))"
proof -
  have d: "real_of_int df + 1 / 2 > 0" using assms by simp
  have "1 + (real_of_int (n - df) + 1 / 2) / (real_of_int df + 1 / 2) = (real_of_int n + 1) / (real_of_int df + 1 / 2)"
    using d by (simp add: field_simps)
  moreover have "0 < (real_of_int n + 1) / (real_of_int df + 1 / 2)" using d assms by simp
  ultimately show ?thesis using d assms
    by (simp add: inverse_document_frequency_def f_div_def f_log_def f_of_int_def of_rat_divide of_rat_diff Let_def linorder_not_le)
qed

lemma real_contribution:
  assumes "0 < av" "0 \<le> dl" "1 \<le> tf"
  shows "bm25_contribution real_ops (default_bm25_params real_ops) idf av dl tf =
    Inr (idf * (real_of_int tf * (11 / 5)) / (real_of_int tf + 6 / 5 * (1 / 4 + 3 / 4 * (real_of_int dl / av))))"
proof -
  have "0 \<le> real_of_int dl / av" using assms by simp
  then have "0 \<le> 6 / 5 * (1 / 4 + 3 / 4 * (real_of_int dl / av))" by simp
  then have "0 < real_of_int tf + 6 / 5 * (1 / 4 + 3 / 4 * (real_of_int dl / av))"
    using assms(3) by (intro add_pos_nonneg) simp_all
  then show ?thesis using assms
    by (simp add: bm25_contribution_def f_div_def f_of_int_def default_bm25_params_def of_rat_divide Let_def mult.commute [of av 2])
qed

interpretation exact: bm25_arithmetic real_ops "default_bm25_params real_ops"
proof
  show "\<exists>v. inverse_document_frequency real_ops df n = Inr v" if "0 \<le> df" "df \<le> n" for df n
    using real_idf [OF that] by blast
  fix n tot dl tf :: int and idf :: real
  assume a: "1 \<le> n" "0 \<le> tot" "f_rat real_ops (of_int tot / of_int n) \<noteq> f_rat real_ops 0" "0 \<le> dl" "1 \<le> tf"
  have "0 \<le> real_of_rat (of_int tot / of_int n)"
    using a by (simp add: of_rat_divide)
  with a have "0 < f_rat real_ops (of_int tot / of_int n)" by simp
  from real_contribution [OF this a(4,5)]
  show "\<exists>c. bm25_contribution real_ops (default_bm25_params real_ops) idf (f_rat real_ops (of_int tot / of_int n)) dl tf = Inr c"
    by blast
qed
section \<open>Properties\<close>

text \<open>C24. Scoring is local: in any arithmetic in which the BM25 expressions are defined, a query never
  raises, a document gets a score exactly if it contains a query term, and that score depends only on
  its own tokens, the query and the corpus statistics; the other documents of the index matter only
  through the statistics. This holds bit for bit, for the order in which the code adds.\<close>

theorem score_query_local:
  assumes "bm25_arithmetic fo params" and "index_repr ix M"
  shows "(stats_ok stats \<longrightarrow>
      (\<exists>s'. score_query fo params ix terms (Some stats) = Inr s' \<and> dict_ok s'
         \<and> map_of s' = (\<lambda>d. Option.bind (M d) (doc_score fo params stats terms))))
    \<and> (\<exists>s'. score_query fo params ix terms None = Inr s' \<and> dict_ok s'
         \<and> map_of s' = (\<lambda>d. Option.bind (M d) (doc_score fo params (index_corpus_stats ix terms) terms)))"
  using bm25_arithmetic.score_query_from_stats [OF assms, of stats terms]
    bm25_arithmetic.score_query_own_stats [OF assms, of terms]
  by (auto simp: fun_eq_iff)

theorem score_query_local_witness:
  "\<exists>s'. score_query real_ops (default_bm25_params real_ops)
          (snd (index_add_document (ustr ''a'') [ustr ''x''] index_empty)) [ustr ''x''] None = Inr s'
     \<and> dict_ok s'
     \<and> map_of s' = (\<lambda>d. Option.bind ([ustr ''a'' \<mapsto> [ustr ''x'']] d) (doc_score real_ops (default_bm25_params real_ops)
          (index_corpus_stats (snd (index_add_document (ustr ''a'') [ustr ''x''] index_empty)) [ustr ''x'']) [ustr ''x'']))"
  using score_query_local [OF exact.bm25_arithmetic_axioms add_snd_repr [OF index_empty_repr, of "ustr ''a''" "[ustr ''x'']"]]
  by blast

text \<open>The inverse document frequency is strictly positive for every document frequency a corpus
  can have, also for a term in every document, and a rarer term weighs strictly more.\<close>

lemma idf_positive_antitone:
  assumes "0 \<le> df" "df < df'" "df' \<le> n"
  shows "\<exists>v v'. inverse_document_frequency real_ops df n = Inr v
    \<and> inverse_document_frequency real_ops df' n = Inr v' \<and> 0 < v' \<and> v' < v"
proof -
  let ?q = "\<lambda>d. (real_of_int n + 1) / (real_of_int d + 1 / 2)"
  have "1 < ?q df'" using assms by simp
  moreover have "?q df' < ?q df" using assms by (intro divide_strict_left_mono) simp_all
  ultimately have "0 < ln (?q df')" "ln (?q df') < ln (?q df)" by simp_all
  with real_idf [of df n] real_idf [of df' n] assms show ?thesis by auto
qed

text \<open>C25. In exact arithmetic with the default parameters a contribution is positive, grows with the
  term frequency, shrinks with the document's length, and never exceeds \<open>idf * (k1 + 1)\<close>.\<close>

definition real_bm25 :: "real \<Rightarrow> real \<Rightarrow> int \<Rightarrow> int \<Rightarrow> real" where
  "real_bm25 idf av dl tf = projr (bm25_contribution real_ops (default_bm25_params real_ops) idf av dl tf)"

lemma saturation_mono:
  assumes "0 < (idf::real)" "0 \<le> k" "1 \<le> (x::real)"
  shows "0 < idf * (x * (11 / 5)) / (x + k)" "idf * (x * (11 / 5)) / (x + k) \<le> idf * (11 / 5)"
    "x < y \<Longrightarrow> 0 < k \<Longrightarrow> idf * (x * (11 / 5)) / (x + k) < idf * (y * (11 / 5)) / (y + k)"
    "k < k' \<Longrightarrow> idf * (x * (11 / 5)) / (x + k') < idf * (x * (11 / 5)) / (x + k)"
proof -
  have p: "0 < x + k" "0 < idf * (11 / 5)" using assms by simp_all
  show "0 < idf * (x * (11 / 5)) / (x + k)" using assms p by simp
  have "x / (x + k) \<le> 1" using assms p by simp
  from mult_left_mono [OF this, of "idf * (11 / 5)"] p
  show "idf * (x * (11 / 5)) / (x + k) \<le> idf * (11 / 5)" by (simp add: ac_simps)
  show "idf * (x * (11 / 5)) / (x + k) < idf * (y * (11 / 5)) / (y + k)" if "x < y" "0 < k"
  proof -
    have "x / (x + k) < y / (y + k)" using assms p that by (simp add: frac_less_eq divide_less_eq less_divide_eq field_simps)
    from mult_strict_left_mono [OF this p(2)] show ?thesis by (simp add: ac_simps)
  qed
  show "idf * (x * (11 / 5)) / (x + k') < idf * (x * (11 / 5)) / (x + k)" if "k < k'"
    using assms p that by (intro divide_strict_left_mono) auto
qed

theorem contribution_shape:
  assumes "0 < idf" "0 < av" "0 \<le> dl" "1 \<le> tf"
  shows "bm25_contribution real_ops (default_bm25_params real_ops) idf av dl tf = Inr (real_bm25 idf av dl tf)
    \<and> 0 < real_bm25 idf av dl tf \<and> real_bm25 idf av dl tf \<le> idf * (11 / 5)
    \<and> (tf < tf' \<longrightarrow> real_bm25 idf av dl tf < real_bm25 idf av dl tf')
    \<and> (dl < dl' \<longrightarrow> real_bm25 idf av dl' tf < real_bm25 idf av dl tf)"
proof -
  let ?k = "\<lambda>dl. 6 / 5 * (1 / 4 + 3 / 4 * (real_of_int dl / av))"
  have val: "real_bm25 idf av dl tf = idf * (real_of_int tf * (11 / 5)) / (real_of_int tf + ?k dl)"
    if "0 \<le> dl" "1 \<le> tf" for dl tf
    using real_contribution [OF assms(2) that, of idf] by (simp add: real_bm25_def)
  have k: "0 < ?k dl" using assms by (simp add: add_pos_nonneg)
  have kk: "?k dl < ?k dl'" if "dl < dl'" using that assms by (simp add: divide_strict_right_mono)
  note sat = saturation_mono [OF assms(1) less_imp_le [OF k], of "real_of_int tf"]
  have "bm25_contribution real_ops (default_bm25_params real_ops) idf av dl tf = Inr (real_bm25 idf av dl tf)"
    using real_contribution [OF assms(2-4), of idf] by (simp add: real_bm25_def)
  moreover have "0 < real_bm25 idf av dl tf" "real_bm25 idf av dl tf \<le> idf * (11 / 5)"
    using sat(1,2) assms by (simp_all only: val)
  moreover have "real_bm25 idf av dl tf < real_bm25 idf av dl tf'" if "tf < tf'"
    using sat(3) [of "real_of_int tf'"] assms that k by (simp add: val)
  moreover have "real_bm25 idf av dl' tf < real_bm25 idf av dl tf" if "dl < dl'"
    using sat(4) [OF _ kk [OF that]] assms that by (simp add: val)
  ultimately show ?thesis by blast
qed

theorem contribution_shape_witness:
  "real_bm25 1 2 3 1 < real_bm25 1 2 3 2 \<and> real_bm25 1 2 5 1 < real_bm25 1 2 3 1"
  using contribution_shape [of 1 2 3 1 2 5] by simp

end
