(* ===== verification/Storage.thy ===== *)
theory Storage
  imports Interfaces
begin

text \<open>
  \<open>app/storage/sqlite_store.py\<close> and the protocol of \<open>app/storage/base.py\<close>. The database is the
  table of documents and the one row of \<open>shard_metadata\<close>; a connection has the durable database, the
  one its open transaction works on, and a schedule of driver failures: each statement, commit or
  cursor step consumes one entry and raises \<open>sqlite3.Error\<close> if the entry is \<open>True\<close> (an empty schedule
  never fails). Quantifying over the schedule covers a failure at every point. What is used of SQLite
  is that a statement takes effect or not at all, that commit publishes the working database, and that
  rollback discards it.
\<close>

section \<open>SQLite connections\<close>

record database =
  db_documents :: "(pystr, pystr) dict"
  db_generation :: "int option"

record connection =
  con_durable :: database
  con_working :: database
  con_faults :: "bool list"
  con_closed :: bool

definition db_exec :: "(database \<Rightarrow> 'a res \<times> database) \<Rightarrow> (connection, 'a) st" where
  "db_exec f con =
     (if con_closed con then (Inl Sqlite3Error, con)
      else if con_faults con \<noteq> [] \<and> hd (con_faults con)
      then (Inl Sqlite3Error, con\<lparr>con_faults := tl (con_faults con)\<rparr>)
      else case f (con_working con) of
          (Inl e, _) \<Rightarrow> (Inl e, con\<lparr>con_faults := tl (con_faults con)\<rparr>)
        | (Inr a, db) \<Rightarrow> (Inr a, con\<lparr>con_working := db, con_faults := tl (con_faults con)\<rparr>))"

definition db_commit :: "(connection, unit) st" where
  "db_commit con =
     (if con_closed con then (Inl Sqlite3Error, con)
      else if con_faults con \<noteq> [] \<and> hd (con_faults con)
      then (Inl Sqlite3Error, con\<lparr>con_faults := tl (con_faults con)\<rparr>)
      else (Inr (), con\<lparr>con_durable := con_working con, con_faults := tl (con_faults con)\<rparr>))"

definition db_rollback :: "connection \<Rightarrow> connection" where
  "db_rollback con = con\<lparr>con_working := con_durable con\<rparr>"

text \<open>\<open>with self._connection\<close>: commit on success, roll back on any exception, also one of commit.\<close>

definition with_connection :: "(connection, 'a) st \<Rightarrow> (connection, 'a) st" where
  "with_connection m con =
     (case m con of
        (Inl e, con1) \<Rightarrow> (Inl e, db_rollback con1)
      | (Inr a, con1) \<Rightarrow>
          (case db_commit con1 of
             (Inl e, con2) \<Rightarrow> (Inl e, db_rollback con2)
           | (Inr _, con2) \<Rightarrow> (Inr a, con2)))"

text \<open>\<open>try ... except sqlite3.Error as error: raise StorageError(...) from error\<close>\<close>

definition wrap_sqlite :: "exn \<Rightarrow> ('s, 'a) st \<Rightarrow> ('s, 'a) st" where
  "wrap_sqlite err m s =
     (case m s of
        (Inl e, s') \<Rightarrow> (Inl (if e = Sqlite3Error then err else e), s')
      | (Inr a, s') \<Rightarrow> (Inr a, s'))"

text \<open>A query, and one step of a cursor.\<close>

definition db_select :: "(database \<Rightarrow> 'a) \<Rightarrow> (connection, 'a) st" where
  "db_select f = db_exec (\<lambda>db. (Inr (f db), db))"

definition db_modify :: "(database \<Rightarrow> database) \<Rightarrow> (connection, unit) st" where
  "db_modify f = db_exec (\<lambda>db. (Inr (), f db))"

section \<open>The document store\<close>

definition set_generation :: "int \<Rightarrow> (connection, unit) st" where
  "set_generation g =
     db_modify (\<lambda>db. db\<lparr>db_generation := map_option (\<lambda>_. g) (db_generation db)\<rparr>)"

definition store_put :: "document \<Rightarrow> int \<Rightarrow> (connection, bool) st" where
  "store_put doc g =
     wrap_sqlite StorageError (with_connection
       (sbind (db_select (\<lambda>db. map_of (db_documents db) (document_id doc)))
         (\<lambda>existing. sbind (db_modify (\<lambda>db. db\<lparr>db_documents :=
               AList.update (document_id doc) (doc_text doc) (db_documents db)\<rparr>))
         (\<lambda>_. sbind (set_generation g)
         (\<lambda>_ con. (Inr (existing = None), con))))))"

definition store_get :: "unicode \<Rightarrow> pystr \<Rightarrow> (connection, document option) st" where
  "store_get ud d =
     sbind (wrap_sqlite StorageError (db_select (\<lambda>db. map_of (db_documents db) d)))
       (\<lambda>row con. case row of
            None \<Rightarrow> (Inr None, con)
          | Some t \<Rightarrow> (case mk_document ud d t of Inl e \<Rightarrow> (Inl e, con) | Inr doc \<Rightarrow> (Inr (Some doc), con)))"

definition store_delete :: "pystr \<Rightarrow> int \<Rightarrow> (connection, bool) st" where
  "store_delete d g =
     wrap_sqlite StorageError (with_connection
       (sbind (db_exec (\<lambda>db. (Inr (dhas (db_documents db) d), db\<lparr>db_documents := AList.delete d (db_documents db)\<rparr>)))
         (\<lambda>removed. sbind (set_generation g)
         (\<lambda>_ con. (Inr removed, con)))))"

text \<open>\<open>INSERT INTO documents\<close>: the primary key rejects an identifier that is already there.\<close>

definition db_insert :: "document \<Rightarrow> (connection, unit) st" where
  "db_insert doc = db_exec (\<lambda>db.
     if dhas (db_documents db) (document_id doc) then (Inl Sqlite3Error, db)
     else (Inr (), db\<lparr>db_documents := db_documents db @ [(document_id doc, doc_text doc)]\<rparr>))"

definition store_replace_all :: "document list \<Rightarrow> int \<Rightarrow> (connection, unit) st" where
  "store_replace_all docs g =
     wrap_sqlite StorageError (with_connection
       (sbind (db_modify (\<lambda>db. db\<lparr>db_documents := []\<rparr>))
         (\<lambda>_. sbind (sfold db_insert docs)
         (\<lambda>_. set_generation g))))"

definition store_generation :: "(connection, int) st" where
  "store_generation =
     sbind (wrap_sqlite StorageError (db_select db_generation))
       (\<lambda>row con. case row of None \<Rightarrow> (Inl TypeError, con) | Some g \<Rightarrow> (Inr g, con))"

definition store_count :: "(connection, int) st" where
  "store_count = wrap_sqlite StorageError (db_select (\<lambda>db. int (length (db_documents db))))"

definition store_close :: "(connection, unit) st" where
  "store_close = wrap_sqlite StorageError (\<lambda>con.
     if con_faults con \<noteq> [] \<and> hd (con_faults con) \<and> \<not> con_closed con
     then (Inl Sqlite3Error, con\<lparr>con_faults := tl (con_faults con)\<rparr>)
     else (Inr (), con\<lparr>con_closed := True, con_working := con_durable con\<rparr>))"

text \<open>
  \<open>iter_documents\<close> is a generator: the cursor is opened, and then each row is fetched and handed to
  the loop body before the next. \<open>store_for_documents\<close> is a \<open>for\<close> loop over it whose body updates an
  accumulator; an exception of the body leaves the loop without passing the generator's handler.
\<close>

fun store_rows :: "unicode \<Rightarrow> (document \<Rightarrow> 'a \<Rightarrow> 'a res) \<Rightarrow> (pystr \<times> pystr) list \<Rightarrow> 'a \<Rightarrow> (connection, 'a) st" where
  "store_rows ud body [] acc con = (Inr acc, con)"
| "store_rows ud body ((d, t) # rows) acc con =
     sbind (wrap_sqlite StorageError (db_select (\<lambda>_. ())))
       (\<lambda>_ con. case ebind (mk_document ud d t) (\<lambda>doc. body doc acc) of
            Inl e \<Rightarrow> (Inl e, con)
          | Inr acc' \<Rightarrow> store_rows ud body rows acc' con) con"

definition store_for_documents :: "unicode \<Rightarrow> (document \<Rightarrow> 'a \<Rightarrow> 'a res) \<Rightarrow> 'a \<Rightarrow> (connection, 'a) st" where
  "store_for_documents ud body acc =
     sbind (wrap_sqlite StorageError (db_select (\<lambda>db. sort_key fst (db_documents db))))
       (\<lambda>rows. store_rows ud body rows acc)"

text \<open>\<open>list(store.iter_documents())\<close>\<close>

definition store_iter_documents :: "unicode \<Rightarrow> (connection, document list) st" where
  "store_iter_documents ud = store_for_documents ud (\<lambda>doc docs. Inr (docs @ [doc])) []"

text \<open>
  \<open>open\<close>: creating the parent directory and connecting can fail like a statement; the tables are
  created if they are missing (an absent table and an empty one are the same here), and the metadata
  row is inserted if it is missing. \<open>db\<close> is what the file holds; what it holds afterwards is returned.
\<close>

definition os_call :: "exn \<Rightarrow> (connection, unit) st" where
  "os_call err con =
     (if con_faults con \<noteq> [] \<and> hd (con_faults con)
      then (Inl err, con\<lparr>con_faults := tl (con_faults con)\<rparr>)
      else (Inr (), con\<lparr>con_faults := tl (con_faults con)\<rparr>))"

definition schema_statements :: "(connection, unit) st list" where
  "schema_statements =
     [db_modify (\<lambda>db. db), db_modify (\<lambda>db. db),
      db_modify (\<lambda>db. db\<lparr>db_generation := (case db_generation db of None \<Rightarrow> Some 0 | Some g \<Rightarrow> Some g)\<rparr>)]"

definition store_open :: "bool \<Rightarrow> database \<Rightarrow> bool list \<Rightarrow> connection res \<times> database" where
  "store_open in_memory db faults =
     (case sbind (\<lambda>con. if in_memory then (Inr (), con) else os_call OSError con)
             (\<lambda>_. sbind (os_call Sqlite3Error)
             (\<lambda>_. sbind (db_modify (\<lambda>db. db))
             (\<lambda>_. sbind (sfold (\<lambda>m. m) schema_statements)
             (\<lambda>_. sbind (db_modify (\<lambda>db. db))
             (\<lambda>_. db_commit)))))
             \<lparr>con_durable = db, con_working = db, con_faults = faults, con_closed = False\<rparr> of
        (Inl _, con) \<Rightarrow> (Inl StorageInitializationError, con_durable con)
      | (Inr _, con) \<Rightarrow> (Inr con, con_durable con))"

section \<open>Transactions\<close>

text \<open>A computation inside a transaction writes to the working database only.\<close>

definition keeps_durable :: "(connection, 'a) st \<Rightarrow> bool" where
  "keeps_durable m \<longleftrightarrow> (\<forall>con. con_durable (snd (m con)) = con_durable con)"

lemma keeps_durable_exec [intro, simp]: "keeps_durable (db_exec f)"
  by (auto simp: keeps_durable_def db_exec_def split: prod.splits sum.splits)

lemma keeps_durable_simple [intro, simp]:
  "keeps_durable (db_select g)" "keeps_durable (db_modify h)" "keeps_durable (set_generation n)"
  "keeps_durable (db_insert doc)" "keeps_durable (\<lambda>con. (r, con))"
  by (simp_all add: db_select_def db_modify_def set_generation_def db_insert_def)
    (simp add: keeps_durable_def)

lemma keeps_durable_bind [intro, simp]:
  assumes "keeps_durable m" "\<And>a. keeps_durable (f a)"
  shows "keeps_durable (sbind m f)"
  unfolding keeps_durable_def
proof
  fix con
  show "con_durable (snd (sbind m f con)) = con_durable con"
    using assms unfolding keeps_durable_def sbind_def
    by (cases "m con"; cases "fst (m con)") (auto, metis snd_conv, metis snd_conv)
qed

lemma sfold_Cons: "sfold f (x # xs) = sbind (f x) (\<lambda>_. sfold f xs)"
  by (rule ext) simp

lemma sfold_Nil: "sfold f [] = (\<lambda>s. (Inr (), s))"
  by (rule ext) simp

lemma keeps_durable_fold [intro, simp]:
  assumes "\<And>x. keeps_durable (f x)"
  shows "keeps_durable (sfold f xs)"
proof (induction xs)
  case Nil
  then show ?case by (simp add: keeps_durable_def)
next
  case (Cons x xs)
  with assms show ?case by (simp add: sfold_Cons)
qed

lemma with_connection_cases:
  assumes "keeps_durable m"
  shows "(\<exists>a con1 con'. m con = (Inr a, con1) \<and> with_connection m con = (Inr a, con')
      \<and> con_durable con' = con_working con1 \<and> con_working con' = con_working con1)
    \<or> (\<exists>e con'. with_connection m con = (Inl e, con') \<and> con_durable con' = con_durable con
      \<and> con_working con' = con_durable con \<and> (e = Sqlite3Error \<or> fst (m con) = Inl e))"
proof (cases "m con")
  case (Pair r con1)
  have "con_durable con1 = con_durable con"
    using assms Pair unfolding keeps_durable_def by (metis snd_conv)
  then show ?thesis using Pair
    by (cases r) (auto simp: with_connection_def db_commit_def db_rollback_def)
qed

text \<open>No statement of the store raises anything but \<open>sqlite3.Error\<close>.\<close>

definition only_sqlite :: "(connection, 'a) st \<Rightarrow> bool" where
  "only_sqlite m \<longleftrightarrow> (\<forall>con e. fst (m con) = Inl e \<longrightarrow> e = Sqlite3Error)"

lemma only_sqlite_simple [simp]:
  "only_sqlite (db_select g)" "only_sqlite (db_modify h)" "only_sqlite (set_generation n)"
  "only_sqlite (db_insert doc)" "only_sqlite (\<lambda>con. (Inr r, con))"
  "only_sqlite (db_exec (\<lambda>db. (Inr (p db), q db)))"
  by (auto simp: only_sqlite_def db_select_def db_modify_def set_generation_def db_insert_def db_exec_def
      split: prod.splits sum.splits if_splits)

lemma only_sqlite_bind [simp]:
  assumes "only_sqlite m" "\<And>a. only_sqlite (f a)"
  shows "only_sqlite (sbind m f)"
  unfolding only_sqlite_def sbind_def using assms
  by (auto simp: only_sqlite_def split: prod.splits sum.splits) (metis fst_conv)+

lemma only_sqlite_fold [simp]:
  assumes "\<And>x. only_sqlite (f x)"
  shows "only_sqlite (sfold f xs)"
proof (induction xs)
  case Nil
  then show ?case by (simp add: only_sqlite_def)
next
  case (Cons x xs)
  with assms show ?case by (simp add: sfold_Cons)
qed

lemma transaction_cases:
  assumes "keeps_durable m" "only_sqlite m"
  shows "(\<exists>a con1 con'. m con = (Inr a, con1) \<and> wrap_sqlite StorageError (with_connection m) con = (Inr a, con')
      \<and> con_durable con' = con_working con1 \<and> con_working con' = con_working con1)
    \<or> (\<exists>con'. wrap_sqlite StorageError (with_connection m) con = (Inl StorageError, con')
      \<and> con_durable con' = con_durable con \<and> con_working con' = con_durable con)"
  using with_connection_cases [OF assms(1), of con] assms(2)
  by (auto simp: wrap_sqlite_def only_sqlite_def)

lemma db_exec_Inr: "db_exec f con = (Inr a, con') \<Longrightarrow> fst (f (con_working con)) = Inr a
    \<and> con_working con' = snd (f (con_working con))"
  by (auto simp: db_exec_def split: if_splits prod.splits sum.splits)

lemma db_modify_Inr: "db_modify f con = (Inr a, con') \<Longrightarrow> con_working con' = f (con_working con)"
  by (auto simp: db_modify_def dest: db_exec_Inr)

lemma db_select_Inr: "db_select f con = (Inr a, con') \<Longrightarrow> con_working con' = con_working con \<and> a = f (con_working con)"
  by (auto simp: db_select_def dest: db_exec_Inr)

lemma sbind_Inr_E:
  assumes "sbind m f s = (Inr b, s')"
  obtains a s1 where "m s = (Inr a, s1)" "f a s1 = (Inr b, s')"
  using assms by (auto simp: sbind_def split: prod.splits sum.splits)

section \<open>The store keeps a corpus and a generation\<close>

definition store_ok :: "unicode \<Rightarrow> connection \<Rightarrow> bool" where
  "store_ok ud con \<longleftrightarrow> con_working con = con_durable con \<and> dict_ok (db_documents (con_durable con))
     \<and> db_generation (con_durable con) \<noteq> None
     \<and> (\<forall>d t. map_of (db_documents (con_durable con)) d = Some t \<longrightarrow> valid_id ud d)"

definition store_content :: "connection \<Rightarrow> (pystr \<rightharpoonup> pystr) \<times> int" where
  "store_content con = (map_of (db_documents (con_durable con)), the (db_generation (con_durable con)))"

lemma store_ok_valid:
  "store_ok ud con \<Longrightarrow> (d, t) \<in> set (db_documents (con_durable con)) \<Longrightarrow> valid_id ud d"
  unfolding store_ok_def by (metis map_of_is_SomeI)

lemma store_put_cases:
  assumes "store_ok ud con" "valid_id ud (document_id doc)"
  shows "\<exists>con'. store_ok ud con' \<and>
      (store_put doc g con = (Inr (fst (store_content con) (document_id doc) = None), con')
         \<and> store_content con' = store_op_effect (PutDoc doc g) (store_content con)
       \<or> store_put doc g con = (Inl StorageError, con') \<and> store_content con' = store_content con)"
proof -
  let ?m = "sbind (db_select (\<lambda>db. map_of (db_documents db) (document_id doc)))
         (\<lambda>existing. sbind (db_modify (\<lambda>db. db\<lparr>db_documents :=
               AList.update (document_id doc) (doc_text doc) (db_documents db)\<rparr>))
         (\<lambda>_. sbind (set_generation g) (\<lambda>_ con. (Inr (existing = None), con))))"
  have body: "a = (map_of (db_documents (con_working con)) (document_id doc) = None)
      \<and> db_documents (con_working con1) = AList.update (document_id doc) (doc_text doc) (db_documents (con_working con))
      \<and> db_generation (con_working con1) = map_option (\<lambda>_. g) (db_generation (con_working con))"
    if "?m con = (Inr a, con1)" for a con1
    using that unfolding set_generation_def by (auto elim!: sbind_Inr_E dest!: db_select_Inr db_modify_Inr)
  have "keeps_durable ?m" "only_sqlite ?m" by simp_all
  from transaction_cases [OF this, of con, folded store_put_def] show ?thesis
    using assms body
    by (elim disjE exE conjE) (auto simp: store_ok_def store_content_def dict_simps split: if_splits)
qed

lemma store_delete_cases:
  assumes "store_ok ud con"
  shows "\<exists>con'. store_ok ud con' \<and>
      (store_delete d g con = (Inr (fst (store_content con) d \<noteq> None), con')
         \<and> store_content con' = store_op_effect (DeleteDoc d g) (store_content con)
       \<or> store_delete d g con = (Inl StorageError, con') \<and> store_content con' = store_content con)"
proof -
  let ?m = "sbind (db_exec (\<lambda>db. (Inr (dhas (db_documents db) d), db\<lparr>db_documents := AList.delete d (db_documents db)\<rparr>)))
         (\<lambda>removed. sbind (set_generation g) (\<lambda>_ con. (Inr removed, con)))"
  have body: "a = dhas (db_documents (con_working con)) d
      \<and> db_documents (con_working con1) = AList.delete d (db_documents (con_working con))
      \<and> db_generation (con_working con1) = map_option (\<lambda>_. g) (db_generation (con_working con))"
    if "?m con = (Inr a, con1)" for a con1
    using that unfolding set_generation_def by (auto elim!: sbind_Inr_E dest!: db_exec_Inr db_modify_Inr)
  have "keeps_durable ?m" "only_sqlite ?m" by simp_all
  from transaction_cases [OF this, of con, folded store_delete_def] show ?thesis
    using assms body
    by (elim disjE exE conjE) (auto simp: store_ok_def store_content_def dict_simps split: if_splits)
qed

text \<open>A document as its row of the table.\<close>

abbreviation doc_row :: "document \<Rightarrow> pystr \<times> pystr" where
  "doc_row doc \<equiv> (document_id doc, doc_text doc)"

lemma db_insert_Inr:
  "db_insert doc con = (Inr a, con') \<Longrightarrow> document_id doc \<notin> set (dkeys (db_documents (con_working con)))
     \<and> con_working con' = con_working con\<lparr>db_documents := db_documents (con_working con) @ [doc_row doc]\<rparr>"
  unfolding db_insert_def by (auto dest!: db_exec_Inr split: if_splits simp: map_of_eq_None_iff, force)

lemma db_inserts_Inr:
  "sfold db_insert docs con = (Inr a, con') \<Longrightarrow> dict_ok (db_documents (con_working con)) \<Longrightarrow>
     dict_ok (db_documents (con_working con'))
     \<and> con_working con' = con_working con\<lparr>db_documents := db_documents (con_working con) @ map doc_row docs\<rparr>"
proof (induction docs arbitrary: con)
  case (Cons doc docs)
  from Cons.prems(1) obtain con1 where
    1: "db_insert doc con = (Inr (), con1)" "sfold db_insert docs con1 = (Inr a, con')"
    by (auto elim: sbind_Inr_E)
  note ins = db_insert_Inr [OF 1(1)]
  have "dict_ok (db_documents (con_working con1))" using ins Cons.prems(2) by simp
  note rest = Cons.IH [OF 1(2) this]
  then have "con_working con' = con_working con\<lparr>db_documents := db_documents (con_working con) @ map doc_row (doc # docs)\<rparr>"
    using ins by simp
  with rest show ?case by blast
qed simp

lemma store_replace_cases:
  assumes "store_ok ud con" "list_all (\<lambda>doc. valid_id ud (document_id doc)) docs"
  shows "\<exists>con'. store_ok ud con' \<and>
      (distinct (map document_id docs) \<and> store_replace_all docs g con = (Inr (), con')
         \<and> store_content con' = store_op_effect (ReplaceDocs docs g) (store_content con)
       \<or> store_replace_all docs g con = (Inl StorageError, con') \<and> store_content con' = store_content con)"
proof -
  let ?m = "sbind (db_modify (\<lambda>db. db\<lparr>db_documents := []\<rparr>))
         (\<lambda>_. sbind (sfold db_insert docs) (\<lambda>_. set_generation g))"
  have body: "distinct (map document_id docs) \<and> db_documents (con_working con1) = map doc_row docs
      \<and> db_generation (con_working con1) = map_option (\<lambda>_. g) (db_generation (con_working con))"
    if run: "?m con = (Inr a, con1)" for a con1
  proof -
    from run obtain c1 c2 where 1: "db_modify (\<lambda>db. db\<lparr>db_documents := []\<rparr>) con = (Inr (), c1)"
        and 2: "sfold db_insert docs c1 = (Inr (), c2)" and 3: "set_generation g c2 = (Inr a, con1)"
      by (auto elim!: sbind_Inr_E)
    from db_modify_Inr [OF 1] have c1: "db_documents (con_working c1) = []"
      "db_generation (con_working c1) = db_generation (con_working con)" by simp_all
    from db_inserts_Inr [OF 2] c1 have "dict_ok (map doc_row docs)" "db_documents (con_working c2) = map doc_row docs"
      "db_generation (con_working c2) = db_generation (con_working con)" by auto
    with 3 show ?thesis unfolding set_generation_def by (auto dest!: db_modify_Inr simp: comp_def)
  qed
  have valid: "valid_id ud d" if "docs_corpus docs d = Some t" for d t
    using that assms(2) by (auto simp: docs_corpus_def list_all_iff dest!: map_of_SomeD)
  have "keeps_durable ?m" "only_sqlite ?m" by simp_all
  from transaction_cases [OF this, of con, folded store_replace_all_def] show ?thesis
    using assms(1) body valid
    by (elim disjE exE conjE) (auto simp: store_ok_def store_content_def docs_corpus_def comp_def)
qed

section \<open>Reading\<close>

text \<open>Reading leaves both databases as they are.\<close>

abbreviation same_db :: "connection \<Rightarrow> connection \<Rightarrow> bool" where
  "same_db con con' \<equiv> con_durable con' = con_durable con \<and> con_working con' = con_working con"

lemma same_db_keeps:
  assumes "same_db con con'"
  shows "store_ok ud con' = store_ok ud con" "store_content con' = store_content con"
  using assms by (simp_all add: store_ok_def store_content_def)

lemma wrapped_select_cases:
  "\<exists>con'. same_db con con' \<and> (wrap_sqlite StorageError (db_select f) con = (Inr (f (con_working con)), con')
     \<or> wrap_sqlite StorageError (db_select f) con = (Inl StorageError, con'))"
  by (auto simp: wrap_sqlite_def db_select_def db_exec_def)

lemma store_generation_cases:
  assumes "store_ok ud con"
  shows "\<exists>con'. same_db con con' \<and> (store_generation con = (Inr (snd (store_content con)), con')
     \<or> store_generation con = (Inl StorageError, con'))"
  using wrapped_select_cases [of con db_generation] assms
  by (auto simp: store_generation_def store_ok_def store_content_def)

definition store_docs :: "connection \<Rightarrow> document list" where
  "store_docs con = map (\<lambda>(d, t). \<lparr>document_id = d, doc_text = t\<rparr>) (sort_key fst (db_documents (con_durable con)))"

lemma store_docs_facts:
  assumes "store_ok ud con"
  shows "docs_corpus (store_docs con) = fst (store_content con)"
    "sorted (map document_id (store_docs con))" "distinct (map document_id (store_docs con))"
    "list_all (\<lambda>doc. valid_id ud (document_id doc)) (store_docs con)"
proof -
  let ?rows = "db_documents (con_durable con)" and ?sorted = "sort_key fst (db_documents (con_durable con))"
  have ids: "map document_id (store_docs con) = map fst ?sorted"
    by (auto simp: store_docs_def comp_def case_prod_beta)
  have rows: "map (\<lambda>doc. (document_id doc, doc_text doc)) (store_docs con) = ?sorted"
    by (auto simp: store_docs_def comp_def case_prod_beta)
  have d: "dict_ok ?rows" using assms by (simp add: store_ok_def)
  have ds: "dict_ok ?sorted"
    using d by (metis distinct_map distinct_sort set_sort)
  then show "distinct (map document_id (store_docs con))" by (simp only: ids)
  show "sorted (map document_id (store_docs con))" by (simp only: ids) simp
  have "map_of ?sorted = map_of ?rows" using d ds by (intro map_of_set_eq) simp_all
  then show "docs_corpus (store_docs con) = fst (store_content con)"
    by (simp add: docs_corpus_def rows store_content_def)
  show "list_all (\<lambda>doc. valid_id ud (document_id doc)) (store_docs con)"
    using store_ok_valid [OF assms] by (auto simp: store_docs_def list_all_iff)
qed

lemma store_rows_cases:
  assumes "\<forall>(d, t)\<in>set rows. valid_id ud d"
  shows "\<exists>r con'. store_rows ud body rows acc con = (r, con') \<and> same_db con con'
    \<and> (r = Inl StorageError \<or> r = efold body (map (\<lambda>(d, t). \<lparr>document_id = d, doc_text = t\<rparr>) rows) acc)"
  using assms
proof (induction rows arbitrary: acc con)
  case (Cons row rows)
  obtain d t where row: "row = (d, t)" by (cases row)
  with Cons.prems have mk: "mk_document ud d t = Inr \<lparr>document_id = d, doc_text = t\<rparr>"
    by (simp add: mk_document_Inr_iff)
  from wrapped_select_cases [of con "\<lambda>_. ()"] obtain con1 where con1: "same_db con con1"
      "wrap_sqlite StorageError (db_select (\<lambda>_. ())) con = (Inr (), con1)
       \<or> wrap_sqlite StorageError (db_select (\<lambda>_. ())) con = (Inl StorageError, con1)" by blast
  then show ?case
  proof (elim disjE)
    assume step: "wrap_sqlite StorageError (db_select (\<lambda>_. ())) con = (Inr (), con1)"
    show ?thesis
    proof (cases "body \<lparr>document_id = d, doc_text = t\<rparr> acc")
      case (Inl e)
      with step con1 row mk show ?thesis by simp
    next
      case (Inr acc')
      from Cons.prems have "\<forall>(d, t)\<in>set rows. valid_id ud d" by simp
      from Cons.IH [OF this, of acc' con1] obtain r con' where
        "store_rows ud body rows acc' con1 = (r, con')" "same_db con1 con'"
        "r = Inl StorageError \<or> r = efold body (map (\<lambda>(d, t). \<lparr>document_id = d, doc_text = t\<rparr>) rows) acc'" by blast
      with step con1 row mk Inr show ?thesis by simp
    qed
  qed (simp add: row)
qed simp

lemma store_for_documents_cases:
  assumes "store_ok ud con"
  shows "\<exists>r con'. store_for_documents ud body acc con = (r, con') \<and> same_db con con'
    \<and> (r = Inl StorageError \<or> r = efold body (store_docs con) acc)"
proof -
  let ?rows = "sort_key fst (db_documents (con_durable con))"
  have v: "\<forall>(d, t)\<in>set ?rows. valid_id ud d"
    using store_ok_valid [OF assms] by auto
  have "con_working con = con_durable con" using assms by (simp add: store_ok_def)
  then obtain con1 where con1: "same_db con con1"
      "wrap_sqlite StorageError (db_select (\<lambda>db. sort_key fst (db_documents db))) con = (Inr ?rows, con1)
       \<or> wrap_sqlite StorageError (db_select (\<lambda>db. sort_key fst (db_documents db))) con = (Inl StorageError, con1)"
    using wrapped_select_cases [of con "\<lambda>db. sort_key fst (db_documents db)"] by auto
  obtain r con' where rows: "store_rows ud body ?rows acc con1 = (r, con')" "same_db con1 con'"
      "r = Inl StorageError \<or> r = efold body (store_docs con) acc"
    using store_rows_cases [OF v, of body acc con1] unfolding store_docs_def by blast
  from con1(2) show ?thesis
  proof
    assume "wrap_sqlite StorageError (db_select (\<lambda>db. sort_key fst (db_documents db))) con = (Inr ?rows, con1)"
    then have "store_for_documents ud body acc con = (r, con')"
      by (simp add: store_for_documents_def rows(1))
    with rows con1(1) show ?thesis by auto
  next
    assume "wrap_sqlite StorageError (db_select (\<lambda>db. sort_key fst (db_documents db))) con = (Inl StorageError, con1)"
    then have "store_for_documents ud body acc con = (Inl StorageError, con1)"
      by (simp add: store_for_documents_def)
    with con1(1) show ?thesis by blast
  qed
qed

lemma efold_append_all: "efold (\<lambda>x xs. Inr (xs @ [x])) ys acc = Inr (acc @ ys)"
  by (induction ys arbitrary: acc) simp_all

lemma store_iter_cases:
  assumes "store_ok ud con"
  shows "\<exists>con'. same_db con con' \<and> (store_iter_documents ud con = (Inr (store_docs con), con')
     \<or> store_iter_documents ud con = (Inl StorageError, con'))"
  using store_for_documents_cases [OF assms, of "\<lambda>doc docs. Inr (docs @ [doc])" "[]"]
  by (auto simp: store_iter_documents_def efold_append_all)

text \<open>A connection on which nothing fails.\<close>

definition calm :: "connection \<Rightarrow> bool" where
  "calm con \<longleftrightarrow> con_faults con = [] \<and> \<not> con_closed con"

lemma calm_select: "calm con \<Longrightarrow> wrap_sqlite StorageError (db_select f) con = (Inr (f (con_working con)), con)"
  by (simp add: calm_def wrap_sqlite_def db_select_def db_exec_def)

lemma calm_rows:
  assumes "calm con" "\<forall>(d, t)\<in>set rows. valid_id ud d"
  shows "store_rows ud body rows acc con =
    (efold body (map (\<lambda>(d, t). \<lparr>document_id = d, doc_text = t\<rparr>) rows) acc, con)"
  using assms(2)
proof (induction rows arbitrary: acc)
  case (Cons row rows)
  obtain d t where row: "row = (d, t)" by (cases row)
  with Cons.prems have mk: "mk_document ud d t = Inr \<lparr>document_id = d, doc_text = t\<rparr>"
    by (simp add: mk_document_Inr_iff)
  with Cons row show ?case
    by (cases "body \<lparr>document_id = d, doc_text = t\<rparr> acc") (simp_all add: calm_select [OF assms(1)])
qed simp

lemma calm_for_documents:
  assumes "calm con" "store_ok ud con"
  shows "store_for_documents ud body acc con = (efold body (store_docs con) acc, con)"
proof -
  have "con_working con = con_durable con" using assms(2) by (simp add: store_ok_def)
  moreover have "\<forall>(d, t)\<in>set (sort_key fst (db_documents (con_durable con))). valid_id ud d"
    using store_ok_valid [OF assms(2)] by auto
  ultimately show ?thesis
    by (simp add: store_for_documents_def calm_select [OF assms(1)] calm_rows [OF assms(1)] store_docs_def)
qed

lemma calm_iter: "store_ok ud con \<Longrightarrow> calm con \<Longrightarrow> store_iter_documents ud con = (Inr (store_docs con), con)"
  by (simp add: store_iter_documents_def calm_for_documents efold_append_all)

interpretation sqlite: document_store "store_ok ud" store_content "valid_id ud" store_put store_delete
  store_replace_all store_generation "store_iter_documents ud" for ud
proof
  fix con doc d docs g
  assume ok: "store_ok ud con"
  show "valid_id ud (document_id doc) \<Longrightarrow> \<exists>con'. store_ok ud con' \<and>
      (store_put doc g con = (Inr (fst (store_content con) (document_id doc) = None), con')
         \<and> store_content con' = store_op_effect (PutDoc doc g) (store_content con)
       \<or> store_put doc g con = (Inl StorageError, con') \<and> store_content con' = store_content con)"
    by (rule store_put_cases [OF ok])
  show "\<exists>con'. store_ok ud con' \<and>
      (store_delete d g con = (Inr (fst (store_content con) d \<noteq> None), con')
         \<and> store_content con' = store_op_effect (DeleteDoc d g) (store_content con)
       \<or> store_delete d g con = (Inl StorageError, con') \<and> store_content con' = store_content con)"
    by (rule store_delete_cases [OF ok])
  show "list_all (\<lambda>doc. valid_id ud (document_id doc)) docs \<Longrightarrow> \<exists>con'. store_ok ud con' \<and>
      (distinct (map document_id docs) \<and> store_replace_all docs g con = (Inr (), con')
         \<and> store_content con' = store_op_effect (ReplaceDocs docs g) (store_content con)
       \<or> store_replace_all docs g con = (Inl StorageError, con') \<and> store_content con' = store_content con)"
    by (rule store_replace_cases [OF ok])
  show "\<exists>con'. store_ok ud con' \<and> store_content con' = store_content con \<and>
      (store_generation con = (Inr (snd (store_content con)), con') \<or> store_generation con = (Inl StorageError, con'))"
    using store_generation_cases [OF ok] ok same_db_keeps by metis
  show "\<exists>con'. store_ok ud con' \<and> store_content con' = store_content con \<and>
      ((\<exists>docs. store_iter_documents ud con = (Inr docs, con') \<and> docs_corpus docs = fst (store_content con)
           \<and> sorted (map document_id docs) \<and> distinct (map document_id docs)
           \<and> list_all (\<lambda>doc. valid_id ud (document_id doc)) docs)
       \<or> store_iter_documents ud con = (Inl StorageError, con'))"
    using store_iter_cases [OF ok] ok same_db_keeps store_docs_facts [OF ok] by metis
qed

section \<open>Properties\<close>

text \<open>C27. Whatever statement, commit or step fails, and wherever, the durable corpus and generation after
  a session of puts, deletes and whole-corpus replacements are the effect of exactly the mutations that
  were acknowledged, in order, and the store is ready for the next one.\<close>

theorem store_session_exact:
  assumes "store_ok ud con" "list_all (store_op_valid (valid_id ud)) ops"
  shows "\<exists>done con'. store_session store_put store_delete store_replace_all ops con = (done, con')
    \<and> store_ok ud con' \<and> store_content con' = fold store_op_effect done (store_content con)"
  by (rule sqlite.session_content [OF assms])

definition fresh_store :: "bool list \<Rightarrow> connection" where
  "fresh_store faults = \<lparr>con_durable = \<lparr>db_documents = [], db_generation = Some 0\<rparr>,
     con_working = \<lparr>db_documents = [], db_generation = Some 0\<rparr>, con_faults = faults, con_closed = False\<rparr>"

lemma fresh_store_ok [simp]: "store_ok ud (fresh_store faults)"
  by (simp add: fresh_store_def store_ok_def)

lemma fresh_store_content [simp]: "store_content (fresh_store faults) = (Map.empty, 0)"
  by (simp add: fresh_store_def store_content_def)

theorem store_session_exact_witness:
  "fst (store_session store_put store_delete store_replace_all
       [PutDoc \<lparr>document_id = ustr ''a'', doc_text = ustr ''x''\<rparr> 1, PutDoc \<lparr>document_id = ustr ''b'', doc_text = ustr ''y''\<rparr> 1]
       (fresh_store [False, False, True])) = [PutDoc \<lparr>document_id = ustr ''b'', doc_text = ustr ''y''\<rparr> 1]
   \<and> store_content (snd (store_session store_put store_delete store_replace_all
       [PutDoc \<lparr>document_id = ustr ''a'', doc_text = ustr ''x''\<rparr> 1, PutDoc \<lparr>document_id = ustr ''b'', doc_text = ustr ''y''\<rparr> 1]
       (fresh_store [False, False, True]))) = ([ustr ''b'' \<mapsto> ustr ''y''], 1)"
proof -
  let ?ops = "[PutDoc \<lparr>document_id = ustr ''a'', doc_text = ustr ''x''\<rparr> 1, PutDoc \<lparr>document_id = ustr ''b'', doc_text = ustr ''y''\<rparr> 1]"
  have "list_all (store_op_valid (valid_id ascii_unicode)) ?ops" by code_simp
  from store_session_exact [OF fresh_store_ok this, of "[False, False, True]"] obtain dn con' where
    s: "store_session store_put store_delete store_replace_all ?ops (fresh_store [False, False, True]) = (dn, con')"
      "store_content con' = fold store_op_effect dn (Map.empty, 0)" by auto
  have "fst (store_session store_put store_delete store_replace_all ?ops (fresh_store [False, False, True]))
      = [PutDoc \<lparr>document_id = ustr ''b'', doc_text = ustr ''y''\<rparr> 1]" by code_simp
  with s show ?thesis by simp
qed

text \<open>Iterating over the store yields every document of the durable corpus exactly once, in the order
  of the identifiers, or raises \<open>StorageError\<close>; either way the store is unchanged. Without failures it
  succeeds.\<close>

lemma store_iteration_complete:
  assumes "store_ok ud con"
  shows "\<exists>con'. store_ok ud con' \<and> store_content con' = store_content con
    \<and> (store_iter_documents ud con = (Inl StorageError, con')
       \<or> (\<exists>docs. store_iter_documents ud con = (Inr docs, con') \<and> docs_corpus docs = fst (store_content con)
            \<and> sorted (map document_id docs) \<and> distinct (map document_id docs)))
    \<and> (calm con \<longrightarrow> fst (store_iter_documents ud con) \<noteq> Inl StorageError)"
proof -
  have "fst (store_iter_documents ud con) \<noteq> Inl StorageError" if "calm con"
    using calm_iter [OF assms that] by simp
  with sqlite.iter_law [OF assms] show ?thesis by blast
qed

text \<open>A setup step either transforms the working database or fails; the file is not touched.\<close>

definition setup_step :: "(connection, unit) st \<Rightarrow> (database \<Rightarrow> database) \<Rightarrow> bool" where
  "setup_step m f \<longleftrightarrow> (\<forall>con. \<not> con_closed con \<longrightarrow>
     (\<exists>con'. m con = (Inr (), con') \<and> \<not> con_closed con' \<and> con_durable con' = con_durable con
        \<and> con_working con' = f (con_working con) \<and> (con_faults con = [] \<longrightarrow> con_faults con' = []))
     \<or> (\<exists>e con'. m con = (Inl e, con') \<and> con_durable con' = con_durable con \<and> con_faults con \<noteq> []))"

lemma setup_modify: "setup_step (db_modify f) f"
  by (auto simp: setup_step_def db_modify_def db_exec_def)

lemma setup_os_call: "setup_step (os_call e) (\<lambda>db. db)"
  by (auto simp: setup_step_def os_call_def)

lemma setup_bind:
  assumes "setup_step m f" "setup_step n g"
  shows "setup_step (sbind m (\<lambda>_. n)) (\<lambda>db. g (f db))"
  unfolding setup_step_def
proof (intro allI impI)
  fix con :: connection
  assume "\<not> con_closed con"
  with assms(1) consider (ok) con1 where "m con = (Inr (), con1)" "\<not> con_closed con1" "con_durable con1 = con_durable con"
      "con_working con1 = f (con_working con)" "con_faults con = [] \<longrightarrow> con_faults con1 = []"
    | (fail) e con1 where "m con = (Inl e, con1)" "con_durable con1 = con_durable con" "con_faults con \<noteq> []"
    unfolding setup_step_def by metis
  then show "(\<exists>con'. sbind m (\<lambda>_. n) con = (Inr (), con') \<and> \<not> con_closed con' \<and> con_durable con' = con_durable con
        \<and> con_working con' = g (f (con_working con)) \<and> (con_faults con = [] \<longrightarrow> con_faults con' = []))
     \<or> (\<exists>e con'. sbind m (\<lambda>_. n) con = (Inl e, con') \<and> con_durable con' = con_durable con \<and> con_faults con \<noteq> [])"
  proof cases
    case ok
    with assms(2) [unfolded setup_step_def, rule_format, of con1] show ?thesis by auto
  qed auto
qed

lemma setup_schema:
  "setup_step (sfold (\<lambda>m. m) schema_statements)
     (\<lambda>db. db\<lparr>db_generation := Some (case db_generation db of None \<Rightarrow> 0 | Some g \<Rightarrow> g)\<rparr>)"
proof -
  let ?ins = "\<lambda>db :: database. db\<lparr>db_generation := (case db_generation db of None \<Rightarrow> Some 0 | Some g \<Rightarrow> Some g)\<rparr>"
  have "setup_step (\<lambda>con. (Inr (), con)) (\<lambda>db. db)" by (simp add: setup_step_def)
  then have "setup_step (sbind (db_modify (\<lambda>db. db)) (\<lambda>_. sbind (db_modify (\<lambda>db. db))
      (\<lambda>_. sbind (db_modify ?ins) (\<lambda>_ con. (Inr (), con))))) ?ins"
    using setup_bind setup_modify by blast
  moreover have "sfold (\<lambda>m. m) schema_statements = sbind (db_modify (\<lambda>db. db)) (\<lambda>_. sbind (db_modify (\<lambda>db. db))
      (\<lambda>_. sbind (db_modify ?ins) (\<lambda>_ con. (Inr (), con))))"
    by (simp only: schema_statements_def sfold_Cons sfold_Nil)
  moreover have "?ins = (\<lambda>db. db\<lparr>db_generation := Some (case db_generation db of None \<Rightarrow> 0 | Some g \<Rightarrow> g)\<rparr>)"
    by (auto simp: fun_eq_iff split: option.splits)
  ultimately show ?thesis by metis
qed

lemma store_open_cases:
  "store_open in_memory db faults = (Inl StorageInitializationError, db) \<and> faults \<noteq> []
   \<or> (\<exists>con. store_open in_memory db faults = (Inr con, con_durable con) \<and> con_working con = con_durable con
      \<and> con_durable con = db\<lparr>db_generation := Some (case db_generation db of None \<Rightarrow> 0 | Some g \<Rightarrow> g)\<rparr>)"
proof -
  let ?con = "\<lparr>con_durable = db, con_working = db, con_faults = faults, con_closed = False\<rparr>"
  let ?mkdir = "\<lambda>con. if in_memory then (Inr (), con) else os_call OSError con"
  let ?pre = "sbind ?mkdir (\<lambda>_. sbind (os_call Sqlite3Error) (\<lambda>_. sbind (db_modify (\<lambda>db. db))
      (\<lambda>_. sbind (sfold (\<lambda>m. m) schema_statements) (\<lambda>_. db_modify (\<lambda>db. db)))))"
  have open_eq: "store_open in_memory db faults = (case sbind ?pre (\<lambda>_. db_commit) ?con of
        (Inl _, con) \<Rightarrow> (Inl StorageInitializationError, con_durable con)
      | (Inr _, con) \<Rightarrow> (Inr con, con_durable con))"
    by (simp add: store_open_def sbind_def split: prod.splits sum.splits)
  have "setup_step ?mkdir (\<lambda>db. db)" using setup_os_call [of OSError] by (cases in_memory) (auto simp: setup_step_def)
  from setup_bind [OF this setup_bind [OF setup_os_call [of Sqlite3Error]
    setup_bind [OF setup_modify [of "\<lambda>db. db"] setup_bind [OF setup_schema setup_modify [of "\<lambda>db. db"]]]]]
  have "setup_step ?pre (\<lambda>db. db\<lparr>db_generation := Some (case db_generation db of None \<Rightarrow> 0 | Some g \<Rightarrow> g)\<rparr>)" by simp
  from this [unfolded setup_step_def, rule_format, of ?con]
  consider (ok) con1 where "?pre ?con = (Inr (), con1)" "\<not> con_closed con1" "con_durable con1 = db"
      "con_working con1 = db\<lparr>db_generation := Some (case db_generation db of None \<Rightarrow> 0 | Some g \<Rightarrow> g)\<rparr>"
      "faults = [] \<longrightarrow> con_faults con1 = []"
    | (fail) e con1 where "?pre ?con = (Inl e, con1)" "con_durable con1 = db" "faults \<noteq> []" by auto
  then show ?thesis
  proof cases
    case ok
    then show ?thesis
      by (cases "con_faults con1 \<noteq> [] \<and> hd (con_faults con1)") (auto simp: open_eq db_commit_def)
  next
    case fail
    then show ?thesis by (simp add: open_eq)
  qed
qed

text \<open>Opening a database keeps every stored document and the generation (0 if none was recorded yet),
  also when opening fails half way; a failure is \<open>StorageInitializationError\<close>, success gives a usable
  store with that content, and without failures it succeeds.\<close>

lemma store_open_recovers:
  assumes "dict_ok (db_documents db)" "\<forall>d\<in>set (dkeys (db_documents db)). valid_id ud d"
  shows "db_documents (snd (store_open in_memory db faults)) = db_documents db
    \<and> db_generation (snd (store_open in_memory db faults)) \<in> {db_generation db, Some (case db_generation db of None \<Rightarrow> 0 | Some g \<Rightarrow> g)}
    \<and> (case fst (store_open in_memory db faults) of
         Inl e \<Rightarrow> e = StorageInitializationError \<and> faults \<noteq> []
       | Inr con \<Rightarrow> store_ok ud con \<and> store_content con =
           (map_of (db_documents db), case db_generation db of None \<Rightarrow> 0 | Some g \<Rightarrow> g))"
proof -
  have v: "\<forall>d t. map_of (db_documents db) d = Some t \<longrightarrow> valid_id ud d"
    using assms(2) by (metis dhas_iff option.distinct(1))
  have "store_ok ud con" if "con_working con = con_durable con"
      "con_durable con = db\<lparr>db_generation := Some g\<rparr>" for con g
    unfolding store_ok_def that using v assms(1) by simp
  with store_open_cases [of in_memory db faults] show ?thesis by (auto simp: store_content_def)
qed

end
