(* ===== verification/Embedder.thy ===== *)
theory Embedder
  imports Prelude
begin

text \<open>
  \<open>app/semantic/embedder.py\<close>: what identifies an embedding space, the embedder protocol, and the
  adapter around a third-party model, whose \<open>encode\<close> is a parameter. The adapter validates what the
  model returns and normalises every row.
\<close>

section \<open>Definitions\<close>

definition default_model_id :: pystr where
  "default_model_id = ustr ''minishlab/potion-base-8M''"

definition default_model_revision :: pystr where
  "default_model_revision = ustr ''bf8b056651a2c21b8d2565580b8569da283cab23''"

record semantic_identity =
  si_implementation :: pystr
  si_model_id :: pystr
  si_model_revision :: pystr
  si_dimension :: nat
  si_normalization :: pystr

definition is_compatible_with :: "semantic_identity \<Rightarrow> semantic_identity \<Rightarrow> bool" where
  "is_compatible_with a b \<longleftrightarrow> a = b"

definition fingerprint :: "semantic_identity \<Rightarrow> pystr" where
  "fingerprint i = si_implementation i @ ustr '':'' @ si_model_id i @ ustr ''@'' @ si_model_revision i
     @ ustr ''/d'' @ py_digits (si_dimension i) @ ustr ''/'' @ si_normalization i"

text \<open>The protocol \<open>Embedder\<close>: an object with an identity and two methods.\<close>

record 'f embedder =
  em_identity :: semantic_identity
  em_embed_documents :: "pystr list \<Rightarrow> 'f ndarray res"
  em_embed_query :: "pystr \<Rightarrow> 'f ndarray res"

abbreviation nd_ndim :: "'f ndarray \<Rightarrow> nat" where
  "nd_ndim a \<equiv> length (nd_shape a)"

definition validate_vectors :: "'f numpy \<Rightarrow> 'f ndarray \<Rightarrow> nat \<Rightarrow> unit res" where
  "validate_vectors np vectors dimension =
     (if nd_ndim vectors \<noteq> 2 then Inl EmbeddingError
      else if nd_shape vectors ! 1 \<noteq> dimension then Inl EmbeddingError
      else if \<not> list_all (np_isfinite np) (nd_data vectors) then Inl EmbeddingError
      else Inr ())"

text \<open>The rows of a 2-D array, and \<open>np.asarray(vectors / safe, dtype=np.float32)\<close> row by row.\<close>

fun chunks :: "nat \<Rightarrow> nat \<Rightarrow> 'a list \<Rightarrow> 'a list list" where
  "chunks 0 w xs = []"
| "chunks (Suc n) w xs = take w xs # chunks n w (drop w xs)"

definition normalize_row :: "'f::linorder numpy \<Rightarrow> 'f list \<Rightarrow> 'f list" where
  "normalize_row np row =
     (let norm = np_norm np row; safe = (if norm = np_lit np 0 then np_lit np 1 else norm)
      in map (\<lambda>x. np_float32 np (np_div np x safe)) row)"

definition normalize_rows :: "'f::linorder numpy \<Rightarrow> 'f ndarray \<Rightarrow> 'f ndarray" where
  "normalize_rows np vectors =
     vectors\<lparr>nd_data := concat (map (normalize_row np)
       (chunks (nd_shape vectors ! 0) (nd_shape vectors ! 1) (nd_data vectors)))\<rparr>"

definition nd_float32 :: "'f numpy \<Rightarrow> 'f ndarray \<Rightarrow> 'f ndarray" where
  "nd_float32 np a = a\<lparr>nd_data := map (np_float32 np) (nd_data a)\<rparr>"

text \<open>\<open>_encode\<close>: any exception of the model becomes \<open>EmbeddingError\<close>.\<close>

definition model2vec_encode ::
    "'f::linorder numpy \<Rightarrow> (pystr list \<Rightarrow> 'f ndarray res) \<Rightarrow> semantic_identity \<Rightarrow> pystr list \<Rightarrow> 'f ndarray res" where
  "model2vec_encode np model identity texts =
     (case model texts of Inl _ \<Rightarrow> Inl EmbeddingError
      | Inr a \<Rightarrow> (let raw = nd_float32 np a
                 in ebind (validate_vectors np raw (si_dimension identity)) (\<lambda>_. Inr (normalize_rows np raw))))"

definition model2vec_embed_documents ::
    "'f::linorder numpy \<Rightarrow> (pystr list \<Rightarrow> 'f ndarray res) \<Rightarrow> semantic_identity \<Rightarrow> pystr list \<Rightarrow> 'f ndarray res" where
  "model2vec_embed_documents np model identity texts =
     (if texts = [] then Inr \<lparr>nd_shape = [0, si_dimension identity], nd_data = []\<rparr>
      else model2vec_encode np model identity texts)"

text \<open>\<open>array[0]\<close>: the first row; an array without rows raises \<open>IndexError\<close>.\<close>

definition nd_first :: "'f ndarray \<Rightarrow> 'f ndarray res" where
  "nd_first a = (case nd_shape a of [] \<Rightarrow> Inl IndexError
     | n # sh \<Rightarrow> if n = 0 then Inl IndexError
                else Inr \<lparr>nd_shape = sh, nd_data = take (prod_list sh) (nd_data a)\<rparr>)"

definition model2vec_embed_query ::
    "'f::linorder numpy \<Rightarrow> (pystr list \<Rightarrow> 'f ndarray res) \<Rightarrow> semantic_identity \<Rightarrow> pystr \<Rightarrow> 'f ndarray res" where
  "model2vec_embed_query np model identity t =
     ebind (model2vec_encode np model identity [t]) (\<lambda>a. ebind (nd_first a) (\<lambda>v. Inr (nd_float32 np v)))"

definition model2vec_embedder ::
    "'f::linorder numpy \<Rightarrow> (pystr list \<Rightarrow> 'f ndarray res) \<Rightarrow> semantic_identity \<Rightarrow> 'f embedder" where
  "model2vec_embedder np model identity =
     \<lparr>em_identity = identity,
      em_embed_documents = model2vec_embed_documents np model identity,
      em_embed_query = model2vec_embed_query np model identity\<rparr>"

text \<open>
  \<open>load\<close>: importing the two packages, fetching the snapshot and loading the model are third-party
  code; \<open>fetch\<close> is what they give for a model and a revision, the model and its dimension.
\<close>

definition model2vec_load ::
    "'f::linorder numpy \<Rightarrow> (pystr \<Rightarrow> pystr \<Rightarrow> ((pystr list \<Rightarrow> 'f ndarray res) \<times> nat) option) \<Rightarrow> pystr \<Rightarrow> pystr \<Rightarrow> 'f embedder res" where
  "model2vec_load np fetch model_id revision =
     (case fetch model_id revision of None \<Rightarrow> Inl EmbeddingError
      | Some (model, width) \<Rightarrow> Inr (model2vec_embedder np model
          \<lparr>si_implementation = ustr ''model2vec'', si_model_id = model_id, si_model_revision = revision,
           si_dimension = width, si_normalization = ustr ''l2''\<rparr>))"

section \<open>What the adapter returns\<close>

text \<open>An array of the shape \<open>(n, dimension)\<close> whose number of elements fits it.\<close>

definition matrix_of_shape :: "'f ndarray \<Rightarrow> nat \<Rightarrow> nat \<Rightarrow> bool" where
  "matrix_of_shape a n w \<longleftrightarrow> nd_shape a = [n, w] \<and> length (nd_data a) = n * w"

lemma chunks_sizes:
  "length xs = n * w \<Longrightarrow> length (chunks n w xs) = n \<and> (\<forall>r\<in>set (chunks n w xs). length r = w) \<and> concat (chunks n w xs) = xs"
proof (induction n arbitrary: xs)
  case (Suc n)
  from Suc.prems have d: "length (drop w xs) = n * w" and t: "length (take w xs) = w" by simp_all
  note ih = Suc.IH [OF d]
  have "length (chunks (Suc n) w xs) = Suc n" using ih by simp
  moreover have "\<forall>r\<in>set (chunks (Suc n) w xs). length r = w" using ih t by auto
  moreover have "concat (chunks (Suc n) w xs) = xs" using ih by simp
  ultimately show ?case by blast
qed simp

lemma length_concat_same: "\<forall>r\<in>set rs. length r = w \<Longrightarrow> length (concat rs) = length rs * w"
  by (induction rs) auto

lemma normalize_row_length [simp]: "length (normalize_row np row) = length row"
  by (simp add: normalize_row_def Let_def)

lemma normalize_rows_shape:
  assumes "matrix_of_shape a n w"
  shows "matrix_of_shape (normalize_rows np a) n w"
proof -
  have "length (nd_data a) = n * w" using assms by (simp add: matrix_of_shape_def)
  from chunks_sizes [OF this] have "length (concat (map (normalize_row np) (chunks n w (nd_data a)))) = n * w"
    by (subst length_concat_same [where w = w]) auto
  with assms show ?thesis by (simp add: matrix_of_shape_def normalize_rows_def)
qed

lemma validate_vectors_Inr:
  "validate_vectors np a w = Inr () \<longleftrightarrow> (\<exists>n. nd_shape a = [n, w]) \<and> list_all (np_isfinite np) (nd_data a)"
proof -
  have "length xs = 2 \<and> xs ! 1 = w \<longleftrightarrow> (\<exists>n. xs = [n, w])" for xs :: "nat list"
    by (cases xs rule: list.exhaust; cases "tl xs"; cases "tl (tl xs)") auto
  then show ?thesis by (auto simp: validate_vectors_def)
qed

section \<open>Properties\<close>

lemma real_norm_scale:
  "0 < (c::real) \<Longrightarrow> np_norm real_numpy (map (\<lambda>x. x / c) row) = np_norm real_numpy row / c"
proof -
  assume c: "0 < c"
  have "sum_list (map (\<lambda>x. (x / c)\<^sup>2) row) = sum_list (map (\<lambda>x. x\<^sup>2) row) / c\<^sup>2"
    by (induction row) (simp_all add: power_divide add_divide_distrib)
  then show ?thesis using c by (simp add: real_numpy_def comp_def real_sqrt_divide)
qed

lemma normalize_row_unit:
  "np_norm real_numpy (normalize_row real_numpy row) = (if list_all (\<lambda>x. x = 0) row then 0 else 1)"
proof -
  have nn: "0 \<le> sum_list (map (\<lambda>x. x\<^sup>2) (row :: real list))" by (induction row) auto
  have "sum_list (map (\<lambda>x. x\<^sup>2) row) = 0 \<longleftrightarrow> list_all (\<lambda>x. x = 0) (row :: real list)"
  proof (induction row)
    case (Cons x row)
    have "0 \<le> sum_list (map (\<lambda>x. x\<^sup>2) row)" by (induction row) auto
    then show ?case using Cons by (simp add: add_nonneg_eq_0_iff)
  qed simp
  then have zero: "np_norm real_numpy row = 0 \<longleftrightarrow> list_all (\<lambda>x. x = 0) row" by (simp add: real_numpy_def)
  have lit: "np_lit real_numpy 0 = 0" "np_lit real_numpy 1 = 1" "np_float32 real_numpy = (\<lambda>x. x)" "np_div real_numpy = (/)"
    by (simp_all add: real_numpy_def)
  have pos: "0 \<le> np_norm real_numpy row" using nn by (simp add: real_numpy_def)
  show ?thesis
  proof (cases "np_norm real_numpy row = 0")
    case True
    then show ?thesis using zero by (simp add: normalize_row_def lit)
  next
    case False
    then have "0 < np_norm real_numpy row" using pos by simp
    from real_norm_scale [OF this, of row] False zero show ?thesis by (simp add: normalize_row_def lit)
  qed
qed

text \<open>Normalisation in exact arithmetic: every row of an array keeps its place and width, a row that is
  not zero gets length 1, and a zero row stays zero.\<close>

lemma normalize_rows_unit:
  assumes "matrix_of_shape a n w"
  shows "matrix_of_shape (normalize_rows real_numpy a) n w
    \<and> (\<forall>r\<in>set (map (normalize_row real_numpy) (chunks n w (nd_data a))). np_norm real_numpy r \<in> {0, 1})
    \<and> nd_data (normalize_rows real_numpy a) = concat (map (normalize_row real_numpy) (chunks n w (nd_data a)))"
proof -
  have "nd_shape a = [n, w]" using assms by (simp add: matrix_of_shape_def)
  then have "nd_data (normalize_rows real_numpy a) = concat (map (normalize_row real_numpy) (chunks n w (nd_data a)))"
    by (simp add: normalize_rows_def)
  then show ?thesis using normalize_rows_shape [OF assms] by (simp add: normalize_row_unit)
qed

text \<open>\<open>s\<close> is the row \<open>r\<close> scaled to length 1; a zero row is left alone.\<close>

definition unit_row :: "real list \<Rightarrow> real list \<Rightarrow> bool" where
  "unit_row r s \<longleftrightarrow> (if list_all (\<lambda>x. x = 0) r then s = r
     else np_norm real_numpy s = 1 \<and> map (\<lambda>x. np_norm real_numpy r * x) s = r)"

definition array_rows :: "'f ndarray \<Rightarrow> 'f list list" where
  "array_rows a = chunks (nd_shape a ! 0) (nd_shape a ! 1) (nd_data a)"

text \<open>Exact arithmetic with any notion of a finite element.\<close>

definition exact_numpy :: "(real \<Rightarrow> bool) \<Rightarrow> real numpy" where
  "exact_numpy fin = real_numpy\<lparr>np_isfinite := fin\<rparr>"

lemma normalize_row_scaled: "unit_row row (normalize_row real_numpy row)"
proof (cases "np_norm real_numpy row = 0")
  case True
  then have "normalize_row real_numpy row = row" by (simp add: normalize_row_def real_numpy_def)
  moreover from this True have "list_all (\<lambda>x. x = 0) row" using normalize_row_unit [of row] by (simp split: if_splits)
  ultimately show ?thesis by (simp add: unit_row_def)
next
  case False
  then have s: "normalize_row real_numpy row = map (\<lambda>x. x / np_norm real_numpy row) row"
    by (simp add: normalize_row_def real_numpy_def)
  have "map (\<lambda>x. np_norm real_numpy row * x) (normalize_row real_numpy row) = row" using False by (simp add: s map_idI)
  moreover have "\<not> list_all (\<lambda>x. x = 0) row"
  proof
    assume "list_all (\<lambda>x. x = 0) row"
    then have "sum_list (map (\<lambda>x. x\<^sup>2) row) = 0" by (induction row) simp_all
    with False show False by (simp add: real_numpy_def)
  qed
  ultimately show ?thesis using normalize_row_unit [of row] by (simp add: unit_row_def)
qed

lemma exact_normalize: "normalize_rows (exact_numpy fin) = normalize_rows real_numpy"
proof -
  have "normalize_row (exact_numpy fin) = normalize_row real_numpy"
    by (rule ext) (simp add: normalize_row_def Let_def exact_numpy_def real_numpy_def)
  then show ?thesis by (simp add: normalize_rows_def [abs_def])
qed

lemma chunks_concat: "\<forall>r\<in>set rs. length r = w \<Longrightarrow> chunks (length rs) w (concat rs) = rs"
  by (induction rs) auto

lemma normalize_array_rows:
  assumes "matrix_of_shape a n w"
  shows "array_rows (normalize_rows real_numpy a) = map (normalize_row real_numpy) (array_rows a)"
proof -
  have a: "nd_shape a = [n, w]" "length (nd_data a) = n * w" using assms by (simp_all add: matrix_of_shape_def)
  note c = chunks_sizes [OF a(2)]
  have "chunks (length (chunks n w (nd_data a))) w (concat (map (normalize_row real_numpy) (chunks n w (nd_data a))))
      = map (normalize_row real_numpy) (chunks n w (nd_data a))"
    using chunks_concat [of "map (normalize_row real_numpy) (chunks n w (nd_data a))" w] c by simp
  then show ?thesis using a(1) c by (simp add: array_rows_def normalize_rows_def)
qed

lemma normalize_rows_scaled:
  assumes "matrix_of_shape a n w"
  shows "list_all2 unit_row (array_rows a) (array_rows (normalize_rows real_numpy a))"
  by (simp add: normalize_array_rows [OF assms] list_all2_map2 list_all2_conv_all_nth normalize_row_scaled)

lemma first_array_row: "nd_shape a = [Suc n, w] \<Longrightarrow> array_rows a = take w (nd_data a) # chunks n w (drop w (nd_data a))"
  by (simp add: array_rows_def)

text \<open>What \<open>_encode\<close> makes of the model's answer, in exact arithmetic.\<close>

lemma encode_cases:
  assumes "\<And>a. model texts = Inr a \<Longrightarrow> length (nd_data a) = prod_list (nd_shape a)"
  shows "case model texts of
      Inl _ \<Rightarrow> model2vec_encode (exact_numpy fin) model identity texts = Inl EmbeddingError
    | Inr a \<Rightarrow> if (\<exists>n. nd_shape a = [n, si_dimension identity]) \<and> list_all fin (nd_data a)
        then (\<exists>b. model2vec_encode (exact_numpy fin) model identity texts = Inr b \<and> nd_shape b = nd_shape a
            \<and> length (nd_data b) = length (nd_data a) \<and> list_all2 unit_row (array_rows a) (array_rows b))
        else model2vec_encode (exact_numpy fin) model identity texts = Inl EmbeddingError"
proof (cases "model texts")
  case (Inr a)
  let ?w = "si_dimension identity"
  have f: "nd_float32 (exact_numpy fin) a = a" "np_isfinite (exact_numpy fin) = fin"
    by (simp_all add: nd_float32_def exact_numpy_def real_numpy_def)
  have enc: "model2vec_encode (exact_numpy fin) model identity texts =
      ebind (validate_vectors (exact_numpy fin) a ?w) (\<lambda>_. Inr (normalize_rows real_numpy a))"
    by (simp add: model2vec_encode_def Inr f exact_normalize)
  show ?thesis
  proof (cases "(\<exists>n. nd_shape a = [n, ?w]) \<and> list_all fin (nd_data a)")
    case True
    then obtain n where n: "nd_shape a = [n, ?w]" by blast
    then have m: "matrix_of_shape a n ?w" using assms [OF Inr] by (simp add: matrix_of_shape_def)
    have "validate_vectors (exact_numpy fin) a ?w = Inr ()" using True by (simp add: validate_vectors_Inr f)
    then show ?thesis using True Inr enc normalize_rows_scaled [OF m] normalize_rows_shape [OF m, of real_numpy] m
      by (auto simp: matrix_of_shape_def)
  next
    case False
    then have "validate_vectors (exact_numpy fin) a ?w \<noteq> Inr ()" by (simp add: validate_vectors_Inr f)
    then have "validate_vectors (exact_numpy fin) a ?w = Inl EmbeddingError"
      by (auto simp: validate_vectors_def split: if_splits)
    then show ?thesis using False Inr enc by auto
  qed
qed (simp add: model2vec_encode_def)

text \<open>C28. The adapter enforces its contract on whatever the model returns, in exact arithmetic and for any
  notion of a finite element. Embedding no texts gives no rows. Otherwise, if the model returns a finite
  matrix of the advertised width, the result has the same shape, so a row per text if the model gave one per
  text, and every row is the model's row scaled to length 1 (a zero row stays zero); anything else, and any
  exception of the model, raises \<open>EmbeddingError\<close>. A query embeds as the model's first row scaled to length 1;
  only if the model returned no row at all it raises \<open>IndexError\<close>.\<close>

theorem model2vec_contract:
  assumes "\<forall>texts a. model texts = Inr a \<longrightarrow> length (nd_data a) = prod_list (nd_shape a)"
  shows "em_embed_documents (model2vec_embedder (exact_numpy fin) model identity) [] = Inr \<lparr>nd_shape = [0, si_dimension identity], nd_data = []\<rparr>
    \<and> (texts \<noteq> [] \<longrightarrow> (case model texts of
          Inl _ \<Rightarrow> em_embed_documents (model2vec_embedder (exact_numpy fin) model identity) texts = Inl EmbeddingError
        | Inr a \<Rightarrow> if (\<exists>n. nd_shape a = [n, si_dimension identity]) \<and> list_all fin (nd_data a)
            then (\<exists>b. em_embed_documents (model2vec_embedder (exact_numpy fin) model identity) texts = Inr b \<and> nd_shape b = nd_shape a
                \<and> length (nd_data b) = length (nd_data a) \<and> list_all2 unit_row (array_rows a) (array_rows b))
            else em_embed_documents (model2vec_embedder (exact_numpy fin) model identity) texts = Inl EmbeddingError))
    \<and> (case model [t] of
          Inl _ \<Rightarrow> em_embed_query (model2vec_embedder (exact_numpy fin) model identity) t = Inl EmbeddingError
        | Inr a \<Rightarrow> if \<not> ((\<exists>n. nd_shape a = [n, si_dimension identity]) \<and> list_all fin (nd_data a))
            then em_embed_query (model2vec_embedder (exact_numpy fin) model identity) t = Inl EmbeddingError
            else if array_rows a = [] then em_embed_query (model2vec_embedder (exact_numpy fin) model identity) t = Inl IndexError
            else (\<exists>v. em_embed_query (model2vec_embedder (exact_numpy fin) model identity) t = Inr v
                \<and> nd_shape v = [si_dimension identity] \<and> unit_row (hd (array_rows a)) (nd_data v)))"
proof -
  let ?em = "model2vec_embedder (exact_numpy fin) model identity" and ?enc = "model2vec_encode (exact_numpy fin) model identity"
  let ?w = "si_dimension identity"
  have wf: "length (nd_data a) = prod_list (nd_shape a)" if "model ts = Inr a" for ts a using assms that by blast
  have docs: "em_embed_documents ?em texts = ?enc texts" if "texts \<noteq> []"
    using that by (simp add: model2vec_embedder_def model2vec_embed_documents_def)
  have query: "em_embed_query ?em t = ebind (?enc [t]) (\<lambda>a. ebind (nd_first a) (\<lambda>v. Inr v))"
    by (simp add: model2vec_embedder_def model2vec_embed_query_def nd_float32_def exact_numpy_def real_numpy_def)
  have q: "em_embed_query ?em t = (if array_rows a = [] then Inl IndexError else Inr \<lparr>nd_shape = [?w], nd_data = hd (array_rows b)\<rparr>)
      \<and> (array_rows a \<noteq> [] \<longrightarrow> unit_row (hd (array_rows a)) (hd (array_rows b)))"
    if "nd_shape a = [n, ?w]" "?enc [t] = Inr b" "nd_shape b = nd_shape a" "list_all2 unit_row (array_rows a) (array_rows b)" for a b n
  proof (cases n)
    case 0
    then show ?thesis using that by (simp add: query nd_first_def array_rows_def)
  next
    case (Suc m)
    then show ?thesis using that first_array_row [of a m ?w] first_array_row [of b m ?w]
      by (simp add: query nd_first_def)
  qed
  have "em_embed_documents ?em [] = Inr \<lparr>nd_shape = [0, ?w], nd_data = []\<rparr>"
    by (simp add: model2vec_embedder_def model2vec_embed_documents_def)
  moreover have "texts \<noteq> [] \<longrightarrow> (case model texts of Inl _ \<Rightarrow> em_embed_documents ?em texts = Inl EmbeddingError
        | Inr a \<Rightarrow> if (\<exists>n. nd_shape a = [n, ?w]) \<and> list_all fin (nd_data a)
            then (\<exists>b. em_embed_documents ?em texts = Inr b \<and> nd_shape b = nd_shape a
                \<and> length (nd_data b) = length (nd_data a) \<and> list_all2 unit_row (array_rows a) (array_rows b))
            else em_embed_documents ?em texts = Inl EmbeddingError)"
  proof
    assume "texts \<noteq> []"
    then show "case model texts of Inl _ \<Rightarrow> em_embed_documents ?em texts = Inl EmbeddingError
        | Inr a \<Rightarrow> if (\<exists>n. nd_shape a = [n, ?w]) \<and> list_all fin (nd_data a)
            then (\<exists>b. em_embed_documents ?em texts = Inr b \<and> nd_shape b = nd_shape a
                \<and> length (nd_data b) = length (nd_data a) \<and> list_all2 unit_row (array_rows a) (array_rows b))
            else em_embed_documents ?em texts = Inl EmbeddingError"
      unfolding docs [OF \<open>texts \<noteq> []\<close>] by (intro encode_cases wf)
  qed
  moreover have "case model [t] of Inl _ \<Rightarrow> em_embed_query ?em t = Inl EmbeddingError
        | Inr a \<Rightarrow> if \<not> ((\<exists>n. nd_shape a = [n, ?w]) \<and> list_all fin (nd_data a)) then em_embed_query ?em t = Inl EmbeddingError
            else if array_rows a = [] then em_embed_query ?em t = Inl IndexError
            else (\<exists>v. em_embed_query ?em t = Inr v \<and> nd_shape v = [?w] \<and> unit_row (hd (array_rows a)) (nd_data v))"
    using encode_cases [of model "[t]" fin identity, OF wf] q by (cases "model [t]") (fastforce simp: query split: if_splits)+
  ultimately show ?thesis by blast
qed

text \<open>A model that embeds a text as its length.\<close>

definition length_model :: "pystr list \<Rightarrow> real ndarray res" where
  "length_model texts = Inr \<lparr>nd_shape = [length texts, 1], nd_data = map (\<lambda>t. of_nat (length t)) texts\<rparr>"

definition narrow_identity :: semantic_identity where
  "narrow_identity =
     \<lparr>si_implementation = [], si_model_id = [], si_model_revision = [], si_dimension = 1, si_normalization = []\<rparr>"

theorem model2vec_contract_witness:
  "(\<exists>b. em_embed_documents (model2vec_embedder (exact_numpy (\<lambda>_. True)) length_model narrow_identity) [ustr ''ab''] = Inr b
      \<and> nd_shape b = [1, 1] \<and> array_rows b = [[1]])
   \<and> (\<exists>v. em_embed_query (model2vec_embedder (exact_numpy (\<lambda>_. True)) length_model narrow_identity) (ustr ''ab'') = Inr v \<and> nd_data v = [1])"
proof -
  let ?em = "model2vec_embedder (exact_numpy (\<lambda>_. True)) length_model narrow_identity" and ?ab = "ustr ''ab''"
  let ?a = "\<lparr>nd_shape = [1, 1], nd_data = [2::real]\<rparr>"
  have "\<forall>texts a. length_model texts = Inr a \<longrightarrow> length (nd_data a) = prod_list (nd_shape a)" by (auto simp: length_model_def)
  note c = model2vec_contract [OF this, of "\<lambda>_. True" narrow_identity "[?ab]" ?ab]
  have m: "length_model [?ab] = Inr ?a" "si_dimension narrow_identity = 1"
    by (simp_all add: length_model_def narrow_identity_def ustr_def)
  have rows: "array_rows ?a = [[2]]" by (simp add: array_rows_def)
  have two: "s = [1]" if "unit_row [2] s" for s using that by (auto simp: unit_row_def real_numpy_def)
  have good: "(\<exists>n. nd_shape ?a = [n, si_dimension narrow_identity]) \<and> list_all (\<lambda>_. True) (nd_data ?a)" by (simp add: m)
  from c good obtain b where b: "em_embed_documents ?em [?ab] = Inr b" "nd_shape b = [1, 1]" "list_all2 unit_row [[2]] (array_rows b)"
    by (simp only: m(1) sum.case rows) auto
  from c good obtain v where v: "em_embed_query ?em ?ab = Inr v" "unit_row [2] (nd_data v)"
    by (simp only: m(1) sum.case rows) auto
  from b(3) have "array_rows b = [[1]]" using two by (auto simp: list_all2_Cons1)
  with b v two show ?thesis by blast
qed

end
