(* ===== verification/Vector_Index.thy ===== *)
theory Vector_Index
  imports Interfaces Embedder
begin

text \<open>
  \<open>app/semantic/vector_index.py\<close>: the exact vector index. The state is the list of identifiers, their
  row positions and the backing matrix with its spare rows; removal swaps the last live row into the
  hole. \<open>vec_repr\<close> says which finite map from identifiers to vectors an index stands for; adding,
  removing and growing implement updates of that map, and \<open>search\<close> returns the top of its ranking.
\<close>

section \<open>Definitions\<close>

record 'f scored_document =
  sd_document_id :: pystr
  sd_score :: 'f

text \<open>A 2-D array: its width (\<open>shape[1]\<close>) and its rows.\<close>

record 'f matrix =
  mx_width :: nat
  mx_rows :: "'f list list"

record 'f vector_index =
  vi_dimension :: nat
  vi_ids :: "pystr list"
  vi_positions :: "(pystr, nat) dict"
  vi_matrix :: "'f matrix"

definition initial_capacity :: nat where
  "initial_capacity = 64"

definition np_zeros :: "'f numpy \<Rightarrow> nat \<Rightarrow> nat \<Rightarrow> 'f matrix" where
  "np_zeros np rows width = \<lparr>mx_width = width, mx_rows = replicate rows (replicate width (np_lit np 0))\<rparr>"

text \<open>\<open>matrix[position] = row\<close>: a row of one element is broadcast, any other width mismatch raises.\<close>

definition mx_set :: "nat \<Rightarrow> 'f list \<Rightarrow> 'f matrix \<Rightarrow> 'f matrix res" where
  "mx_set position row m =
     (if length (mx_rows m) \<le> position then Inl IndexError
      else if length row = mx_width m then Inr (m\<lparr>mx_rows := (mx_rows m)[position := row]\<rparr>)
      else if length row = 1 then Inr (m\<lparr>mx_rows := (mx_rows m)[position := replicate (mx_width m) (hd row)]\<rparr>)
      else Inl ValueError)"

definition vec_init :: "'f numpy \<Rightarrow> int \<Rightarrow> 'f vector_index res" where
  "vec_init np dimension =
     (if dimension < 1 then Inl ValueError
      else Inr \<lparr>vi_dimension = nat dimension, vi_ids = [], vi_positions = [],
                vi_matrix = np_zeros np initial_capacity (nat dimension)\<rparr>)"

definition vec_count :: "'f vector_index \<Rightarrow> int" where
  "vec_count ix = int (length (vi_ids ix))"

definition vec_contains :: "'f vector_index \<Rightarrow> pystr \<Rightarrow> bool" where
  "vec_contains ix d \<longleftrightarrow> dhas (vi_positions ix) d"

definition vec_vector_for :: "'f vector_index \<Rightarrow> pystr \<Rightarrow> 'f list res" where
  "vec_vector_for ix d =
     ebind (dget_item (vi_positions ix) d) (\<lambda>position.
       if position < length (mx_rows (vi_matrix ix)) then Inr (mx_rows (vi_matrix ix) ! position) else Inl IndexError)"

definition vec_document_ids :: "'f vector_index \<Rightarrow> pystr set" where
  "vec_document_ids ix = set (dkeys (vi_positions ix))"

text \<open>\<open>_validate\<close>: the vector as \<open>float32\<close>.\<close>

definition vec_check :: "'f numpy \<Rightarrow> nat \<Rightarrow> 'f ndarray \<Rightarrow> 'f list res" where
  "vec_check np dimension vector =
     (let checked = nd_float32 np vector
      in if nd_ndim checked \<noteq> 1 then Inl VectorIndexError
         else if nd_shape checked ! 0 \<noteq> dimension then Inl VectorIndexError
         else if \<not> list_all (np_isfinite np) (nd_data checked) then Inl VectorIndexError
         else Inr (nd_data checked))"

definition vec_grow_if_needed :: "'f numpy \<Rightarrow> nat \<Rightarrow> 'f vector_index \<Rightarrow> 'f vector_index" where
  "vec_grow_if_needed np required ix =
     (let capacity = length (mx_rows (vi_matrix ix))
      in if required \<le> capacity then ix
         else let new_capacity = max required (capacity * 2);
                  grown = np_zeros np new_capacity (vi_dimension ix)
              in ix\<lparr>vi_matrix := grown\<lparr>mx_rows := mx_rows (vi_matrix ix) @ drop capacity (mx_rows grown)\<rparr>\<rparr>)"

text \<open>The last line of \<open>add\<close>: writing the row.\<close>

definition vec_set_row :: "nat \<Rightarrow> 'f list \<Rightarrow> ('f vector_index, unit) st" where
  "vec_set_row position row ix =
     (case mx_set position row (vi_matrix ix) of Inl e \<Rightarrow> (Inl e, ix) | Inr m \<Rightarrow> (Inr (), ix\<lparr>vi_matrix := m\<rparr>))"

definition vec_add :: "'f numpy \<Rightarrow> pystr \<Rightarrow> 'f ndarray \<Rightarrow> ('f vector_index, unit) st" where
  "vec_add np d vector ix =
     (case vec_check np (vi_dimension ix) vector of Inl e \<Rightarrow> (Inl e, ix)
      | Inr checked \<Rightarrow>
         (case map_of (vi_positions ix) d of
            None \<Rightarrow>
              (let position = length (vi_ids ix);
                   ix1 = vec_grow_if_needed np (position + 1) ix;
                   ix2 = ix1\<lparr>vi_ids := vi_ids ix1 @ [d], vi_positions := AList.update d position (vi_positions ix1)\<rparr>
               in vec_set_row position checked ix2)
          | Some position \<Rightarrow> vec_set_row position checked ix))"

text \<open>
  \<open>remove\<close>. With no live row left (which the invariant excludes) \<open>last\<close> is \<open>-1\<close> and
  \<open>self._ids[last]\<close> raises after the row has been overwritten.
\<close>

definition vec_remove :: "pystr \<Rightarrow> ('f vector_index, bool) st" where
  "vec_remove d ix =
     (case map_of (vi_positions ix) d of
        None \<Rightarrow> (Inr False, ix)
      | Some position \<Rightarrow>
          (let ix1 = ix\<lparr>vi_positions := AList.delete d (vi_positions ix)\<rparr>;
               final = (if vi_ids ix = [] then length (mx_rows (vi_matrix ix)) - 1 else length (vi_ids ix) - 1)
           in if vi_ids ix \<noteq> [] \<and> position = final
              then (Inr True, ix1\<lparr>vi_ids := butlast (vi_ids ix1)\<rparr>)
              else if length (mx_rows (vi_matrix ix)) \<le> final then (Inl IndexError, ix1)
              else case vec_set_row position (mx_rows (vi_matrix ix) ! final) ix1 of
                  (Inl e, ix2) \<Rightarrow> (Inl e, ix2)
                | (Inr _, ix2) \<Rightarrow>
                    if vi_ids ix = [] \<or> length (vi_ids ix) \<le> position then (Inl IndexError, ix2)
                    else let moved = vi_ids ix ! final;
                             ix3 = ix2\<lparr>vi_ids := (vi_ids ix2)[position := moved],
                                       vi_positions := AList.update moved position (vi_positions ix2)\<rparr>
                         in (Inr True, ix3\<lparr>vi_ids := butlast (vi_ids ix3)\<rparr>)))"

definition vec_clear :: "'f numpy \<Rightarrow> 'f vector_index \<Rightarrow> 'f vector_index" where
  "vec_clear np ix =
     ix\<lparr>vi_ids := [], vi_positions := [], vi_matrix := np_zeros np initial_capacity (vi_dimension ix)\<rparr>"

text \<open>
  \<open>search\<close>. \<open>zip(..., strict=True)\<close> raises if the matrix has fewer rows than there are identifiers.
\<close>

definition vec_search ::
    "'f::linorder numpy \<Rightarrow> 'f vector_index \<Rightarrow> 'f ndarray \<Rightarrow> int \<Rightarrow> 'f scored_document list res" where
  "vec_search np ix query limit =
     (if limit < 1 then Inl ValueError
      else if vi_ids ix = [] then Inr []
      else ebind (vec_check np (vi_dimension ix) query) (\<lambda>checked.
        let scores = map (\<lambda>row. np_dot np row checked) (take (length (vi_ids ix)) (mx_rows (vi_matrix ix)))
        in if length scores \<noteq> length (vi_ids ix) then Inl ValueError
           else Inr (map (\<lambda>(d, s). \<lparr>sd_document_id = d, sd_score = s\<rparr>)
                  (py_take limit (sort_key by_rank (zip (vi_ids ix) scores))))))"

text \<open>\<open>validate\<close>, check by check; \<open>_NORM_TOLERANCE\<close> is \<open>1e-3\<close>.\<close>

definition vec_row_offends :: "'f::linorder numpy \<Rightarrow> 'f list \<Rightarrow> bool" where
  "vec_row_offends np row \<longleftrightarrow>
     np_norm np row \<noteq> np_lit np 0 \<and> np_lit np (1 / 1000) < np_abs_diff np (np_norm np row) (np_lit np 1)"

definition vec_validate :: "'f::linorder numpy \<Rightarrow> 'f vector_index \<Rightarrow> unit res" where
  "vec_validate np ix =
     (let live = take (length (vi_ids ix)) (mx_rows (vi_matrix ix))
      in if length (vi_ids ix) \<noteq> length (vi_positions ix) then Inl VectorIndexError
         else if list_ex (\<lambda>(position, d). map_of (vi_positions ix) d \<noteq> Some position) (enumerate 0 (vi_ids ix))
         then Inl VectorIndexError
         else if mx_width (vi_matrix ix) \<noteq> vi_dimension ix then Inl VectorIndexError
         else if \<not> list_all (list_all (np_isfinite np)) live then Inl VectorIndexError
         else if list_ex (vec_row_offends np) live then Inl VectorIndexError
         else Inr ())"

section \<open>Which vectors an index holds\<close>

definition vec_shape :: "'f vector_index \<Rightarrow> bool" where
  "vec_shape ix \<longleftrightarrow> dict_ok (vi_positions ix) \<and> mx_width (vi_matrix ix) = vi_dimension ix
     \<and> (\<forall>r\<in>set (mx_rows (vi_matrix ix)). length r = vi_dimension ix)"

definition vec_repr :: "nat \<Rightarrow> 'f vector_index \<Rightarrow> (pystr \<rightharpoonup> 'f list) \<Rightarrow> bool" where
  "vec_repr w ix V \<longleftrightarrow> vec_shape ix \<and> vi_dimension ix = w
     \<and> distinct (vi_ids ix) \<and> length (vi_ids ix) \<le> length (mx_rows (vi_matrix ix))
     \<and> (\<forall>d p. map_of (vi_positions ix) d = Some p \<longleftrightarrow> p < length (vi_ids ix) \<and> vi_ids ix ! p = d)
     \<and> V = (\<lambda>d. map_option (\<lambda>p. mx_rows (vi_matrix ix) ! p) (map_of (vi_positions ix) d))"

text \<open>The vectors the index accepts, and what it stores for them.\<close>

definition vec_ok :: "'f numpy \<Rightarrow> nat \<Rightarrow> 'f ndarray \<Rightarrow> bool" where
  "vec_ok np w v \<longleftrightarrow> nd_shape v = [w] \<and> length (nd_data v) = w
     \<and> list_all (\<lambda>x. np_isfinite np (np_float32 np x)) (nd_data v)"

definition vec_val :: "'f numpy \<Rightarrow> 'f ndarray \<Rightarrow> 'f list" where
  "vec_val np v = map (np_float32 np) (nd_data v)"

definition vec_empty :: "'f numpy \<Rightarrow> nat \<Rightarrow> 'f vector_index" where
  "vec_empty np w = \<lparr>vi_dimension = w, vi_ids = [], vi_positions = [], vi_matrix = np_zeros np initial_capacity w\<rparr>"

lemma vec_reprD:
  assumes "vec_repr w ix V"
  shows "dict_ok (vi_positions ix)" "mx_width (vi_matrix ix) = w" "vi_dimension ix = w"
    "r \<in> set (mx_rows (vi_matrix ix)) \<Longrightarrow> length r = w"
    "distinct (vi_ids ix)" "length (vi_ids ix) \<le> length (mx_rows (vi_matrix ix))"
    "map_of (vi_positions ix) d = Some p \<longleftrightarrow> p < length (vi_ids ix) \<and> vi_ids ix ! p = d"
    "V d = map_option (\<lambda>p. mx_rows (vi_matrix ix) ! p) (map_of (vi_positions ix) d)"
  using assms unfolding vec_repr_def vec_shape_def by simp_all

lemma vec_reprI:
  assumes "dict_ok (vi_positions ix)" "mx_width (vi_matrix ix) = w" "vi_dimension ix = w"
    "\<And>r. r \<in> set (mx_rows (vi_matrix ix)) \<Longrightarrow> length r = w"
    "distinct (vi_ids ix)" "length (vi_ids ix) \<le> length (mx_rows (vi_matrix ix))"
    "\<And>d p. map_of (vi_positions ix) d = Some p \<longleftrightarrow> p < length (vi_ids ix) \<and> vi_ids ix ! p = d"
    "\<And>d. V d = map_option (\<lambda>p. mx_rows (vi_matrix ix) ! p) (map_of (vi_positions ix) d)"
  shows "vec_repr w ix V"
  using assms unfolding vec_repr_def vec_shape_def by auto

lemma vec_check_ok: "vec_ok np w v \<Longrightarrow> vec_check np w v = Inr (vec_val np v)"
  by (simp add: vec_ok_def vec_check_def vec_val_def nd_float32_def list_all_length)

lemma vec_val_length: "vec_ok np w v \<Longrightarrow> length (vec_val np v) = w"
  by (simp add: vec_ok_def vec_val_def)

lemma vec_empty_repr: "vec_repr w (vec_empty np w) Map.empty"
  by (rule vec_reprI) (auto simp: vec_empty_def np_zeros_def)

lemma vec_set_row_ok:
  assumes "length row = w" "mx_width (vi_matrix ix) = w" "p < length (mx_rows (vi_matrix ix))"
  shows "vec_set_row p row ix = (Inr (), ix\<lparr>vi_matrix := (vi_matrix ix)\<lparr>mx_rows := (mx_rows (vi_matrix ix))[p := row]\<rparr>\<rparr>)"
  using assms by (simp add: vec_set_row_def mx_set_def)

lemma length_nth_update: "r \<in> set (xs[p := x]) \<Longrightarrow> length x = w \<Longrightarrow> (\<And>y. y \<in> set xs \<Longrightarrow> length y = w) \<Longrightarrow> length r = w"
  using set_update_subset_insert by fastforce

lemma vec_replace_row:
  assumes r: "vec_repr w ix V" and p: "map_of (vi_positions ix) d = Some p" and row: "length row = w"
  shows "\<exists>ix'. vec_set_row p row ix = (Inr (), ix') \<and> vec_repr w ix' (V(d \<mapsto> row))"
proof -
  note D = vec_reprD [OF r]
  have pl: "p < length (vi_ids ix)" "vi_ids ix ! p = d" using p D(7) by auto
  have rows: "p < length (mx_rows (vi_matrix ix))" using pl D(6) by simp
  let ?ix = "ix\<lparr>vi_matrix := (vi_matrix ix)\<lparr>mx_rows := (mx_rows (vi_matrix ix))[p := row]\<rparr>\<rparr>"
  have "vec_repr w ?ix (V(d \<mapsto> row))"
  proof (rule vec_reprI)
    fix r assume "r \<in> set (mx_rows (vi_matrix ?ix))"
    then show "length r = w" using length_nth_update [OF _ row D(4)] by simp
  next
    fix e
    have "q \<noteq> p" if "map_of (vi_positions ix) e = Some q" "e \<noteq> d" for q
      using that D(7) pl by auto
    then show "(V(d \<mapsto> row)) e = map_option (\<lambda>p. mx_rows (vi_matrix ?ix) ! p) (map_of (vi_positions ?ix) e)"
      using p rows D(8) by (cases "map_of (vi_positions ix) e") auto
  qed (use D in simp_all)
  then show ?thesis using vec_set_row_ok [OF row D(2) rows] by blast
qed

lemma vec_grow_repr:
  assumes r: "vec_repr w ix V"
  shows "vec_repr w (vec_grow_if_needed np n ix) V \<and> n \<le> length (mx_rows (vi_matrix (vec_grow_if_needed np n ix)))
    \<and> vi_ids (vec_grow_if_needed np n ix) = vi_ids ix \<and> vi_positions (vec_grow_if_needed np n ix) = vi_positions ix"
proof (cases "n \<le> length (mx_rows (vi_matrix ix))")
  case True
  then show ?thesis using r by (simp add: vec_grow_if_needed_def)
next
  case False
  note D = vec_reprD [OF r]
  let ?cap = "length (mx_rows (vi_matrix ix))"
  let ?ix = "vec_grow_if_needed np n ix"
  have rows: "mx_rows (vi_matrix ?ix) =
      mx_rows (vi_matrix ix) @ replicate (max n (?cap * 2) - ?cap) (replicate w (np_lit np 0))"
    using False D(3) by (simp add: vec_grow_if_needed_def Let_def np_zeros_def)
  have f: "vi_ids ?ix = vi_ids ix" "vi_positions ?ix = vi_positions ix" "vi_dimension ?ix = w" "mx_width (vi_matrix ?ix) = w"
    using False D(3) by (simp_all add: vec_grow_if_needed_def Let_def np_zeros_def)
  have "vec_repr w ?ix V"
  proof (rule vec_reprI)
    fix r assume "r \<in> set (mx_rows (vi_matrix ?ix))"
    then show "length r = w" unfolding rows using D(4) by auto
  next
    fix d
    have "p < ?cap" if "map_of (vi_positions ix) d = Some p" for p using that D(6) D(7) [of d p] by simp
    then show "V d = map_option (\<lambda>p. mx_rows (vi_matrix ?ix) ! p) (map_of (vi_positions ?ix) d)"
      unfolding rows f using D(8) [of d] by (cases "map_of (vi_positions ix) d") (simp_all add: nth_append)
  qed (use D f rows in simp_all)
  then show ?thesis using rows f False by simp
qed

lemma vec_append_row:
  assumes r: "vec_repr w ix V" and d: "map_of (vi_positions ix) d = None" and row: "length row = w"
    and cap: "length (vi_ids ix) + 1 \<le> length (mx_rows (vi_matrix ix))"
  shows "\<exists>ix'. vec_set_row (length (vi_ids ix)) row (ix\<lparr>vi_ids := vi_ids ix @ [d],
      vi_positions := AList.update d (length (vi_ids ix)) (vi_positions ix)\<rparr>) = (Inr (), ix') \<and> vec_repr w ix' (V(d \<mapsto> row))"
proof -
  note D = vec_reprD [OF r]
  let ?n = "length (vi_ids ix)"
  let ?ix1 = "ix\<lparr>vi_ids := vi_ids ix @ [d], vi_positions := AList.update d ?n (vi_positions ix)\<rparr>"
  let ?ix = "?ix1\<lparr>vi_matrix := (vi_matrix ix)\<lparr>mx_rows := (mx_rows (vi_matrix ix))[?n := row]\<rparr>\<rparr>"
  have notin: "d \<notin> set (vi_ids ix)" using d D(7) [of d] by (metis in_set_conv_nth option.distinct(1))
  have "vec_repr w ?ix (V(d \<mapsto> row))"
  proof (rule vec_reprI)
    fix r assume "r \<in> set (mx_rows (vi_matrix ?ix))"
    then show "length r = w" using length_nth_update [OF _ row D(4)] by simp
  next
    fix e q
    show "map_of (vi_positions ?ix) e = Some q \<longleftrightarrow> q < length (vi_ids ?ix) \<and> vi_ids ?ix ! q = e"
      using D(7) [of e q] notin by (cases "e = d") (auto simp: dict_simps nth_append less_Suc_eq)
  next
    fix e
    have "q \<noteq> ?n" if "map_of (vi_positions ix) e = Some q" for q using that D(7) by auto
    then show "(V(d \<mapsto> row)) e = map_option (\<lambda>p. mx_rows (vi_matrix ?ix) ! p) (map_of (vi_positions ?ix) e)"
      using cap D(8) by (cases "map_of (vi_positions ix) e") (auto simp: dict_simps)
  qed (use D notin cap in simp_all)
  moreover have "vec_set_row ?n row ?ix1 = (Inr (), ?ix)"
    using cap D(2) row by (subst vec_set_row_ok) simp_all
  ultimately show ?thesis by blast
qed

lemma vec_add_repr:
  assumes r: "vec_repr w ix V" and v: "vec_ok np w v"
  shows "\<exists>ix'. vec_add np d v ix = (Inr (), ix') \<and> vec_repr w ix' (V(d \<mapsto> vec_val np v))"
proof (cases "map_of (vi_positions ix) d")
  case (Some p)
  from vec_replace_row [OF r Some vec_val_length [OF v]] Some show ?thesis
    by (simp add: vec_add_def vec_check_ok [OF v] vec_reprD(3) [OF r])
next
  case None
  let ?g = "vec_grow_if_needed np (length (vi_ids ix) + 1) ix"
  note g = vec_grow_repr [OF r, of np "length (vi_ids ix) + 1"]
  have "map_of (vi_positions ?g) d = None" "length (vi_ids ?g) + 1 \<le> length (mx_rows (vi_matrix ?g))"
    using g None by simp_all
  from vec_append_row [OF conjunct1 [OF g] this(1) vec_val_length [OF v] this(2)] None g show ?thesis
    by (simp add: vec_add_def vec_check_ok [OF v] vec_reprD(3) [OF r] Let_def)
qed

lemma vec_remove_last:
  assumes r: "vec_repr w ix V" and p: "map_of (vi_positions ix) d = Some (length (vi_ids ix) - 1)"
  shows "vec_repr w (ix\<lparr>vi_positions := AList.delete d (vi_positions ix), vi_ids := butlast (vi_ids ix)\<rparr>) (V(d := None))"
    (is "vec_repr w ?ix _")
proof (rule vec_reprI)
  note D = vec_reprD [OF r]
  let ?n = "length (vi_ids ix)"
  have n: "?n - 1 < ?n" "vi_ids ix ! (?n - 1) = d" using p D(7) by auto
  fix e q
  show "map_of (vi_positions ?ix) e = Some q \<longleftrightarrow> q < length (vi_ids ?ix) \<and> vi_ids ?ix ! q = e"
  proof (cases "e = d")
    case True
    have "vi_ids ix ! q \<noteq> d" if "q < ?n - 1"
      using that n D(5) nth_eq_iff_index_eq [of "vi_ids ix" q "?n - 1"] by auto
    then show ?thesis using True by (auto simp: dict_simps nth_butlast)
  next
    case False
    then have "q < ?n \<and> vi_ids ix ! q = e \<longleftrightarrow> q < ?n - 1 \<and> vi_ids ix ! q = e" using n
      by (cases "q = ?n - 1") auto
    then show ?thesis using False D(7) [of e q] by (auto simp: dict_simps nth_butlast)
  qed
next
  fix e
  show "(V(d := None)) e = map_option (\<lambda>p. mx_rows (vi_matrix ?ix) ! p) (map_of (vi_positions ?ix) e)"
    using vec_reprD(8) [OF r, of e] by (simp add: dict_simps)
qed (use vec_reprD [OF r] in \<open>simp_all add: distinct_butlast\<close>)

lemma vec_remove_swap:
  assumes r: "vec_repr w ix V" and p: "map_of (vi_positions ix) d = Some p" and np: "p \<noteq> length (vi_ids ix) - 1"
  defines "m \<equiv> vi_ids ix ! (length (vi_ids ix) - 1)"
  defines "ix' \<equiv> ix\<lparr>vi_matrix := (vi_matrix ix)\<lparr>mx_rows := (mx_rows (vi_matrix ix))[p := mx_rows (vi_matrix ix) ! (length (vi_ids ix) - 1)]\<rparr>,
      vi_positions := AList.update m p (AList.delete d (vi_positions ix)),
      vi_ids := butlast ((vi_ids ix)[p := m])\<rparr>"
  shows "vec_repr w ix' (V(d := None))"
proof -
  note D = vec_reprD [OF r]
  let ?n = "length (vi_ids ix)" and ?l = "length (vi_ids ix) - 1"
  have pn: "p < ?l" "?l < ?n" "vi_ids ix ! p = d" using p np D(7) by auto
  have idx: "vi_ids ix ! i = vi_ids ix ! j \<longleftrightarrow> i = j" if "i < ?n" "j < ?n" for i j
    using that D(5) by (simp add: nth_eq_iff_index_eq)
  have md: "m \<noteq> d" using idx [of p ?l] pn by (auto simp: m_def)
  have len: "length (vi_ids ix') = ?l" by (simp add: ix'_def)
  have nth: "vi_ids ix' ! q = (if q = p then m else vi_ids ix ! q)" if "q < ?l" for q
    using that pn by (simp add: ix'_def nth_butlast)
  have pos: "map_of (vi_positions ix') = (map_of (vi_positions ix))(d := None, m \<mapsto> p)"
    by (simp add: ix'_def dict_simps)
  have posm: "map_of (vi_positions ix) m = Some ?l" using D(7) [of m ?l] pn by (auto simp: m_def)
  have lrow: "?l < length (mx_rows (vi_matrix ix))" using pn D(6) by linarith
  have row: "mx_rows (vi_matrix ix') ! i = (if i = p then mx_rows (vi_matrix ix) ! ?l else mx_rows (vi_matrix ix) ! i)" for i
    using pn lrow by (auto simp: ix'_def nth_list_update)
  show ?thesis
  proof (rule vec_reprI)
    fix r assume "r \<in> set (mx_rows (vi_matrix ix'))"
    then show "length r = w"
      using length_nth_update [of r "mx_rows (vi_matrix ix)" p "mx_rows (vi_matrix ix) ! ?l" w] D(4) lrow by (simp add: ix'_def)
  next
    have "vi_ids ix' ! i \<noteq> vi_ids ix' ! j" if "i < ?l" "j < ?l" "i \<noteq> j" for i j
      using that nth idx [of i j] idx [of i ?l] idx [of j ?l] pn by (auto simp: m_def)
    then show "distinct (vi_ids ix')" by (auto simp: distinct_conv_nth len)
  next
    fix e q
    show "map_of (vi_positions ix') e = Some q \<longleftrightarrow> q < length (vi_ids ix') \<and> vi_ids ix' ! q = e"
    proof (cases "e = m \<or> e = d")
      case True
      have "q = p" if "q < ?l" "vi_ids ix' ! q = m"
        using that nth [of q] idx [of q ?l] pn(2) by (auto simp: m_def split: if_splits)
      moreover have "\<not> (q < ?l \<and> vi_ids ix' ! q = d)"
        using nth [of q] idx [of q p] pn md by (auto split: if_splits)
      ultimately show ?thesis using True md pos nth [OF pn(1)] pn(1) len by auto
    next
      case False
      have "q < ?n \<and> vi_ids ix ! q = e \<longleftrightarrow> q < ?l \<and> vi_ids ix' ! q = e"
        using False nth [of q] pn by (cases "q = ?l") (auto simp: m_def)
      then show ?thesis using False pos D(7) [of e q] len by simp
    qed
  next
    fix e
    have "i \<noteq> p" if "map_of (vi_positions ix) e = Some i" "e \<noteq> d" for i
      using that D(7) pn by auto
    then show "(V(d := None)) e = map_option (\<lambda>p. mx_rows (vi_matrix ix') ! p) (map_of (vi_positions ix') e)"
      using D(8) [of e] posm md by (cases "map_of (vi_positions ix) e") (auto simp: pos row)
  qed (use D in \<open>simp_all add: ix'_def\<close>)
qed

lemma vec_remove_repr:
  assumes r: "vec_repr w ix V"
  shows "\<exists>ix'. vec_remove d ix = (Inr (V d \<noteq> None), ix') \<and> vec_repr w ix' (V(d := None))"
proof (cases "map_of (vi_positions ix) d")
  case None
  then have "V d = None" using vec_reprD(8) [OF r, of d] by simp
  moreover from this have "V(d := None) = V" by (simp add: fun_upd_idem)
  ultimately show ?thesis using r None by (simp add: vec_remove_def)
next
  case (Some p)
  let ?l = "length (vi_ids ix) - 1"
  note D = vec_reprD [OF r]
  have V: "V d \<noteq> None" using Some D(8) [of d] by simp
  have p: "p < length (vi_ids ix)" using Some D(7) by auto
  then have ne: "vi_ids ix \<noteq> []" by auto
  show ?thesis
  proof (cases "p = ?l")
    case True
    then show ?thesis using vec_remove_last [OF r] Some ne V by (simp add: vec_remove_def Let_def)
  next
    case False
    have l: "?l < length (mx_rows (vi_matrix ix))" "p < length (mx_rows (vi_matrix ix))" using p D(6) by linarith+
    then have "length (mx_rows (vi_matrix ix) ! ?l) = w" using D(4) by simp
    then have set: "vec_set_row p (mx_rows (vi_matrix ix) ! ?l) (ix\<lparr>vi_positions := AList.delete d (vi_positions ix)\<rparr>) =
        (Inr (), ix\<lparr>vi_positions := AList.delete d (vi_positions ix),
           vi_matrix := (vi_matrix ix)\<lparr>mx_rows := (mx_rows (vi_matrix ix))[p := mx_rows (vi_matrix ix) ! ?l]\<rparr>\<rparr>)"
      using l D(2) by (subst vec_set_row_ok) simp_all
    from vec_remove_swap [OF r Some False] show ?thesis
      using Some False ne V l p by (simp add: vec_remove_def Let_def set del: One_nat_def)
  qed
qed

interpretation vectors: derived_structure "vec_repr w" "vec_empty np w" "vec_ok np w" "vec_val np" "vec_add np"
  "\<lambda>d. sbind (vec_remove d) (\<lambda>_ ix. (Inr (), ix))" for w np
proof
  show "vec_repr w (vec_empty np w) Map.empty" by (rule vec_empty_repr)
  fix ix :: "'a vector_index" and V d v
  assume r: "vec_repr w ix V"
  show "vec_ok np w v \<Longrightarrow> \<exists>ix'. vec_add np d v ix = (Inr (), ix') \<and> vec_repr w ix' (V(d \<mapsto> vec_val np v))"
    by (rule vec_add_repr [OF r])
  show "\<exists>ix'. sbind (vec_remove d) (\<lambda>_ ix. (Inr (), ix)) ix = (Inr (), ix') \<and> vec_repr w ix' (V(d := None))"
    using vec_remove_repr [OF r, of d] by auto
qed

section \<open>Searching\<close>

definition similarity :: "'f numpy \<Rightarrow> 'f list \<Rightarrow> (pystr \<rightharpoonup> 'f list) \<Rightarrow> pystr \<rightharpoonup> 'f" where
  "similarity np q V d = map_option (\<lambda>row. np_dot np row q) (V d)"

abbreviation mk_scored :: "pystr \<times> 'f \<Rightarrow> 'f scored_document" where
  "mk_scored p \<equiv> (case p of (d, s) \<Rightarrow> \<lparr>sd_document_id = d, sd_score = s\<rparr>)"

lemma vec_search_hits:
  assumes r: "vec_repr w ix V" and q: "vec_ok np w q" and l: "1 \<le> limit"
  shows "vec_search np ix q limit = Inr (map mk_scored (take (nat limit) (ranking (similarity np (vec_val np q) V))))"
proof -
  note D = vec_reprD [OF r]
  let ?n = "length (vi_ids ix)" and ?rows = "mx_rows (vi_matrix ix)"
  let ?scores = "map (\<lambda>row. np_dot np row (vec_val np q)) (take ?n ?rows)"
  have len: "length ?scores = ?n" using D(6) by simp
  have dz: "dict_ok (zip (vi_ids ix) ?scores)" using D(5) len by simp
  have "map_of (zip (vi_ids ix) ?scores) d = similarity np (vec_val np q) V d" for d
  proof (cases "map_of (vi_positions ix) d")
    case None
    then have "d \<notin> set (vi_ids ix)" using D(7) [of d] by (metis in_set_conv_nth option.distinct(1))
    then have "map_of (zip (vi_ids ix) ?scores) d = None" using len by (simp add: map_of_zip_is_None)
    then show ?thesis using None D(8) [of d] by (simp add: similarity_def)
  next
    case (Some p)
    then have p: "p < ?n" "vi_ids ix ! p = d" using D(7) by auto
    then have "map_of (zip (vi_ids ix) ?scores) d = Some (?scores ! p)"
      using map_of_zip_nth [of "vi_ids ix" ?scores p] len D(5) by simp
    then show ?thesis using Some D(6) D(8) [of d] p by (simp add: similarity_def)
  qed
  then have rank: "sort_key by_rank (zip (vi_ids ix) ?scores) = ranking (similarity np (vec_val np q) V)"
    using sort_by_rank [OF dz] by presburger
  show ?thesis
  proof (cases "vi_ids ix = []")
    case True
    then have "ranking (similarity np (vec_val np q) V) = []" using rank by simp
    then show ?thesis using True l by (simp add: vec_search_def)
  next
    case False
    then show ?thesis using l rank len by (simp add: vec_search_def vec_check_ok [OF q] D(3) Let_def)
  qed
qed

text \<open>An array as NumPy makes it: as many elements as the shape says.\<close>

definition nd_wf :: "'f ndarray \<Rightarrow> bool" where
  "nd_wf a \<longleftrightarrow> length (nd_data a) = prod_list (nd_shape a)"

lemma vec_check_bad:
  assumes "nd_wf v" "\<not> vec_ok np w v"
  shows "vec_check np w v = Inl VectorIndexError"
proof -
  have one: "length (nd_shape v) \<noteq> 1 \<or> nd_shape v ! 0 \<noteq> w" if "nd_shape v \<noteq> [w]"
    using that by (cases "nd_shape v") auto
  show ?thesis
  proof (cases "nd_shape v = [w]")
    case True
    then have "length (nd_data v) = w" using assms(1) by (simp add: nd_wf_def)
    with True assms(2) have "\<not> list_all (np_isfinite np) (map (np_float32 np) (nd_data v))"
      by (simp add: vec_ok_def list_all_length)
    with True show ?thesis by (simp add: vec_check_def nd_float32_def)
  next
    case False
    from one [OF this] show ?thesis by (auto simp: vec_check_def nd_float32_def Let_def)
  qed
qed

section \<open>Validation\<close>

lemma enumerate_ok:
  "\<not> list_ex (\<lambda>(p, d). f d \<noteq> Some p) (enumerate 0 xs) \<longleftrightarrow> (\<forall>p < length xs. f (xs ! p) = Some p)"
  by (auto simp: list_ex_iff in_set_enumerate_eq)

lemma vec_validate_positions:
  assumes ok: "dict_ok (vi_positions ix)" and len: "length (vi_ids ix) = length (vi_positions ix)"
    and at: "\<forall>p < length (vi_ids ix). map_of (vi_positions ix) (vi_ids ix ! p) = Some p"
  shows "distinct (vi_ids ix)" "map_of (vi_positions ix) d = Some p \<longleftrightarrow> p < length (vi_ids ix) \<and> vi_ids ix ! p = d"
proof -
  have "vi_ids ix ! i \<noteq> vi_ids ix ! j" if "i < length (vi_ids ix)" "j < length (vi_ids ix)" "i \<noteq> j" for i j
    using at that by (metis option.inject)
  then show dis: "distinct (vi_ids ix)" by (auto simp: distinct_conv_nth)
  have sub: "set (vi_ids ix) \<subseteq> dom (map_of (vi_positions ix))"
    using at by (auto simp: in_set_conv_nth)
  have "card (set (vi_ids ix)) = card (dom (map_of (vi_positions ix)))"
    using dis len dict_length [OF ok] by (simp add: distinct_card)
  then have eq: "set (vi_ids ix) = dom (map_of (vi_positions ix))"
    using sub by (simp add: card_subset_eq finite_dom_map_of)
  show "map_of (vi_positions ix) d = Some p \<longleftrightarrow> p < length (vi_ids ix) \<and> vi_ids ix ! p = d"
  proof
    assume d: "map_of (vi_positions ix) d = Some p"
    then have "d \<in> set (vi_ids ix)" using eq by blast
    then obtain q where "q < length (vi_ids ix)" "vi_ids ix ! q = d" by (auto simp: in_set_conv_nth)
    with at d show "p < length (vi_ids ix) \<and> vi_ids ix ! p = d" by fastforce
  qed (use at in auto)
qed

lemma vec_repr_positions_length:
  assumes "vec_repr w ix V"
  shows "length (vi_ids ix) = length (vi_positions ix)"
proof -
  note D = vec_reprD [OF assms]
  have "dom (map_of (vi_positions ix)) = set (vi_ids ix)"
    using D(7) by (auto simp: in_set_conv_nth dom_def)
  then show ?thesis using dict_length [OF D(1)] distinct_card [OF D(5)] by simp
qed

lemma vec_validate_iff:
  assumes "dict_ok (vi_positions ix)" "\<forall>r\<in>set (mx_rows (vi_matrix ix)). length r = mx_width (vi_matrix ix)"
    and "length (vi_ids ix) \<le> length (mx_rows (vi_matrix ix))"
  shows "vec_validate np ix = Inr () \<longleftrightarrow> (\<exists>V. vec_repr (vi_dimension ix) ix V)
    \<and> list_all (\<lambda>row. list_all (np_isfinite np) row \<and> \<not> vec_row_offends np row) (take (length (vi_ids ix)) (mx_rows (vi_matrix ix)))"
    (is "_ \<longleftrightarrow> ?R \<and> ?rows")
proof -
  have "(length (vi_ids ix) = length (vi_positions ix) \<and> (\<forall>p < length (vi_ids ix). map_of (vi_positions ix) (vi_ids ix ! p) = Some p)
      \<and> mx_width (vi_matrix ix) = vi_dimension ix) \<longleftrightarrow> ?R" (is "?L \<longleftrightarrow> _")
  proof
    assume L: ?L
    let ?V = "\<lambda>d. map_option (\<lambda>p. mx_rows (vi_matrix ix) ! p) (map_of (vi_positions ix) d)"
    have "vec_repr (vi_dimension ix) ix ?V"
      using L assms vec_validate_positions [OF assms(1)] by (intro vec_reprI) auto
    then show ?R by blast
  next
    assume ?R
    then obtain V where V: "vec_repr (vi_dimension ix) ix V" by blast
    from vec_repr_positions_length [OF V] vec_reprD(2,7) [OF V] show ?L by auto
  qed
  moreover have "vec_validate np ix = Inr () \<longleftrightarrow> ?L \<and> ?rows"
    using enumerate_ok [of "map_of (vi_positions ix)" "vi_ids ix"]
    by (auto simp: vec_validate_def Let_def list_all_iff list_ex_iff)
  ultimately show ?thesis by blast
qed

section \<open>Properties\<close>

text \<open>C29. Mutations of the vector index: adding a well-formed vector replaces or inserts exactly that
  document's vector, growing the matrix when it is full; a vector of the wrong shape, width or with
  non-finite values raises \<open>VectorIndexError\<close> and changes nothing; removing swaps rows but leaves every
  other document's vector as it was, and reports whether there was one.\<close>

theorem vec_mutations_refine:
  assumes "vec_repr w ix V" "nd_wf v"
  shows "(if vec_ok np w v
          then \<exists>ix'. vec_add np d v ix = (Inr (), ix') \<and> vec_repr w ix' (V(d \<mapsto> vec_val np v))
          else vec_add np d v ix = (Inl VectorIndexError, ix))
    \<and> (\<exists>ix'. vec_remove d ix = (Inr (V d \<noteq> None), ix') \<and> vec_repr w ix' (V(d := None)))"
  using vectors.add_ok [OF assms(1), of np v d] vec_remove_repr [OF assms(1), of d]
    vec_check_bad [OF assms(2), of np w] vec_reprD(3) [OF assms(1)]
  by (simp add: vec_add_def)

theorem vec_mutations_refine_witness:
  "(\<exists>ix'. vec_add rat_numpy (ustr ''d'') (nd_vec [1, 0]) (vec_empty rat_numpy 2) = (Inr (), ix')
      \<and> vec_repr 2 ix' [ustr ''d'' \<mapsto> [1, 0]])
   \<and> (\<exists>ix'. vec_remove (ustr ''d'') (vec_empty rat_numpy 2) = (Inr False, ix') \<and> vec_repr 2 ix' (Map.empty(ustr ''d'' := None)))"
proof -
  have wf: "nd_wf (nd_vec [1, 0 :: rat])" by (simp add: nd_wf_def nd_vec_def)
  have ok: "vec_ok rat_numpy 2 (nd_vec [1, 0])" "vec_val rat_numpy (nd_vec [1, 0]) = [1, 0]"
    by (simp_all add: vec_ok_def vec_val_def nd_vec_def rat_numpy_def)
  from vec_mutations_refine [OF vec_empty_repr [of 2 rat_numpy] wf, of rat_numpy "ustr ''d''"] ok
  show ?thesis by (simp del: fun_upd_apply fun_upd_idem_iff)
qed

text \<open>C30. Exhaustive search is exact: it returns the first \<open>limit\<close> documents of the ranking of all stored
  vectors by similarity to the query, ties broken by identifier, whatever the row order; a limit
  below 1 raises \<open>ValueError\<close>, and a malformed query raises \<open>VectorIndexError\<close> unless there is nothing to
  search.\<close>

theorem vec_search_exact:
  assumes "vec_repr w ix V" "nd_wf q"
  shows "vec_search np ix q limit =
    (if limit < 1 then Inl ValueError
     else if dom V = {} then Inr []
     else if \<not> vec_ok np w q then Inl VectorIndexError
     else Inr (map mk_scored (take (nat limit) (ranking (similarity np (vec_val np q) V)))))"
proof -
  note D = vec_reprD [OF assms(1)]
  have empty: "dom V = {} \<longleftrightarrow> vi_ids ix = []"
  proof
    assume "dom V = {}"
    then have "map_of (vi_positions ix) d = None" for d using D(8) [of d] by (cases "map_of (vi_positions ix) d") auto
    then have "\<not> 0 < length (vi_ids ix)" using D(7) by fastforce
    then show "vi_ids ix = []" by simp
  next
    assume "vi_ids ix = []"
    then have "map_of (vi_positions ix) d = None" for d using D(7) [of d] by (cases "map_of (vi_positions ix) d") auto
    then show "dom V = {}" using D(8) by auto
  qed
  show ?thesis
  proof (cases "limit < 1 \<or> dom V = {}")
    case True
    then show ?thesis using empty by (auto simp: vec_search_def)
  next
    case False
    then show ?thesis
      using vec_search_hits [OF assms(1), of np q limit] vec_check_bad [OF assms(2), of np w] empty D(3)
      by (auto simp: vec_search_def)
  qed
qed

theorem vec_search_exact_witness:
  "vec_search rat_numpy (vec_empty rat_numpy 2) (nd_vec [1, 0]) 0 = Inl ValueError
   \<and> vec_search rat_numpy (vec_empty rat_numpy 2) (nd_vec [1, 0]) 5 = Inr []"
proof -
  have wf: "nd_wf (nd_vec [1, 0 :: rat])" by (simp add: nd_wf_def nd_vec_def)
  show ?thesis
    using vec_search_exact [OF vec_empty_repr [of 2 rat_numpy] wf, of rat_numpy 0]
      vec_search_exact [OF vec_empty_repr [of 2 rat_numpy] wf, of rat_numpy 5] by simp
qed

text \<open>\<open>validate\<close> is exact on an index whose matrix has a row for every identifier: it accepts it
  precisely if identifiers and positions agree, so that the index stands for some vectors, the matrix has
  the configured width, and every stored vector is finite and of length 1 (within the tolerance) or 0.\<close>

lemma vec_validate_exact:
  assumes "dict_ok (vi_positions ix)" "\<forall>r\<in>set (mx_rows (vi_matrix ix)). length r = mx_width (vi_matrix ix)"
    and "length (vi_ids ix) \<le> length (mx_rows (vi_matrix ix))"
  shows "vec_validate np ix = Inr () \<longleftrightarrow> (\<exists>V. vec_repr (vi_dimension ix) ix V)
    \<and> list_all (\<lambda>row. list_all (np_isfinite np) row \<and> \<not> vec_row_offends np row) (take (length (vi_ids ix)) (mx_rows (vi_matrix ix)))"
  by (rule vec_validate_iff [OF assms])

end
