(* ===== verification/Fusion.thy ===== *)
theory Fusion
  imports Prelude
begin

text \<open>
  \<open>app/search/results.py\<close> (the shape of a ranked result) and \<open>app/hybrid/fusion.py\<close> (reciprocal rank
  fusion of a lexical and a semantic ranking). The two accumulation loops are shown to compute, for
  every document of either list, the sum of its reciprocal ranks together with its provenance.
\<close>

section \<open>Definitions\<close>

record 'f search_result =
  sr_document_id :: pystr
  sr_score :: 'f
  sr_text :: pystr

record 'f search_results =
  srs_total :: int
  srs_results :: "'f search_result list"

record fusion_config =
  fc_rrf_k :: int
  fc_candidate_multiplier :: int
  fc_max_candidate_depth :: int

definition default_fusion_config :: fusion_config where
  "default_fusion_config = \<lparr>fc_rrf_k = 60, fc_candidate_multiplier = 5, fc_max_candidate_depth = 100\<rparr>"

definition mk_fusion_config :: "int \<Rightarrow> int \<Rightarrow> int \<Rightarrow> fusion_config res" where
  "mk_fusion_config k multiplier max_depth =
     (if k < 1 then Inl ValueError
      else if multiplier < 1 then Inl ValueError
      else Inr \<lparr>fc_rrf_k = k, fc_candidate_multiplier = multiplier, fc_max_candidate_depth = max_depth\<rparr>)"

definition candidate_depth :: "fusion_config \<Rightarrow> int \<Rightarrow> int" where
  "candidate_depth config limit = min (limit * fc_candidate_multiplier config) (fc_max_candidate_depth config)"

record 'f hybrid_hit =
  hh_document_id :: pystr
  hh_score :: 'f
  hh_text :: pystr
  hh_lexical_rank :: "int option"
  hh_semantic_rank :: "int option"
  hh_lexical_score :: "'f option"
  hh_semantic_score :: "'f option"

record 'f hybrid_results =
  hr_total :: int
  hr_results :: "'f hybrid_hit list"

record 'f candidate =
  ca_document_id :: pystr
  ca_text :: pystr
  ca_lexical_rank :: "int option"
  ca_semantic_rank :: "int option"
  ca_lexical_score :: "'f option"
  ca_semantic_score :: "'f option"
  ca_score :: 'f

definition new_candidate :: "'f fops \<Rightarrow> 'f search_result \<Rightarrow> 'f candidate" where
  "new_candidate fo hit =
     \<lparr>ca_document_id = sr_document_id hit, ca_text = sr_text hit, ca_lexical_rank = None, ca_semantic_rank = None,
      ca_lexical_score = None, ca_semantic_score = None, ca_score = f_rat fo 0\<rparr>"

definition set_lexical :: "int \<Rightarrow> 'f \<Rightarrow> 'f candidate \<Rightarrow> 'f candidate" where
  "set_lexical rank score c = c\<lparr>ca_lexical_rank := Some rank, ca_lexical_score := Some score\<rparr>"

definition set_semantic :: "int \<Rightarrow> 'f \<Rightarrow> 'f candidate \<Rightarrow> 'f candidate" where
  "set_semantic rank score c = c\<lparr>ca_semantic_rank := Some rank, ca_semantic_score := Some score\<rparr>"

text \<open>
  The body of either loop: the candidate of the hit (a new one if the dictionary has none), with its
  rank and score recorded and the reciprocal rank added.
\<close>

definition fuse_hit ::
    "'f::linorder fops \<Rightarrow> int \<Rightarrow> (int \<Rightarrow> 'f \<Rightarrow> 'f candidate \<Rightarrow> 'f candidate) \<Rightarrow> int \<times> 'f search_result
       \<Rightarrow> (pystr, 'f candidate) dict \<Rightarrow> (pystr, 'f candidate) dict res" where
  "fuse_hit fo k note_rank p candidates =
     (case p of (rank, hit) \<Rightarrow>
        let c = note_rank rank (sr_score hit) (dget_or candidates (sr_document_id hit) (new_candidate fo hit))
        in ebind (f_div fo (f_rat fo 1) (f_of_int fo (k + rank))) (\<lambda>term.
             Inr (AList.update (sr_document_id hit) (c\<lparr>ca_score := f_add fo (ca_score c) term\<rparr>) candidates)))"

text \<open>\<open>enumerate(xs, start=n)\<close>\<close>

fun py_enumerate :: "int \<Rightarrow> 'a list \<Rightarrow> (int \<times> 'a) list" where
  "py_enumerate n [] = []"
| "py_enumerate n (x # xs) = (n, x) # py_enumerate (n + 1) xs"

definition hybrid_hit_of :: "'f candidate \<Rightarrow> 'f hybrid_hit" where
  "hybrid_hit_of c =
     \<lparr>hh_document_id = ca_document_id c, hh_score = ca_score c, hh_text = ca_text c,
      hh_lexical_rank = ca_lexical_rank c, hh_semantic_rank = ca_semantic_rank c,
      hh_lexical_score = ca_lexical_score c, hh_semantic_score = ca_semantic_score c\<rparr>"

definition reciprocal_rank_fusion ::
    "'f::linorder fops \<Rightarrow> 'f search_results \<Rightarrow> 'f search_results \<Rightarrow> int \<Rightarrow> fusion_config option \<Rightarrow> 'f hybrid_results res" where
  "reciprocal_rank_fusion fo lexical semantic limit config =
     (if limit < 1 then Inl ValueError
      else let settings = (case config of Some c \<Rightarrow> c | None \<Rightarrow> default_fusion_config) in
        ebind (efold (fuse_hit fo (fc_rrf_k settings) set_lexical) (py_enumerate 1 (srs_results lexical)) [])
          (\<lambda>candidates1. ebind (efold (fuse_hit fo (fc_rrf_k settings) set_semantic) (py_enumerate 1 (srs_results semantic)) candidates1)
          (\<lambda>candidates.
             let ordered = sort_key (\<lambda>c. rank_key (ca_score c) (ca_document_id c)) (map snd candidates)
             in Inr \<lparr>hr_total = int (length candidates), hr_results = map hybrid_hit_of (py_take limit ordered)\<rparr>)))"

section \<open>The specification\<close>

abbreviation hit_ids :: "'f search_result list \<Rightarrow> pystr list" where
  "hit_ids hits \<equiv> map sr_document_id hits"

text \<open>The rank (from 1) and the hit of a document in a list.\<close>

definition hit_from :: "int \<Rightarrow> 'f search_result list \<Rightarrow> pystr \<rightharpoonup> int \<times> 'f search_result" where
  "hit_from n hits = map_of (map (\<lambda>(r, h). (sr_document_id h, (r, h))) (py_enumerate n hits))"

definition rank_of :: "'f search_result list \<Rightarrow> pystr \<rightharpoonup> int" where
  "rank_of hits d = map_option fst (hit_from 1 hits d)"

definition score_of :: "'f search_result list \<Rightarrow> pystr \<rightharpoonup> 'f" where
  "score_of hits d = map_option (\<lambda>p. sr_score (snd p)) (hit_from 1 hits d)"

definition rrf_term :: "'f fops \<Rightarrow> int \<Rightarrow> int \<Rightarrow> 'f" where
  "rrf_term fo k rank = f_quot fo (f_rat fo 1) (f_of_int fo (k + rank))"

text \<open>The fused score of a document: no term for a list it is missing from.\<close>

definition fused :: "'f fops \<Rightarrow> int \<Rightarrow> 'f search_result list \<Rightarrow> 'f search_result list \<Rightarrow> pystr \<rightharpoonup> 'f" where
  "fused fo k lexical semantic d =
     (case (rank_of lexical d, rank_of semantic d) of
        (None, None) \<Rightarrow> None
      | (Some r, None) \<Rightarrow> Some (f_add fo (f_rat fo 0) (rrf_term fo k r))
      | (None, Some s) \<Rightarrow> Some (f_add fo (f_rat fo 0) (rrf_term fo k s))
      | (Some r, Some s) \<Rightarrow> Some (f_add fo (f_add fo (f_rat fo 0) (rrf_term fo k r)) (rrf_term fo k s)))"

text \<open>Positive integers are not rounded to zero.\<close>

definition rrf_divisors :: "'f fops \<Rightarrow> bool" where
  "rrf_divisors fo \<longleftrightarrow> (\<forall>n\<ge>1. f_of_int fo n \<noteq> f_rat fo 0)"

section \<open>The loops\<close>

lemma hit_from_Nil [simp]: "hit_from n [] = Map.empty"
  by (simp add: hit_from_def)

lemma hit_from_Cons [simp]: "hit_from n (h # hits) = (hit_from (n + 1) hits)(sr_document_id h \<mapsto> (n, h))"
  by (simp add: hit_from_def)

lemma hit_from_None: "hit_from n hits d = None \<longleftrightarrow> d \<notin> set (hit_ids hits)"
  by (induction hits arbitrary: n) auto

lemma hit_from_ge: "hit_from n hits d = Some (r, h) \<Longrightarrow> n \<le> r \<and> sr_document_id h = d"
  by (induction hits arbitrary: n) (fastforce split: if_splits)+

definition fuse_upd :: "'f fops \<Rightarrow> int \<Rightarrow> (int \<Rightarrow> 'f \<Rightarrow> 'f candidate \<Rightarrow> 'f candidate) \<Rightarrow> int \<times> 'f search_result \<Rightarrow> 'f candidate \<Rightarrow> 'f candidate" where
  "fuse_upd fo k note_rank p c =
     (let c' = note_rank (fst p) (sr_score (snd p)) c in c'\<lparr>ca_score := f_add fo (ca_score c') (rrf_term fo k (fst p))\<rparr>)"

lemma fuse_hit_ok:
  assumes "rrf_divisors fo" "1 \<le> k" "1 \<le> r"
  shows "fuse_hit fo k nr (r, h) C =
    Inr (AList.update (sr_document_id h) (fuse_upd fo k nr (r, h) (dget_or C (sr_document_id h) (new_candidate fo h))) C)"
proof -
  have "f_of_int fo (k + r) \<noteq> f_rat fo 0" using assms by (simp add: rrf_divisors_def)
  then show ?thesis by (simp add: fuse_hit_def f_div_def fuse_upd_def rrf_term_def Let_def)
qed

lemma fuse_loop:
  assumes "rrf_divisors fo" "1 \<le> k" "1 \<le> n" "distinct (hit_ids hits)" "dict_ok C"
  shows "\<exists>C'. efold (fuse_hit fo k nr) (py_enumerate n hits) C = Inr C' \<and> dict_ok C'
    \<and> (\<forall>d. map_of C' d = (case hit_from n hits d of None \<Rightarrow> map_of C d
         | Some p \<Rightarrow> Some (fuse_upd fo k nr p (dget_or C d (new_candidate fo (snd p))))))"
  using assms(3-)
proof (induction hits arbitrary: n C)
  case (Cons h hits)
  let ?d = "sr_document_id h"
  let ?C1 = "AList.update ?d (fuse_upd fo k nr (n, h) (dget_or C ?d (new_candidate fo h))) C"
  have "1 \<le> n + 1" "distinct (hit_ids hits)" "dict_ok ?C1" using Cons.prems by simp_all
  from Cons.IH [OF this] obtain C' where
    C': "efold (fuse_hit fo k nr) (py_enumerate (n + 1) hits) ?C1 = Inr C'" "dict_ok C'"
      "\<forall>d. map_of C' d = (case hit_from (n + 1) hits d of None \<Rightarrow> map_of ?C1 d
         | Some p \<Rightarrow> Some (fuse_upd fo k nr p (dget_or ?C1 d (new_candidate fo (snd p)))))" by blast
  have "hit_from (n + 1) hits ?d = None" using Cons.prems(2) by (simp add: hit_from_None)
  then have "map_of C' d = (case hit_from n (h # hits) d of None \<Rightarrow> map_of C d
         | Some p \<Rightarrow> Some (fuse_upd fo k nr p (dget_or C d (new_candidate fo (snd p)))))" for d
    using C'(3) by (cases "d = ?d") (auto simp: dict_simps dget_or_def split: option.splits)
  with C' fuse_hit_ok [OF assms(1,2) Cons.prems(1), of nr h C] show ?case by auto
qed simp

text \<open>The candidate a document ends up with.\<close>

definition final_candidate :: "'f fops \<Rightarrow> int \<Rightarrow> 'f search_result list \<Rightarrow> 'f search_result list \<Rightarrow> pystr \<rightharpoonup> 'f candidate" where
  "final_candidate fo k lexical semantic d =
     (case (hit_from 1 lexical d, hit_from 1 semantic d) of
        (None, None) \<Rightarrow> None
      | (Some p, None) \<Rightarrow> Some (fuse_upd fo k set_lexical p (new_candidate fo (snd p)))
      | (None, Some q) \<Rightarrow> Some (fuse_upd fo k set_semantic q (new_candidate fo (snd q)))
      | (Some p, Some q) \<Rightarrow> Some (fuse_upd fo k set_semantic q (fuse_upd fo k set_lexical p (new_candidate fo (snd p)))))"

lemma fuse_both_loops:
  assumes "rrf_divisors fo" "1 \<le> k" "distinct (hit_ids lexical)" "distinct (hit_ids semantic)"
  shows "\<exists>C1 C. efold (fuse_hit fo k set_lexical) (py_enumerate 1 lexical) [] = Inr C1
    \<and> efold (fuse_hit fo k set_semantic) (py_enumerate 1 semantic) C1 = Inr C
    \<and> dict_ok C \<and> map_of C = final_candidate fo k lexical semantic"
proof -
  have e: "dict_ok []" by simp
  from fuse_loop [OF assms(1,2) order_refl assms(3) e, of set_lexical] obtain C1 where
    1: "efold (fuse_hit fo k set_lexical) (py_enumerate 1 lexical) [] = Inr C1" "dict_ok C1"
      "\<forall>d. map_of C1 d = (case hit_from 1 lexical d of None \<Rightarrow> map_of [] d
         | Some p \<Rightarrow> Some (fuse_upd fo k set_lexical p (dget_or [] d (new_candidate fo (snd p)))))" by blast
  from fuse_loop [OF assms(1,2) order_refl assms(4) 1(2), of set_semantic] obtain C where
    2: "efold (fuse_hit fo k set_semantic) (py_enumerate 1 semantic) C1 = Inr C" "dict_ok C"
      "\<forall>d. map_of C d = (case hit_from 1 semantic d of None \<Rightarrow> map_of C1 d
         | Some p \<Rightarrow> Some (fuse_upd fo k set_semantic p (dget_or C1 d (new_candidate fo (snd p)))))" by blast
  have "map_of C d = final_candidate fo k lexical semantic d" for d
    using 1(3) 2(3) by (cases "hit_from 1 lexical d"; cases "hit_from 1 semantic d") (simp_all add: final_candidate_def dget_or_def)
  with 1 2 show ?thesis by blast
qed

lemmas fuse_record_defs = fuse_upd_def set_lexical_def set_semantic_def new_candidate_def

lemma final_candidate_facts:
  assumes "final_candidate fo k lexical semantic d = Some c"
  shows "ca_document_id c = d" "fused fo k lexical semantic d = Some (ca_score c)"
    "ca_lexical_rank c = rank_of lexical d" "ca_semantic_rank c = rank_of semantic d"
    "ca_lexical_score c = score_of lexical d" "ca_semantic_score c = score_of semantic d"
  using assms hit_from_ge [of 1 lexical d] hit_from_ge [of 1 semantic d]
  by (auto simp: final_candidate_def fused_def rank_of_def score_of_def fuse_record_defs split: option.splits)

lemma fused_dom: "dom (fused fo k lexical semantic) = set (hit_ids lexical) \<union> set (hit_ids semantic)"
proof -
  have "fused fo k lexical semantic d = None \<longleftrightarrow> d \<notin> set (hit_ids lexical) \<and> d \<notin> set (hit_ids semantic)" for d
    using hit_from_None [of 1 lexical d] hit_from_None [of 1 semantic d]
    by (auto simp: fused_def rank_of_def split: option.splits)
  then show ?thesis by (auto simp: dom_def)
qed

lemma final_dom: "final_candidate fo k lexical semantic d = None \<longleftrightarrow> fused fo k lexical semantic d = None"
  by (auto simp: final_candidate_def fused_def rank_of_def split: option.splits)

lemma fusion_order:
  assumes "dict_ok C" "map_of C = final_candidate fo k lexical semantic"
  shows "map (\<lambda>c. (ca_document_id c, ca_score c)) (sort_key (\<lambda>c. rank_key (ca_score c) (ca_document_id c)) (map snd C))
    = ranking (fused fo k lexical semantic)"
proof -
  let ?g = "\<lambda>c. (ca_document_id c, ca_score c)"
  let ?pairs = "map (\<lambda>(d, c). (d, ca_score c)) C"
  have id: "ca_document_id c = d" if "(d, c) \<in> set C" for d c
    using that assms final_candidate_facts(1) by (metis dict_in_set)
  have pairs: "map ?g (map snd C) = ?pairs" using id by auto
  have "map fst ?pairs = map fst C" by auto
  then have ok: "dict_ok ?pairs" using assms(1) by presburger
  have "map_of ?pairs = fused fo k lexical semantic"
  proof
    fix d
    have "map_of ?pairs d = map_option ca_score (map_of C d)" by (induction C) auto
    then show "map_of ?pairs d = fused fo k lexical semantic d"
      using assms(2) final_candidate_facts(2) [of fo k lexical semantic d] final_dom [of fo k lexical semantic d]
      by (cases "final_candidate fo k lexical semantic d") auto
  qed
  with sort_by_rank [OF ok] have "sort_key by_rank (map ?g (map snd C)) = ranking (fused fo k lexical semantic)"
    by (simp only: pairs)
  moreover have "(\<lambda>c. by_rank (?g c)) = (\<lambda>c :: 'a candidate. rank_key (ca_score c) (ca_document_id c))"
    by (simp add: by_rank_def)
  ultimately show ?thesis using map_sort_key [of ?g by_rank "map snd C"] by simp
qed

section \<open>Properties\<close>

text \<open>C31. Fusion is exact for the two lists it is given: every document of either list appears once, its
  score is the sum of its reciprocal ranks with no term for a list it is missing from, the output is
  the top of the ranking of these scores (ties by identifier), the provenance fields are the true
  ranks and scores, and \<open>total\<close> is the size of the union.\<close>

theorem fusion_exact:
  assumes "rrf_divisors fo" "1 \<le> fc_rrf_k config" "1 \<le> limit"
    and "distinct (hit_ids (srs_results lexical))" "distinct (hit_ids (srs_results semantic))"
  shows "\<exists>res. reciprocal_rank_fusion fo lexical semantic limit (Some config) = Inr res
    \<and> hr_total res = int (card (set (hit_ids (srs_results lexical)) \<union> set (hit_ids (srs_results semantic))))
    \<and> map (\<lambda>h. (hh_document_id h, hh_score h)) (hr_results res) =
        take (nat limit) (ranking (fused fo (fc_rrf_k config) (srs_results lexical) (srs_results semantic)))
    \<and> (\<forall>h\<in>set (hr_results res).
         hh_lexical_rank h = rank_of (srs_results lexical) (hh_document_id h)
         \<and> hh_semantic_rank h = rank_of (srs_results semantic) (hh_document_id h)
         \<and> hh_lexical_score h = score_of (srs_results lexical) (hh_document_id h)
         \<and> hh_semantic_score h = score_of (srs_results semantic) (hh_document_id h))"
proof -
  let ?k = "fc_rrf_k config" and ?lex = "srs_results lexical" and ?sem = "srs_results semantic"
  let ?key = "\<lambda>c. rank_key (ca_score c) (ca_document_id c)"
  from fuse_both_loops [OF assms(1,2,4,5)] obtain C1 C where
    loops: "efold (fuse_hit fo ?k set_lexical) (py_enumerate 1 ?lex) [] = Inr C1"
      "efold (fuse_hit fo ?k set_semantic) (py_enumerate 1 ?sem) C1 = Inr C" "dict_ok C"
      "map_of C = final_candidate fo ?k ?lex ?sem" by blast
  let ?res = "\<lparr>hr_total = int (length C), hr_results = map hybrid_hit_of (take (nat limit) (sort_key ?key (map snd C)))\<rparr>"
  have run: "reciprocal_rank_fusion fo lexical semantic limit (Some config) = Inr ?res"
    using assms(3) loops(1,2) by (simp add: reciprocal_rank_fusion_def Let_def)
  have "dom (map_of C) = dom (fused fo ?k ?lex ?sem)"
    using loops(4) final_dom [of fo ?k ?lex ?sem] by (auto simp: dom_def)
  then have total: "length C = card (set (hit_ids ?lex) \<union> set (hit_ids ?sem))"
    using dict_length [OF loops(3)] by (simp add: fused_dom)
  have "map (\<lambda>h. (hh_document_id h, hh_score h)) (hr_results ?res) =
      take (nat limit) (map (\<lambda>c. (ca_document_id c, ca_score c)) (sort_key ?key (map snd C)))"
    by (simp add: take_map hybrid_hit_of_def comp_def)
  then have order: "map (\<lambda>h. (hh_document_id h, hh_score h)) (hr_results ?res) = take (nat limit) (ranking (fused fo ?k ?lex ?sem))"
    by (simp only: fusion_order [OF loops(3,4)])
  have "\<exists>d c. final_candidate fo ?k ?lex ?sem d = Some c \<and> h = hybrid_hit_of c" if h: "h \<in> set (hr_results ?res)" for h
  proof -
    from h obtain c where "c \<in> set (take (nat limit) (sort_key ?key (map snd C)))" "h = hybrid_hit_of c" by auto
    then obtain d where "(d, c) \<in> set C" by (auto dest!: in_take_sort_keyD)
    then show ?thesis using loops(3,4) \<open>h = hybrid_hit_of c\<close> by (metis dict_in_set)
  qed
  then have "\<forall>h\<in>set (hr_results ?res).
         hh_lexical_rank h = rank_of ?lex (hh_document_id h) \<and> hh_semantic_rank h = rank_of ?sem (hh_document_id h)
         \<and> hh_lexical_score h = score_of ?lex (hh_document_id h) \<and> hh_semantic_score h = score_of ?sem (hh_document_id h)"
    using final_candidate_facts [of fo ?k ?lex ?sem] by (fastforce simp: hybrid_hit_of_def)
  with run total order show ?thesis by (intro exI [of _ ?res]) simp
qed

theorem fusion_exact_witness:
  "\<exists>res. reciprocal_rank_fusion rat_ops
       \<lparr>srs_total = 2, srs_results = [\<lparr>sr_document_id = ustr ''a'', sr_score = 3, sr_text = []\<rparr>, \<lparr>sr_document_id = ustr ''b'', sr_score = 2, sr_text = []\<rparr>]\<rparr>
       \<lparr>srs_total = 1, srs_results = [\<lparr>sr_document_id = ustr ''b'', sr_score = 1, sr_text = []\<rparr>]\<rparr> 5 (Some default_fusion_config) = Inr res
     \<and> hr_total res = int (card {ustr ''a'', ustr ''b''})"
proof -
  have div: "rrf_divisors rat_ops" by (auto simp: rrf_divisors_def f_of_int_def)
  have k: "1 \<le> fc_rrf_k default_fusion_config" by (simp add: default_fusion_config_def)
  have ab: "ustr ''a'' \<noteq> ustr ''b''" by code_simp
  from fusion_exact [OF div k, of 5
      "\<lparr>srs_total = 2, srs_results = [\<lparr>sr_document_id = ustr ''a'', sr_score = 3, sr_text = []\<rparr>, \<lparr>sr_document_id = ustr ''b'', sr_score = 2, sr_text = []\<rparr>]\<rparr>"
      "\<lparr>srs_total = 1, srs_results = [\<lparr>sr_document_id = ustr ''b'', sr_score = 1, sr_text = []\<rparr>]\<rparr>"] ab
  show ?thesis by (auto simp: insert_commute)
qed

end
