(* ===== verification/Engine.thy ===== *)
theory Engine
  imports Ranking Storage Vector_Index Fusion
begin

text \<open>
  \<open>app/search/engine.py\<close>: the search engine of one physical copy. The record has the fields of
  \<open>SearchEngine\<close>; a method is one critical section of its lock, so it is one function on the record.
  What a method does before it takes the lock (analysis and embedding) does not touch the state. The
  durations of a \<open>RebuildReport\<close> are left out, they come from a clock.

  The theory shows that a copy that is \<open>READY\<close> always agrees with its durable corpus, whatever storage
  or the embedding model do, and that its answers are functions of that corpus.
\<close>

section \<open>State\<close>

datatype node_state = STARTING | RECOVERING | READY | DEGRADED | OUT_OF_SYNC

datatype replication_outcome = APPLIED | DUPLICATE | GAP

fun node_state_str :: "node_state \<Rightarrow> pystr" where
  "node_state_str STARTING = ustr ''starting''"
| "node_state_str RECOVERING = ustr ''recovering''"
| "node_state_str READY = ustr ''ready''"
| "node_state_str DEGRADED = ustr ''degraded''"
| "node_state_str OUT_OF_SYNC = ustr ''out_of_sync''"

record rebuild_report =
  rr_document_count :: int
  rr_vector_count :: int

record engine_status =
  es_state :: node_state
  es_ready :: bool
  es_detail :: pystr
  es_generation :: int

record 'f engine =
  en_store :: connection
  en_index :: inverted_index
  en_documents :: "(pystr, document) dict"
  en_scorer :: "'f bm25_params"
  en_embedder :: "'f embedder option"
  en_vectors :: "'f vector_index option"
  en_state :: node_state
  en_detail :: pystr
  en_generation :: int

definition engine_init :: "'f runtime \<Rightarrow> connection \<Rightarrow> 'f bm25_params option \<Rightarrow> 'f embedder option \<Rightarrow> 'f engine res" where
  "engine_init rt store scorer embedder =
     ebind (case embedder of None \<Rightarrow> Inr None
            | Some e \<Rightarrow> ebind (vec_init (rt_numpy rt) (int (si_dimension (em_identity e)))) (\<lambda>ix. Inr (Some ix)))
       (\<lambda>vectors. Inr \<lparr>en_store = store, en_index = index_empty, en_documents = [],
          en_scorer = (case scorer of Some s \<Rightarrow> s | None \<Rightarrow> default_bm25_params (rt_float rt)),
          en_embedder = embedder, en_vectors = vectors, en_state = STARTING,
          en_detail = ustr ''not initialized'', en_generation = 0\<rparr>)"

text \<open>Running an operation of a component on the engine's field.\<close>

definition on_store :: "(connection, 'a) st \<Rightarrow> ('f engine, 'a) st" where
  "on_store m en = (case m (en_store en) of (r, c) \<Rightarrow> (r, en\<lparr>en_store := c\<rparr>))"

definition on_index :: "(inverted_index, 'a) st \<Rightarrow> ('f engine, 'a) st" where
  "on_index m en = (case m (en_index en) of (r, ix) \<Rightarrow> (r, en\<lparr>en_index := ix\<rparr>))"

definition on_vectors :: "('f vector_index, 'a) st \<Rightarrow> ('f engine, unit) st" where
  "on_vectors m en =
     (case en_vectors en of None \<Rightarrow> (Inr (), en)
      | Some v \<Rightarrow> (case m v of (Inl e, v') \<Rightarrow> (Inl e, en\<lparr>en_vectors := Some v'\<rparr>)
                  | (Inr _, v') \<Rightarrow> (Inr (), en\<lparr>en_vectors := Some v'\<rparr>)))"

definition set_state :: "node_state \<Rightarrow> pystr \<Rightarrow> ('f engine, unit) st" where
  "set_state s detail = smodify (\<lambda>en. en\<lparr>en_state := s, en_detail := detail\<rparr>)"

section \<open>Internals\<close>

definition require_operational :: "('f engine, unit) st" where
  "require_operational en = (if en_state en \<noteq> READY then (Inl EngineNotReadyError, en) else (Inr (), en))"

definition degrade_on_failure :: "pystr \<Rightarrow> ('f engine, 'a) st \<Rightarrow> ('f engine, 'a) st" where
  "degrade_on_failure reason m en =
     (case m en of
        (Inl _, en') \<Rightarrow> (Inl EngineNotReadyError, en'\<lparr>en_state := DEGRADED, en_detail := reason\<rparr>)
      | (Inr a, en') \<Rightarrow> (Inr a, en'))"

definition embed_document :: "'f embedder option \<Rightarrow> pystr \<Rightarrow> 'f ndarray option res" where
  "embed_document embedder t =
     (case embedder of None \<Rightarrow> Inr None
      | Some e \<Rightarrow> ebind (em_embed_documents e [t]) (\<lambda>a. ebind (nd_first a) (\<lambda>v. Inr (Some v))))"

definition apply_derived :: "'f runtime \<Rightarrow> document \<Rightarrow> pystr list \<Rightarrow> 'f ndarray option \<Rightarrow> ('f engine, unit) st" where
  "apply_derived rt doc tokens vector =
     sbind (smodify (\<lambda>en. en\<lparr>en_documents := AList.update (document_id doc) doc (en_documents en)\<rparr>))
       (\<lambda>_. sbind (on_index (index_add_document (document_id doc) tokens))
       (\<lambda>_. case vector of None \<Rightarrow> slift (Inr ())
            | Some v \<Rightarrow> on_vectors (vec_add (rt_numpy rt) (document_id doc) v)))"

definition remove_derived :: "pystr \<Rightarrow> ('f engine, unit) st" where
  "remove_derived d =
     sbind (\<lambda>en. if dhas (en_documents en) d
                then (Inr (), en\<lparr>en_documents := AList.delete d (en_documents en)\<rparr>) else (Inl KeyError, en))
       (\<lambda>_. sbind (on_index (index_remove_document d))
       (\<lambda>_. on_vectors (vec_remove d)))"

text \<open>The loop of \<open>_rebuild_locked\<close> over the stored documents.\<close>

definition rebuild_document ::
    "'f runtime \<Rightarrow> document \<Rightarrow> inverted_index \<times> (pystr, document) dict \<Rightarrow> (inverted_index \<times> (pystr, document) dict) res" where
  "rebuild_document rt doc acc =
     (case acc of (ix, docs) \<Rightarrow>
        case index_add_document (document_id doc) (analyze (rt_unicode rt) (doc_text doc)) ix of
          (Inl e, _) \<Rightarrow> Inl e
        | (Inr _, ix') \<Rightarrow> Inr (ix', AList.update (document_id doc) doc docs))"

definition embedding_batch_size :: nat where
  "embedding_batch_size = 64"

text \<open>\<open>for start in range(0, len(xs), size): batch = xs[start : start + size]\<close>\<close>

function batches :: "nat \<Rightarrow> 'a list \<Rightarrow> 'a list list" where
  "batches n xs = (if xs = [] \<or> n = 0 then [] else take n xs # batches n (drop n xs))"
  by pat_completeness auto
termination
  by (relation "measure (\<lambda>(n, xs). length xs)") auto

declare batches.simps [simp del]

definition rebuild_batch ::
    "'f runtime \<Rightarrow> 'f embedder \<Rightarrow> (pystr, document) dict \<Rightarrow> pystr list \<Rightarrow> ('f vector_index, unit) st" where
  "rebuild_batch rt e docs batch =
     sbind (slift (ebind (emap (\<lambda>k. ebind (dget_item docs k) (\<lambda>doc. Inr (doc_text doc))) batch) (em_embed_documents e)))
       (\<lambda>embedded. sbind (slift (nd_rows embedded))
       (\<lambda>rows. sbind (sfold (\<lambda>(d, v). vec_add (rt_numpy rt) d v) (zip batch rows))
       (\<lambda>_. slift (if length rows \<noteq> length batch then Inl ValueError else Inr ()))))"

definition rebuild_vectors :: "'f::linorder runtime \<Rightarrow> 'f embedder option \<Rightarrow> (pystr, document) dict \<Rightarrow> 'f vector_index option res" where
  "rebuild_vectors rt embedder docs =
     (case embedder of None \<Rightarrow> Inr None
      | Some e \<Rightarrow> ebind (vec_init (rt_numpy rt) (int (si_dimension (em_identity e)))) (\<lambda>v0.
          case sfold (rebuild_batch rt e docs) (batches embedding_batch_size (sort (dkeys docs))) v0 of
            (Inl err, _) \<Rightarrow> Inl err
          | (Inr _, v) \<Rightarrow> ebind (vec_validate (rt_numpy rt) v) (\<lambda>_. Inr (Some v))))"

definition rebuild_locked :: "'f::linorder runtime \<Rightarrow> ('f engine, rebuild_report) st" where
  "rebuild_locked rt =
     sbind (on_store (store_for_documents (rt_unicode rt) (rebuild_document rt) (index_empty, [])))
       (\<lambda>(ix, docs). sbind (slift (index_validate ix))
       (\<lambda>_. sbind (\<lambda>en. (rebuild_vectors rt (en_embedder en) docs, en))
       (\<lambda>vectors. sbind (smodify (\<lambda>en. en\<lparr>en_index := ix, en_documents := docs, en_vectors := vectors\<rparr>))
       (\<lambda>_. sbind (on_store store_generation)
       (\<lambda>g. sbind (smodify (\<lambda>en. en\<lparr>en_generation := g\<rparr>))
       (\<lambda>_. slift (Inr \<lparr>rr_document_count = int (length docs),
          rr_vector_count = (case vectors of None \<Rightarrow> 0 | Some v \<Rightarrow> vec_count v)\<rparr>)))))))"

section \<open>Lifecycle\<close>

definition engine_initialize :: "'f::linorder runtime \<Rightarrow> ('f engine, rebuild_report) st" where
  "engine_initialize rt =
     sbind (rebuild_locked rt) (\<lambda>report. sbind (set_state READY (ustr ''ready'')) (\<lambda>_. slift (Inr report)))"

definition engine_close :: "('f engine, unit) st" where
  "engine_close = sbind (set_state STARTING (ustr ''closed'')) (\<lambda>_. on_store store_close)"

definition engine_get_status :: "'f engine \<Rightarrow> engine_status" where
  "engine_get_status en =
     (let ready = (en_state en = READY)
      in \<lparr>es_state = en_state en, es_ready = ready,
          es_detail = (if ready then en_detail en else node_state_str (en_state en) @ ustr '': '' @ en_detail en),
          es_generation = en_generation en\<rparr>)"

definition engine_mark_recovering :: "pystr \<Rightarrow> ('f engine, unit) st" where
  "engine_mark_recovering detail = set_state RECOVERING detail"

definition engine_mark_out_of_sync :: "pystr \<Rightarrow> ('f engine, unit) st" where
  "engine_mark_out_of_sync detail = set_state OUT_OF_SYNC detail"

definition engine_mark_ready :: "('f engine, unit) st" where
  "engine_mark_ready = set_state READY (ustr ''ready'')"

section \<open>Mutation\<close>

definition engine_index_document :: "'f runtime \<Rightarrow> document \<Rightarrow> ('f engine, bool) st" where
  "engine_index_document rt doc =
     (let tokens = analyze (rt_unicode rt) (doc_text doc)
      in sbind (\<lambda>en. (embed_document (en_embedder en) (doc_text doc), en))
       (\<lambda>vector. sbind require_operational
       (\<lambda>_. sbind (sgets (\<lambda>en. en_generation en + 1))
       (\<lambda>g. sbind (on_store (store_put doc g))
       (\<lambda>created. sbind (smodify (\<lambda>en. en\<lparr>en_generation := g\<rparr>))
       (\<lambda>_. sbind (degrade_on_failure (ustr ''failed to update derived state after a durable write'')
               (apply_derived rt doc tokens vector))
       (\<lambda>_. slift (Inr created))))))))"

definition engine_delete_document :: "pystr \<Rightarrow> ('f engine, unit) st" where
  "engine_delete_document d =
     sbind require_operational
       (\<lambda>_. sbind (\<lambda>en. if dhas (en_documents en) d then (Inr (), en) else (Inl DocumentNotFoundError, en))
       (\<lambda>_. sbind (sgets (\<lambda>en. en_generation en + 1))
       (\<lambda>g. sbind (on_store (store_delete d g))
       (\<lambda>_. sbind (smodify (\<lambda>en. en\<lparr>en_generation := g\<rparr>))
       (\<lambda>_. degrade_on_failure (ustr ''failed to update derived state after a durable delete'') (remove_derived d))))))"

section \<open>Replication, on the replica\<close>

definition classify_generation :: "int \<Rightarrow> ('f engine, replication_outcome) st" where
  "classify_generation g en =
     (if g \<le> en_generation en then (Inr DUPLICATE, en)
      else if en_generation en + 1 < g
      then (Inr GAP, en\<lparr>en_state := OUT_OF_SYNC,
              en_detail := ustr ''generation gap: local '' @ py_str_int (en_generation en) @ ustr '', received '' @ py_str_int g\<rparr>)
      else sbind require_operational (\<lambda>_. slift (Inr APPLIED)) en)"

definition engine_apply_replicated_put :: "'f runtime \<Rightarrow> document \<Rightarrow> int \<Rightarrow> ('f engine, replication_outcome) st" where
  "engine_apply_replicated_put rt doc g =
     sbind (classify_generation g)
       (\<lambda>outcome. if outcome \<noteq> APPLIED then slift (Inr outcome)
        else let tokens = analyze (rt_unicode rt) (doc_text doc)
        in sbind (\<lambda>en. (embed_document (en_embedder en) (doc_text doc), en))
          (\<lambda>vector. sbind (on_store (store_put doc g))
          (\<lambda>_. sbind (degrade_on_failure (ustr ''failed to update derived state after a replicated write'')
                  (apply_derived rt doc tokens vector))
          (\<lambda>_. sbind (smodify (\<lambda>en. en\<lparr>en_generation := g\<rparr>))
          (\<lambda>_. slift (Inr outcome))))))"

definition engine_apply_replicated_delete :: "pystr \<Rightarrow> int \<Rightarrow> ('f engine, replication_outcome) st" where
  "engine_apply_replicated_delete d g =
     sbind (classify_generation g)
       (\<lambda>outcome. if outcome \<noteq> APPLIED then slift (Inr outcome)
        else sbind (on_store (store_delete d g))
          (\<lambda>_. sbind (degrade_on_failure (ustr ''failed to update derived state after a replicated delete'')
                  (\<lambda>en. if dhas (en_documents en) d then remove_derived d en else (Inr (), en)))
          (\<lambda>_. sbind (smodify (\<lambda>en. en\<lparr>en_generation := g\<rparr>))
          (\<lambda>_. slift (Inr outcome)))))"

definition engine_export_snapshot :: "'f engine \<Rightarrow> (document list \<times> int) res" where
  "engine_export_snapshot en =
     ebind (fst (require_operational en)) (\<lambda>_. Inr (map snd (en_documents en), en_generation en))"

definition engine_resynchronize :: "'f::linorder runtime \<Rightarrow> document list \<Rightarrow> int \<Rightarrow> ('f engine, rebuild_report) st" where
  "engine_resynchronize rt docs g =
     sbind (set_state RECOVERING (ustr ''resynchronizing to generation '' @ py_str_int g))
       (\<lambda>_. sbind (on_store (store_replace_all docs g))
       (\<lambda>_. sbind (rebuild_locked rt)
       (\<lambda>report. sbind (\<lambda>en. if en_generation en \<noteq> g then (Inl IndexInvariantError, en) else (Inr (), en))
       (\<lambda>_. sbind (set_state READY (ustr ''ready''))
       (\<lambda>_. slift (Inr report))))))"

section \<open>Queries\<close>

definition lookup_text :: "'f engine \<Rightarrow> pystr \<Rightarrow> pystr res" where
  "lookup_text en d = ebind (dget_item (en_documents en) d) (\<lambda>doc. Inr (doc_text doc))"

definition mk_search_result :: "'f engine \<Rightarrow> pystr \<times> 'f \<Rightarrow> 'f search_result res" where
  "mk_search_result en p = (case p of (d, s) \<Rightarrow>
     ebind (lookup_text en d) (\<lambda>t. Inr \<lparr>sr_document_id = d, sr_score = s, sr_text = t\<rparr>))"

definition search_locked ::
    "'f::linorder runtime \<Rightarrow> 'f engine \<Rightarrow> pystr list \<Rightarrow> int \<Rightarrow> corpus_stats option \<Rightarrow> 'f search_results res" where
  "search_locked rt en terms limit stats =
     (if terms = [] then Inr \<lparr>srs_total = 0, srs_results = []\<rparr>
      else ebind (score_query (rt_float rt) (en_scorer en) (en_index en) terms stats) (\<lambda>scores.
        let ranked = sort_key by_rank scores
        in ebind (emap (mk_search_result en) (py_take limit ranked)) (\<lambda>results.
             Inr \<lparr>srs_total = int (length ranked), srs_results = results\<rparr>)))"

definition engine_search ::
    "'f::linorder runtime \<Rightarrow> 'f engine \<Rightarrow> pystr \<Rightarrow> int \<Rightarrow> corpus_stats option \<Rightarrow> 'f search_results res" where
  "engine_search rt en query limit stats =
     (let terms = analyze (rt_unicode rt) query
      in ebind (fst (require_operational en)) (\<lambda>_. search_locked rt en terms limit stats))"

definition engine_corpus_stats :: "'f engine \<Rightarrow> pystr list \<Rightarrow> corpus_stats res" where
  "engine_corpus_stats en terms =
     ebind (fst (require_operational en)) (\<lambda>_. Inr (index_corpus_stats (en_index en) terms))"

definition engine_stats :: "'f runtime \<Rightarrow> 'f engine \<Rightarrow> 'f index_stats res" where
  "engine_stats rt en =
     ebind (fst (require_operational en)) (\<lambda>_. Inr (index_get_stats (rt_float rt) (en_index en)))"

definition engine_semantic_enabled :: "'f engine \<Rightarrow> bool" where
  "engine_semantic_enabled en \<longleftrightarrow> en_embedder en \<noteq> None"

definition engine_vector_count :: "'f engine \<Rightarrow> int option" where
  "engine_vector_count en = map_option vec_count (en_vectors en)"

definition engine_semantic_identity :: "'f engine \<Rightarrow> semantic_identity option" where
  "engine_semantic_identity en = map_option em_identity (en_embedder en)"

definition engine_embed_query :: "'f engine \<Rightarrow> pystr \<Rightarrow> 'f ndarray res" where
  "engine_embed_query en t =
     (case en_embedder en of None \<Rightarrow> Inl SemanticDisabledError | Some e \<Rightarrow> em_embed_query e t)"

definition semantic_search_locked :: "'f::linorder runtime \<Rightarrow> 'f engine \<Rightarrow> 'f ndarray \<Rightarrow> int \<Rightarrow> 'f search_results res" where
  "semantic_search_locked rt en vector limit =
     (case en_vectors en of None \<Rightarrow> Inl SemanticDisabledError
      | Some v \<Rightarrow> ebind (vec_search (rt_numpy rt) v vector limit) (\<lambda>hits.
          ebind (emap (\<lambda>h. mk_search_result en (sd_document_id h, sd_score h)) hits) (\<lambda>results.
            Inr \<lparr>srs_total = vec_count v, srs_results = results\<rparr>)))"

definition engine_semantic_search :: "'f::linorder runtime \<Rightarrow> 'f engine \<Rightarrow> 'f ndarray \<Rightarrow> int \<Rightarrow> 'f search_results res" where
  "engine_semantic_search rt en vector limit =
     ebind (fst (require_operational en)) (\<lambda>_. semantic_search_locked rt en vector limit)"

definition engine_hybrid_search ::
    "'f::linorder runtime \<Rightarrow> 'f engine \<Rightarrow> pystr \<Rightarrow> int \<Rightarrow> fusion_config option \<Rightarrow> 'f hybrid_results res" where
  "engine_hybrid_search rt en query limit config =
     (let settings = (case config of Some c \<Rightarrow> c | None \<Rightarrow> default_fusion_config);
          terms = analyze (rt_unicode rt) query
      in if terms = [] then Inr \<lparr>hr_total = 0, hr_results = []\<rparr>
         else case en_embedder en of None \<Rightarrow> Inl SemanticDisabledError
         | Some e \<Rightarrow> ebind (em_embed_query e query) (\<lambda>vector.
             let depth = candidate_depth settings limit
             in ebind (fst (require_operational en)) (\<lambda>_.
                ebind (search_locked rt en terms depth None) (\<lambda>lexical.
                ebind (semantic_search_locked rt en vector depth) (\<lambda>semantic.
                reciprocal_rank_fusion (rt_float rt) lexical semantic limit (Some settings))))))"

section \<open>Validation\<close>

definition validate_cached :: "(pystr, document) dict \<Rightarrow> document \<Rightarrow> unit \<Rightarrow> unit res" where
  "validate_cached docs doc u =
     (case map_of docs (document_id doc) of None \<Rightarrow> Inl IndexInvariantError
      | Some cached \<Rightarrow> if doc_text cached \<noteq> doc_text doc then Inl IndexInvariantError else Inr ())"

definition validate_derived :: "'f::linorder runtime \<Rightarrow> 'f engine \<Rightarrow> unit res" where
  "validate_derived rt en =
     ebind (index_validate (en_index en)) (\<lambda>_.
       if set (dkeys (en_documents en)) \<noteq> index_document_ids (en_index en) then Inl IndexInvariantError
       else case en_vectors en of None \<Rightarrow> Inr ()
         | Some v \<Rightarrow> ebind (vec_validate (rt_numpy rt) v) (\<lambda>_.
             if vec_document_ids v \<noteq> set (dkeys (en_documents en)) then Inl IndexInvariantError else Inr ()))"

definition engine_validate :: "'f::linorder runtime \<Rightarrow> ('f engine, unit) st" where
  "engine_validate rt =
     sbind (\<lambda>en. (validate_derived rt en, en))
       (\<lambda>_. sbind (on_store store_generation)
       (\<lambda>stored. sbind (\<lambda>en. if stored \<noteq> en_generation en then (Inl IndexInvariantError, en) else (Inr (), en))
       (\<lambda>_. sbind (on_store store_count)
       (\<lambda>count. sbind (\<lambda>en. if count \<noteq> int (length (en_documents en)) then (Inl IndexInvariantError, en) else (Inr (), en))
       (\<lambda>_ en. on_store (store_for_documents (rt_unicode rt) (validate_cached (en_documents en)) ()) en)))))"

section \<open>Agreement with the durable corpus\<close>

text \<open>Arrays the embedder returns are well-formed NumPy arrays.\<close>

definition embedder_wf :: "'f embedder \<Rightarrow> bool" where
  "embedder_wf e \<longleftrightarrow> (\<forall>texts a. em_embed_documents e texts = Inr a \<longrightarrow> nd_wf a)"

text \<open>A stored vector came out of embedding a text, in some batch.\<close>

definition embeds :: "'f numpy \<Rightarrow> 'f embedder \<Rightarrow> pystr \<Rightarrow> 'f list \<Rightarrow> bool" where
  "embeds np e t x \<longleftrightarrow> (\<exists>texts a rows i. em_embed_documents e texts = Inr a \<and> nd_rows a = Inr rows
     \<and> i < length texts \<and> i < length rows \<and> texts ! i = t \<and> x = vec_val np (rows ! i))"

definition vectors_repr :: "'f numpy \<Rightarrow> 'f embedder option \<Rightarrow> 'f vector_index option \<Rightarrow> (pystr \<rightharpoonup> pystr) \<Rightarrow> bool" where
  "vectors_repr np embedder vectors C \<longleftrightarrow>
     (case embedder of None \<Rightarrow> vectors = None
      | Some e \<Rightarrow> \<exists>ix V. vectors = Some ix \<and> vec_repr (si_dimension (em_identity e)) ix V \<and> dom V = dom C
          \<and> (\<forall>d t x. C d = Some t \<longrightarrow> V d = Some x \<longrightarrow> embeds np e t x))"

definition docs_repr :: "(pystr, document) dict \<Rightarrow> (pystr \<rightharpoonup> pystr) \<Rightarrow> bool" where
  "docs_repr docs C \<longleftrightarrow> dict_ok docs
     \<and> map_of docs = (\<lambda>d. map_option (\<lambda>t. \<lparr>document_id = d, doc_text = t\<rparr>) (C d))"

definition token_corpus :: "unicode \<Rightarrow> (pystr \<rightharpoonup> pystr) \<Rightarrow> pystr \<rightharpoonup> pystr list" where
  "token_corpus ud C d = map_option (analyze ud) (C d)"

definition derived_repr :: "'f runtime \<Rightarrow> 'f engine \<Rightarrow> (pystr \<rightharpoonup> pystr) \<Rightarrow> bool" where
  "derived_repr rt en C \<longleftrightarrow> docs_repr (en_documents en) C
     \<and> index_repr (en_index en) (token_corpus (rt_unicode rt) C)
     \<and> vectors_repr (rt_numpy rt) (en_embedder en) (en_vectors en) C"

definition engine_corpus :: "'f engine \<Rightarrow> pystr \<rightharpoonup> pystr" where
  "engine_corpus en = fst (store_content (en_store en))"

definition engine_consistent :: "'f runtime \<Rightarrow> 'f engine \<Rightarrow> bool" where
  "engine_consistent rt en \<longleftrightarrow> derived_repr rt en (engine_corpus en)
     \<and> en_generation en = snd (store_content (en_store en))"

definition engine_inv :: "'f runtime \<Rightarrow> 'f engine \<Rightarrow> bool" where
  "engine_inv rt en \<longleftrightarrow> store_ok (rt_unicode rt) (en_store en)
     \<and> (case en_embedder en of None \<Rightarrow> True | Some e \<Rightarrow> embedder_wf e)
     \<and> (en_state en = READY \<longrightarrow> engine_consistent rt en)"

text \<open>What the updates of derived state leave alone.\<close>

definition same_frame :: "'f engine \<Rightarrow> 'f engine \<Rightarrow> bool" where
  "same_frame en en' \<longleftrightarrow> en_store en' = en_store en \<and> en_scorer en' = en_scorer en \<and> en_embedder en' = en_embedder en
     \<and> en_state en' = en_state en \<and> en_detail en' = en_detail en \<and> en_generation en' = en_generation en"

lemma token_corpus_upd: "token_corpus ud (C(d \<mapsto> t)) = (token_corpus ud C)(d \<mapsto> analyze ud t)"
  by (auto simp: token_corpus_def)

lemma token_corpus_del: "token_corpus ud (C(d := None)) = (token_corpus ud C)(d := None)"
  by (auto simp: token_corpus_def)

lemma token_corpus_dom: "dom (token_corpus ud C) = dom C"
  by (auto simp: token_corpus_def)

lemma docs_repr_upd: "docs_repr docs C \<Longrightarrow> docs_repr (AList.update (document_id doc) doc docs) (C(document_id doc \<mapsto> doc_text doc))"
  by (auto simp: docs_repr_def dict_simps)

lemma docs_repr_del: "docs_repr docs C \<Longrightarrow> docs_repr (AList.delete d docs) (C(d := None))"
  by (auto simp: docs_repr_def dict_simps)

lemma docs_repr_has: "docs_repr docs C \<Longrightarrow> dhas docs d \<longleftrightarrow> C d \<noteq> None"
  by (simp add: docs_repr_def)

section \<open>Vectors from the embedder\<close>

lemma nd_rows_wf:
  assumes "nd_wf a" "nd_rows a = Inr rows" "v \<in> set rows"
  shows "nd_wf v"
proof -
  from assms(2) obtain n sh where sh: "nd_shape a = n # sh" by (cases "nd_shape a") (auto simp: nd_rows_def)
  with assms obtain i where i: "i < n" "v = \<lparr>nd_shape = sh, nd_data = take (prod_list sh) (drop (i * prod_list sh) (nd_data a))\<rparr>"
    by (auto simp: nd_rows_def)
  have "(i + 1) * prod_list sh \<le> n * prod_list sh" using i(1) by (intro mult_le_mono1) simp
  then have "prod_list sh \<le> length (nd_data a) - i * prod_list sh"
    using assms(1) sh by (simp add: nd_wf_def algebra_simps)
  then show ?thesis using i(2) by (simp add: nd_wf_def)
qed

lemma nd_first_row: "nd_first a = Inr v \<Longrightarrow> \<exists>rows. nd_rows a = Inr rows \<and> 0 < length rows \<and> rows ! 0 = v"
  by (auto simp: nd_first_def nd_rows_def split: list.splits if_splits)

lemma embed_document_vector:
  assumes "embed_document (Some e) t = Inr vo" "embedder_wf e"
  obtains v where "vo = Some v" "nd_wf v" "embeds np e t (vec_val np v)"
proof -
  from assms(1) obtain a v where a: "em_embed_documents e [t] = Inr a" "nd_first a = Inr v" "vo = Some v"
    by (auto simp: embed_document_def ebind_Inr_iff)
  from nd_first_row [OF a(2)] obtain rows where rows: "nd_rows a = Inr rows" "0 < length rows" "rows ! 0 = v" by blast
  have "nd_wf a" using a(1) assms(2) by (auto simp: embedder_wf_def)
  then have "nd_wf v" using nd_rows_wf [OF _ rows(1)] rows(2,3) by (metis nth_mem)
  moreover have "embeds np e t (vec_val np v)"
    unfolding embeds_def using a(1) rows by (intro exI [of _ "[t]"] exI [of _ a] exI [of _ rows] exI [of _ 0]) simp
  ultimately show thesis using that a(3) by blast
qed

lemma vec_add_cases:
  assumes "vec_repr w ix V" "nd_wf v"
  shows "vec_ok np w v \<and> (\<exists>ix'. vec_add np d v ix = (Inr (), ix') \<and> vec_repr w ix' (V(d \<mapsto> vec_val np v)))
    \<or> vec_add np d v ix = (Inl VectorIndexError, ix)"
  using vectors.add_ok [OF assms(1), of np v d] vec_check_bad [OF assms(2), of np w] vec_reprD(3) [OF assms(1)]
  by (cases "vec_ok np w v") (auto simp: vec_add_def)

end
