(* ===== verification/Engine_Invariant.thy ===== *)
theory Engine_Invariant
  imports Engine
begin

text \<open>
  The engine keeps its derived state in agreement with storage. First the updates of derived state
  and the rebuild, then every operation: each preserves \<open>engine_inv\<close>, under any schedule of storage
  failures and for any behaviour of the embedding model.
\<close>

section \<open>Updating derived state\<close>

lemma docs_repr_dom: "docs_repr docs C \<Longrightarrow> set (dkeys docs) = dom C"
  by (simp only: set_dkeys_dom docs_repr_def) auto

lemma vectors_reprI:
  assumes "vec_repr (si_dimension (em_identity e)) ix V" "dom V = dom C"
    "\<forall>d t x. C d = Some t \<longrightarrow> V d = Some x \<longrightarrow> embeds np e t x"
  shows "vectors_repr np (Some e) (Some ix) C"
  using assms unfolding vectors_repr_def by auto

lemma vectors_repr_add:
  assumes "vectors_repr np (Some e) vo C" "embedder_wf e" "embed_document (Some e) t = Inr vector"
  shows "\<exists>w vi vi'. vector = Some w \<and> vo = Some vi
    \<and> (vec_add np k w vi = (Inr (), vi') \<and> vectors_repr np (Some e) (Some vi') (C(k \<mapsto> t))
       \<or> vec_add np k w vi = (Inl VectorIndexError, vi'))"
proof -
  from assms(2,3) obtain w where w: "vector = Some w" "nd_wf w" "embeds np e t (vec_val np w)" by (auto elim: embed_document_vector)
  from assms(1) obtain vi V where vi: "vo = Some vi" "vec_repr (si_dimension (em_identity e)) vi V" "dom V = dom C"
      "\<forall>d t x. C d = Some t \<longrightarrow> V d = Some x \<longrightarrow> embeds np e t x"
    by (auto simp: vectors_repr_def)
  have "vectors_repr np (Some e) (Some vi') (C(k \<mapsto> t))" if "vec_repr (si_dimension (em_identity e)) vi' (V(k \<mapsto> vec_val np w))" for vi'
    by (rule vectors_reprI [OF that]) (use vi(3,4) w(3) in simp_all)
  then show ?thesis using vec_add_cases [OF vi(2) w(2), of np k] w(1) vi(1) by blast
qed

lemma apply_derived_cases:
  assumes d: "derived_repr rt en C"
    and wf: "case en_embedder en of None \<Rightarrow> True | Some e \<Rightarrow> embedder_wf e"
    and v: "embed_document (en_embedder en) (doc_text doc) = Inr vector"
  shows "\<exists>en'. same_frame en en' \<and>
      (apply_derived rt doc (analyze (rt_unicode rt) (doc_text doc)) vector en = (Inr (), en')
         \<and> derived_repr rt en' (C(document_id doc \<mapsto> doc_text doc))
       \<or> (\<exists>e. apply_derived rt doc (analyze (rt_unicode rt) (doc_text doc)) vector en = (Inl e, en')))"
proof -
  let ?C = "C(document_id doc \<mapsto> doc_text doc)" and ?toks = "analyze (rt_unicode rt) (doc_text doc)"
  let ?docs = "AList.update (document_id doc) doc (en_documents en)"
  from d have dd: "docs_repr ?docs ?C" by (auto simp: derived_repr_def intro: docs_repr_upd)
  from d have "index_repr (en_index en) (token_corpus (rt_unicode rt) C)" by (simp add: derived_repr_def)
  from lexical.add_ok [OF this, where v = ?toks and k = "document_id doc"] obtain ix where
    ix: "index_add_document (document_id doc) ?toks (en_index en) = (Inr (), ix)"
      "index_repr ix (token_corpus (rt_unicode rt) ?C)"
    by (auto simp: token_corpus_upd simp del: fun_upd_apply)
  let ?en = "en\<lparr>en_documents := ?docs, en_index := ix\<rparr>"
  have step: "apply_derived rt doc ?toks vector en =
      (case vector of None \<Rightarrow> (Inr (), ?en) | Some v \<Rightarrow> on_vectors (vec_add (rt_numpy rt) (document_id doc) v) ?en)"
    by (simp add: apply_derived_def st_defs on_index_def sbind_def ix(1) split: option.splits)
  show ?thesis
  proof (cases "en_embedder en")
    case None
    then have "vector = None" using v by (simp add: embed_document_def)
    moreover have "vectors_repr (rt_numpy rt) (en_embedder en) (en_vectors en) ?C"
      using d None by (simp add: derived_repr_def vectors_repr_def)
    ultimately show ?thesis using step dd ix(2)
      by (intro exI [of _ ?en]) (simp add: same_frame_def derived_repr_def)
  next
    case (Some e)
    have "vectors_repr (rt_numpy rt) (Some e) (en_vectors en) C" "embedder_wf e" "embed_document (Some e) (doc_text doc) = Inr vector"
      using d wf v Some by (simp_all add: derived_repr_def)
    from vectors_repr_add [OF this, of "document_id doc"] obtain w vi vi' where
      w: "vector = Some w" "en_vectors en = Some vi" and a: "vec_add (rt_numpy rt) (document_id doc) w vi = (Inr (), vi')
           \<and> vectors_repr (rt_numpy rt) (Some e) (Some vi') ?C
         \<or> vec_add (rt_numpy rt) (document_id doc) w vi = (Inl VectorIndexError, vi')" by blast
    then show ?thesis using step dd ix(2) Some
      by (intro exI [of _ "?en\<lparr>en_vectors := Some vi'\<rparr>"]) (auto simp: same_frame_def derived_repr_def on_vectors_def)
  qed
qed

lemma remove_derived_ok:
  assumes d: "derived_repr rt en C" and x: "C i \<noteq> None"
  shows "\<exists>en'. same_frame en en' \<and> remove_derived i en = (Inr (), en') \<and> derived_repr rt en' (C(i := None))"
proof -
  let ?docs = "AList.delete i (en_documents en)"
  from d have docs: "docs_repr (en_documents en) C" and index: "index_repr (en_index en) (token_corpus (rt_unicode rt) C)"
    by (simp_all add: derived_repr_def)
  have "token_corpus (rt_unicode rt) C i \<noteq> None" using x by (simp add: token_corpus_def)
  from lexical.remove_ok [OF index this] obtain ix where
    ix: "index_remove_document i (en_index en) = (Inr (), ix)" "index_repr ix (token_corpus (rt_unicode rt) (C(i := None)))"
    by (auto simp: token_corpus_del simp del: fun_upd_apply)
  have dd: "docs_repr ?docs (C(i := None))" by (rule docs_repr_del [OF docs])
  let ?en = "en\<lparr>en_documents := ?docs, en_index := ix\<rparr>"
  have has: "dhas (en_documents en) i" using docs_repr_has [OF docs] x by simp
  then have step: "remove_derived i en = on_vectors (vec_remove i) ?en"
    by (simp add: remove_derived_def on_index_def sbind_def ix(1))
  show ?thesis
  proof (cases "en_embedder en")
    case None
    then have "en_vectors en = None" using d by (simp add: derived_repr_def vectors_repr_def)
    then show ?thesis using step dd ix(2) None
      by (intro exI [of _ ?en]) (simp add: same_frame_def derived_repr_def vectors_repr_def on_vectors_def)
  next
    case (Some e)
    with d obtain vi V where vi: "en_vectors en = Some vi" "vec_repr (si_dimension (em_identity e)) vi V" "dom V = dom C"
        "\<forall>d t x. C d = Some t \<longrightarrow> V d = Some x \<longrightarrow> embeds (rt_numpy rt) e t x"
      by (auto simp: derived_repr_def vectors_repr_def)
    from vec_remove_repr [OF vi(2), of i] obtain vi' where
      r: "vec_remove i vi = (Inr (V i \<noteq> None), vi')" "vec_repr (si_dimension (em_identity e)) vi' (V(i := None))" by blast
    have "vectors_repr (rt_numpy rt) (en_embedder en) (Some vi') (C(i := None))"
    proof -
      have "dom (V(i := None)) = dom (C(i := None))" using vi(3) by simp
      moreover have "\<forall>d t x. (C(i := None)) d = Some t \<longrightarrow> (V(i := None)) d = Some x \<longrightarrow> embeds (rt_numpy rt) e t x"
        using vi(4) by simp
      ultimately show ?thesis using vectors_reprI [OF r(2)] Some by simp
    qed
    then show ?thesis using step dd ix(2) vi(1) r(1)
      by (intro exI [of _ "?en\<lparr>en_vectors := Some vi'\<rparr>"]) (simp add: same_frame_def derived_repr_def on_vectors_def)
  qed
qed

section \<open>Rebuilding\<close>

lemma rebuild_documents_loop:
  assumes "index_repr ix (token_corpus (rt_unicode rt) C)" "docs_repr ds C"
  shows "\<exists>ix' ds'. efold (rebuild_document rt) docs (ix, ds) = Inr (ix', ds')
    \<and> index_repr ix' (token_corpus (rt_unicode rt) (C ++ docs_corpus (rev docs))) \<and> docs_repr ds' (C ++ docs_corpus (rev docs))"
  using assms
proof (induction docs arbitrary: ix ds C)
  case Nil
  then show ?case by (simp add: docs_corpus_def)
next
  case (Cons doc docs)
  let ?C = "C(document_id doc \<mapsto> doc_text doc)"
  from lexical.add_ok [OF Cons.prems(1), where v = "analyze (rt_unicode rt) (doc_text doc)" and k = "document_id doc"] obtain ix1 where
    1: "index_add_document (document_id doc) (analyze (rt_unicode rt) (doc_text doc)) ix = (Inr (), ix1)"
      "index_repr ix1 (token_corpus (rt_unicode rt) ?C)"
    by (auto simp: token_corpus_upd simp del: fun_upd_apply)
  from Cons.IH [OF 1(2) docs_repr_upd [OF Cons.prems(2)]] obtain ix' ds' where
    2: "efold (rebuild_document rt) docs (ix1, AList.update (document_id doc) doc ds) = Inr (ix', ds')"
      "index_repr ix' (token_corpus (rt_unicode rt) (?C ++ docs_corpus (rev docs)))" "docs_repr ds' (?C ++ docs_corpus (rev docs))"
    by blast
  have "?C ++ docs_corpus (rev docs) = C ++ docs_corpus (rev (doc # docs))"
    by (simp add: docs_corpus_def map_of_append)
  moreover have "rebuild_document rt doc (ix, ds) = Inr (ix1, AList.update (document_id doc) doc ds)"
    using 1(1) by (simp add: rebuild_document_def)
  ultimately show ?case using 2 by (intro exI [of _ ix'] exI [of _ ds']) simp
qed

lemma rebuild_documents:
  assumes "distinct (map document_id docs)"
  shows "\<exists>ix ds. efold (rebuild_document rt) docs (index_empty, []) = Inr (ix, ds)
    \<and> index_repr ix (token_corpus (rt_unicode rt) (docs_corpus docs)) \<and> docs_repr ds (docs_corpus docs)"
proof -
  have e: "index_repr index_empty (token_corpus (rt_unicode rt) Map.empty)" "docs_repr [] Map.empty"
    using index_empty_repr by (simp_all add: token_corpus_def [abs_def] docs_repr_def)
  have "distinct (map fst (map (\<lambda>doc. (document_id doc, doc_text doc)) docs))" using assms by (simp add: comp_def)
  then have "map_of (rev (map (\<lambda>doc. (document_id doc, doc_text doc)) docs)) = map_of (map (\<lambda>doc. (document_id doc, doc_text doc)) docs)"
    by (intro map_of_set_eq) (simp_all add: rev_map [symmetric] del: map_map)
  then have "docs_corpus (rev docs) = docs_corpus docs" by (simp add: docs_corpus_def rev_map)
  with rebuild_documents_loop [OF e, of docs] show ?thesis by simp
qed

lemma vec_add_loop:
  assumes "sfold (\<lambda>(d, v). vec_add np d v) ps ix = (Inr (), ix')" "vec_repr w ix V" "\<forall>(d, v)\<in>set ps. nd_wf v"
  shows "\<exists>V'. vec_repr w ix' V' \<and> dom V' = dom V \<union> fst ` set ps
    \<and> (\<forall>d x. V' d = Some x \<longrightarrow> V d = Some x \<or> (\<exists>v. (d, v) \<in> set ps \<and> x = vec_val np v))"
  using assms
proof (induction ps arbitrary: ix V)
  case Nil
  then show ?case by auto
next
  case (Cons p ps)
  obtain d v where p: "p = (d, v)" by (cases p)
  have "nd_wf v" using Cons.prems(3) p by simp
  from vec_add_cases [OF Cons.prems(2) this, of np d] Cons.prems(1) p obtain ix1 where
    1: "vec_repr w ix1 (V(d \<mapsto> vec_val np v))" "sfold (\<lambda>(d, v). vec_add np d v) ps ix1 = (Inr (), ix')"
    by (auto simp: sbind_def)
  have "\<forall>(d, v)\<in>set ps. nd_wf v" using Cons.prems(3) by simp
  from Cons.IH [OF 1(2,1) this] obtain V' where
    "vec_repr w ix' V'" "dom V' = dom (V(d \<mapsto> vec_val np v)) \<union> fst ` set ps"
    "\<forall>e x. V' e = Some x \<longrightarrow> (V(d \<mapsto> vec_val np v)) e = Some x \<or> (\<exists>v. (e, v) \<in> set ps \<and> x = vec_val np v)" by blast
  note V' = this
  have "V e = Some x \<or> (\<exists>v. (e, v) \<in> set (p # ps) \<and> x = vec_val np v)" if "V' e = Some x" for e x
    using V'(3) [rule_format, OF that] p by (cases "e = d") auto
  moreover have "dom V' = dom V \<union> fst ` set (p # ps)" using V'(2) p by auto
  ultimately show ?case using V'(1) by blast
qed

lemma batch_texts:
  assumes "emap (\<lambda>k. ebind (dget_item docs k) (\<lambda>doc. Inr (doc_text doc))) batch = Inr texts" "docs_repr docs C"
  shows "length texts = length batch" "i < length batch \<Longrightarrow> C (batch ! i) = Some (texts ! i)"
proof -
  have all: "list_all2 (\<lambda>k t. ebind (dget_item docs k) (\<lambda>doc. Inr (doc_text doc)) = Inr t) batch texts"
    using assms(1) by (simp add: emap_Inr_iff)
  then show "length texts = length batch" by (simp add: list_all2_lengthD)
  assume "i < length batch"
  then have "ebind (dget_item docs (batch ! i)) (\<lambda>doc. Inr (doc_text doc)) = Inr (texts ! i)"
    using list_all2_nthD [OF all] by blast
  then show "C (batch ! i) = Some (texts ! i)"
    using assms(2) by (cases "C (batch ! i)") (auto simp: docs_repr_def dget_item_def)
qed

lemma rebuild_batch_repr:
  assumes run: "rebuild_batch rt e docs batch ix = (Inr (), ix')" and r: "vec_repr w ix V"
    and wf: "embedder_wf e" and docs: "docs_repr docs C"
  shows "\<exists>V'. vec_repr w ix' V' \<and> dom V' = dom V \<union> set batch
    \<and> (\<forall>d x t. V' d = Some x \<longrightarrow> C d = Some t \<longrightarrow> V d = Some x \<or> embeds (rt_numpy rt) e t x)"
proof -
  from run obtain texts a rows where
    t: "emap (\<lambda>k. ebind (dget_item docs k) (\<lambda>doc. Inr (doc_text doc))) batch = Inr texts" and
    a: "em_embed_documents e texts = Inr a" and rows: "nd_rows a = Inr rows" and
    loop: "sfold (\<lambda>(d, v). vec_add (rt_numpy rt) d v) (zip batch rows) ix = (Inr (), ix')" and
    len: "length rows = length batch"
    by (auto simp: rebuild_batch_def st_defs ebind_Inr_iff elim!: sbind_Inr_E split: if_splits)
  have "nd_wf a" using a wf by (auto simp: embedder_wf_def)
  then have "\<forall>(d, v)\<in>set (zip batch rows). nd_wf v" using nd_rows_wf [OF _ rows] by (auto dest: set_zip_rightD)
  from vec_add_loop [OF loop r this] obtain V' where
    V': "vec_repr w ix' V'" "dom V' = dom V \<union> fst ` set (zip batch rows)"
      "\<forall>d x. V' d = Some x \<longrightarrow> V d = Some x \<or> (\<exists>v. (d, v) \<in> set (zip batch rows) \<and> x = vec_val (rt_numpy rt) v)" by blast
  have "embeds (rt_numpy rt) e u (vec_val (rt_numpy rt) v)" if dv: "(d, v) \<in> set (zip batch rows)" and u: "C d = Some u" for d v u
  proof -
    from dv obtain i where i: "i < length batch" "d = batch ! i" "v = rows ! i"
      using len by (auto simp: in_set_zip)
    then have "texts ! i = u" using batch_texts(2) [OF t docs i(1)] u by simp
    then show ?thesis using a rows i len batch_texts(1) [OF t docs] unfolding embeds_def
      by (intro exI [of _ texts] exI [of _ a] exI [of _ rows] exI [of _ i]) simp
  qed
  then have "\<forall>d x t. V' d = Some x \<longrightarrow> C d = Some t \<longrightarrow> V d = Some x \<or> embeds (rt_numpy rt) e t x"
    using V'(3) by blast
  moreover have "fst ` set (zip batch rows) = set batch"
    using len by (metis list.set_map map_fst_zip)
  ultimately show ?thesis using V' by auto
qed

lemma rebuild_batches_repr:
  assumes "sfold (rebuild_batch rt e docs) bs ix = (Inr (), ix')" "vec_repr w ix V"
    and wf: "embedder_wf e" and docs: "docs_repr docs C"
  shows "\<exists>V'. vec_repr w ix' V' \<and> dom V' = dom V \<union> set (concat bs)
    \<and> (\<forall>d x t. V' d = Some x \<longrightarrow> C d = Some t \<longrightarrow> V d = Some x \<or> embeds (rt_numpy rt) e t x)"
  using assms(1,2)
proof (induction bs arbitrary: ix V)
  case Nil
  then show ?case by auto
next
  case (Cons b bs)
  then obtain ix1 where 1: "rebuild_batch rt e docs b ix = (Inr (), ix1)" "sfold (rebuild_batch rt e docs) bs ix1 = (Inr (), ix')"
    by (auto elim: sbind_Inr_E)
  from rebuild_batch_repr [OF 1(1) Cons.prems(2) wf docs] obtain V1 where
    V1: "vec_repr w ix1 V1" "dom V1 = dom V \<union> set b"
      "\<forall>d x t. V1 d = Some x \<longrightarrow> C d = Some t \<longrightarrow> V d = Some x \<or> embeds (rt_numpy rt) e t x" by blast
  from Cons.IH [OF 1(2) V1(1)] obtain V2 where
    V2: "vec_repr w ix' V2" "dom V2 = dom V1 \<union> set (concat bs)"
      "\<forall>d x t. V2 d = Some x \<longrightarrow> C d = Some t \<longrightarrow> V1 d = Some x \<or> embeds (rt_numpy rt) e t x" by blast
  have "\<forall>d x t. V2 d = Some x \<longrightarrow> C d = Some t \<longrightarrow> V d = Some x \<or> embeds (rt_numpy rt) e t x"
    using V1(3) V2(3) by blast
  moreover have "dom V2 = dom V \<union> set (concat (b # bs))" using V1(2) V2(2) by auto
  ultimately show ?case using V2(1) by blast
qed

lemma concat_batches: "0 < n \<Longrightarrow> concat (batches n xs) = xs"
proof (induction n xs rule: batches.induct)
  case (1 n xs)
  then show ?case by (subst batches.simps) auto
qed

lemma vec_init_empty: "vec_init np (int w) = Inr ix \<Longrightarrow> ix = vec_empty np w"
  by (auto simp: vec_init_def vec_empty_def split: if_splits)

lemma rebuild_vectors_repr:
  assumes run: "rebuild_vectors rt embedder docs = Inr vo" and docs: "docs_repr docs C"
    and wf: "case embedder of None \<Rightarrow> True | Some e \<Rightarrow> embedder_wf e"
  shows "vectors_repr (rt_numpy rt) embedder vo C"
proof (cases embedder)
  case None
  then show ?thesis using run by (simp add: rebuild_vectors_def vectors_repr_def)
next
  case (Some e)
  let ?w = "si_dimension (em_identity e)"
  let ?bs = "batches embedding_batch_size (sort (dkeys docs))"
  from run Some obtain v0 where v0: "vec_init (rt_numpy rt) (int ?w) = Inr v0"
      "(case sfold (rebuild_batch rt e docs) ?bs v0 of (Inl err, _) \<Rightarrow> Inl err
        | (Inr _, v) \<Rightarrow> ebind (vec_validate (rt_numpy rt) v) (\<lambda>_. Inr (Some v))) = Inr vo"
    by (auto simp: rebuild_vectors_def ebind_Inr_iff)
  obtain r v where rv: "sfold (rebuild_batch rt e docs) ?bs v0 = (r, v)" by (cases "sfold (rebuild_batch rt e docs) ?bs v0")
  then have v: "vo = Some v" "sfold (rebuild_batch rt e docs) ?bs (vec_empty (rt_numpy rt) ?w) = (Inr (), v)"
    using v0(2) vec_init_empty [OF v0(1)] by (cases r; simp add: ebind_Inr_iff)+
  have "embedder_wf e" using wf Some by simp
  from rebuild_batches_repr [OF v(2) vec_empty_repr this docs] obtain V where
    V: "vec_repr ?w v V" "dom V = set (concat ?bs)" "\<forall>d x t. V d = Some x \<longrightarrow> C d = Some t \<longrightarrow> embeds (rt_numpy rt) e t x"
    by auto
  have "dom V = dom C"
  proof -
    have "set (concat ?bs) = set (dkeys docs)" by (simp only: concat_batches embedding_batch_size_def) simp
    also have "\<dots> = dom C" by (rule docs_repr_dom [OF docs])
    finally show ?thesis using V(2) by simp
  qed
  then show ?thesis using vectors_reprI [OF V(1)] V(3) Some v(1) by blast
qed

text \<open>The outcome of a rebuild: storage content, scorer, embedder and serving state are untouched;
  success means agreement with storage, and failure does not destroy it.\<close>

definition rebuild_frame :: "'f runtime \<Rightarrow> 'f engine \<Rightarrow> 'f engine \<Rightarrow> bool" where
  "rebuild_frame rt en en' \<longleftrightarrow> store_ok (rt_unicode rt) (en_store en') \<and> store_content (en_store en') = store_content (en_store en)
     \<and> en_scorer en' = en_scorer en \<and> en_embedder en' = en_embedder en \<and> en_state en' = en_state en \<and> en_detail en' = en_detail en"

lemma rebuild_locked_run:
  assumes "on_store (store_for_documents (rt_unicode rt) (rebuild_document rt) (index_empty, [])) en = (Inr (ix, ds), en1)"
    "index_validate ix = Inr ()" "rebuild_vectors rt (en_embedder en1) ds = Inr vo"
  shows "rebuild_locked rt en = (case store_generation (en_store en1) of
      (Inl e, con) \<Rightarrow> (Inl e, en1\<lparr>en_index := ix, en_documents := ds, en_vectors := vo, en_store := con\<rparr>)
    | (Inr n, con) \<Rightarrow> (Inr \<lparr>rr_document_count = int (length ds), rr_vector_count = (case vo of None \<Rightarrow> 0 | Some v \<Rightarrow> vec_count v)\<rparr>,
         en1\<lparr>en_index := ix, en_documents := ds, en_vectors := vo, en_store := con, en_generation := n\<rparr>))"
  using assms by (simp add: rebuild_locked_def sbind_def st_defs on_store_def split: prod.splits sum.splits)

lemma rebuild_locked_cases:
  assumes ok: "store_ok (rt_unicode rt) (en_store en)"
    and wf: "case en_embedder en of None \<Rightarrow> True | Some e \<Rightarrow> embedder_wf e"
  shows "\<exists>r en'. rebuild_locked rt en = (r, en') \<and> rebuild_frame rt en en'
    \<and> (case r of Inr _ \<Rightarrow> engine_consistent rt en'
       | Inl _ \<Rightarrow> (engine_consistent rt en \<longrightarrow> engine_consistent rt en') \<and> en_generation en' = en_generation en)"
proof -
  let ?docs = "store_docs (en_store en)" and ?C = "engine_corpus en"
  note D = store_docs_facts [OF ok]
  from rebuild_documents [OF D(3), of rt] D(1) obtain ix ds where
    b: "efold (rebuild_document rt) ?docs (index_empty, []) = Inr (ix, ds)"
      "index_repr ix (token_corpus (rt_unicode rt) ?C)" "docs_repr ds ?C"
    by (auto simp: engine_corpus_def)
  from store_for_documents_cases [OF ok, of "rebuild_document rt" "(index_empty, [])"] obtain r con where
    c: "store_for_documents (rt_unicode rt) (rebuild_document rt) (index_empty, []) (en_store en) = (r, con)"
      "same_db (en_store en) con" "r = Inl StorageError \<or> r = Inr (ix, ds)"
    unfolding b(1) by blast
  let ?en1 = "en\<lparr>en_store := con\<rparr>"
  note keep = same_db_keeps [OF c(2)]
  have f1: "rebuild_frame rt en ?en1" using keep ok by (simp add: rebuild_frame_def)
  have k1: "engine_consistent rt en \<longrightarrow> engine_consistent rt ?en1"
    using keep by (simp add: engine_consistent_def derived_repr_def engine_corpus_def)
  have on1: "on_store (store_for_documents (rt_unicode rt) (rebuild_document rt) (index_empty, [])) en = (r, ?en1)"
    by (simp add: on_store_def c(1))
  show ?thesis
  proof (cases "r = Inl StorageError \<or> (\<exists>err. rebuild_vectors rt (en_embedder en) ds = Inl err)")
    case True
    then have "\<exists>err. rebuild_locked rt en = (Inl err, ?en1)"
      using c(3) on1 repr_validates [OF b(2)] by (auto simp: rebuild_locked_def sbind_def st_defs)
    with f1 k1 show ?thesis by auto
  next
    case False
    then obtain vo where r: "r = Inr (ix, ds)" and vo: "rebuild_vectors rt (en_embedder en) ds = Inr vo"
      using c(3) by (cases "rebuild_vectors rt (en_embedder en) ds") auto
    have vr: "vectors_repr (rt_numpy rt) (en_embedder en) vo ?C" by (rule rebuild_vectors_repr [OF vo b(3) wf])
    let ?en2 = "?en1\<lparr>en_index := ix, en_documents := ds, en_vectors := vo\<rparr>"
    have "store_ok (rt_unicode rt) con" using keep ok by simp
    from store_generation_cases [OF this] obtain con' where
      g: "same_db con con'" "store_generation con = (Inr (snd (store_content con)), con') \<or> store_generation con = (Inl StorageError, con')"
      by blast
    let ?en3 = "?en2\<lparr>en_store := con'\<rparr>"
    note keep' = same_db_keeps [OF g(1)]
    have f3: "rebuild_frame rt en ?en3" using keep keep' ok by (simp add: rebuild_frame_def)
    have d3: "derived_repr rt ?en3 ?C" "engine_corpus ?en3 = ?C"
      using b vr keep keep' by (simp_all add: derived_repr_def engine_corpus_def)
    have "on_store (store_for_documents (rt_unicode rt) (rebuild_document rt) (index_empty, [])) en = (Inr (ix, ds), ?en1)" using on1 r by simp
    note run = rebuild_locked_run [OF this repr_validates [OF b(2)], simplified, OF vo]
    from g(2) show ?thesis
    proof
      assume "store_generation con = (Inr (snd (store_content con)), con')"
      moreover have "engine_consistent rt (?en3\<lparr>en_generation := snd (store_content con)\<rparr>)"
        using d3 keep' by (simp add: engine_consistent_def derived_repr_def engine_corpus_def)
      moreover have "rebuild_frame rt en (?en3\<lparr>en_generation := snd (store_content con)\<rparr>)"
        using f3 by (simp add: rebuild_frame_def)
      ultimately show ?thesis using run by simp
    next
      assume "store_generation con = (Inl StorageError, con')"
      moreover have "engine_consistent rt en \<longrightarrow> engine_consistent rt ?en3"
        using d3 keep keep' by (simp add: engine_consistent_def)
      ultimately show ?thesis using run f3 by simp
    qed
  qed
qed

section \<open>Every operation preserves the invariant\<close>

lemma engine_invD:
  assumes "engine_inv rt en"
  shows "store_ok (rt_unicode rt) (en_store en)" "case en_embedder en of None \<Rightarrow> True | Some e \<Rightarrow> embedder_wf e"
    "en_state en = READY \<Longrightarrow> engine_consistent rt en"
  using assms by (simp_all add: engine_inv_def)

lemma initialize_cases:
  assumes "engine_inv rt en"
  shows "\<exists>r en'. engine_initialize rt en = (r, en') \<and> engine_inv rt en' \<and> store_content (en_store en') = store_content (en_store en)
    \<and> en_scorer en' = en_scorer en \<and> en_embedder en' = en_embedder en
    \<and> (case r of Inr _ \<Rightarrow> en_state en' = READY | Inl _ \<Rightarrow> en_state en' = en_state en)"
proof -
  note I = engine_invD [OF assms]
  from rebuild_locked_cases [OF I(1,2)] obtain r en1 where
    1: "rebuild_locked rt en = (r, en1)" "rebuild_frame rt en en1"
      "case r of Inr _ \<Rightarrow> engine_consistent rt en1
       | Inl _ \<Rightarrow> (engine_consistent rt en \<longrightarrow> engine_consistent rt en1) \<and> en_generation en1 = en_generation en" by blast
  note f = 1(2) [unfolded rebuild_frame_def]
  show ?thesis
  proof (cases r)
    case (Inl e)
    then have "engine_initialize rt en = (Inl e, en1)" using 1(1) by (simp add: engine_initialize_def)
    moreover have "engine_inv rt en1" using f I Inl 1(3) by (simp add: engine_inv_def)
    ultimately show ?thesis using f by auto
  next
    case (Inr report)
    let ?en = "en1\<lparr>en_state := READY, en_detail := ustr ''ready''\<rparr>"
    have "engine_initialize rt en = (Inr report, ?en)"
      using 1(1) Inr by (simp add: engine_initialize_def set_state_def st_defs sbind_def)
    moreover have "engine_inv rt ?en"
      using f I(2) Inr 1(3) by (simp add: engine_inv_def engine_consistent_def derived_repr_def engine_corpus_def)
    ultimately show ?thesis using f by auto
  qed
qed

lemma mark_inv:
  assumes "engine_inv rt en"
  shows "engine_inv rt (snd (engine_mark_recovering detail en))" "engine_inv rt (snd (engine_mark_out_of_sync detail en))"
  using assms by (simp_all add: engine_inv_def engine_mark_recovering_def engine_mark_out_of_sync_def set_state_def st_defs)

text \<open>
  The shape of a local mutation. It succeeds on a \<open>READY\<close> copy, which stays \<open>READY\<close> and has exactly the
  effect on the durable content; or it raises and has had no effect at all; or it raises
  \<open>EngineNotReadyError\<close> after the durable write, and the copy is \<open>DEGRADED\<close>.
\<close>

definition mutation_outcome ::
    "(pystr \<rightharpoonup> pystr) \<Rightarrow> int \<Rightarrow> (pystr \<rightharpoonup> pystr) \<Rightarrow> int \<Rightarrow> node_state \<Rightarrow> (pystr \<rightharpoonup> pystr) \<Rightarrow> int \<Rightarrow> node_state \<Rightarrow> 'a res \<Rightarrow> bool" where
  "mutation_outcome C g C1 g1 s C' g' s' r \<longleftrightarrow>
     (case r of
        Inr _ \<Rightarrow> s = READY \<and> s' = READY \<and> C' = C1 \<and> g' = g1
      | Inl e \<Rightarrow> s' = s \<and> C' = C \<and> g' = g \<or> s = READY \<and> s' = DEGRADED \<and> e = EngineNotReadyError \<and> C' = C1 \<and> g' = g1)"

text \<open>Committing a write, then updating derived state: what \<open>index_document\<close> and its replicated
  counterpart share. \<open>upd\<close> and \<open>upd'\<close> are the assignments to the generation before and after.\<close>

lemma on_store_put_cases:
  assumes "store_ok ud (en_store en)" "valid_id ud (document_id doc)"
  shows "\<exists>con. store_ok ud con \<and>
    (on_store (store_put doc g) en = (Inr (engine_corpus en (document_id doc) = None), en\<lparr>en_store := con\<rparr>)
       \<and> store_content con = ((engine_corpus en)(document_id doc \<mapsto> doc_text doc), g)
     \<or> on_store (store_put doc g) en = (Inl StorageError, en\<lparr>en_store := con\<rparr>) \<and> store_content con = store_content (en_store en))"
  using sqlite.put_law [OF assms, of g] by (cases "store_content (en_store en)") (auto simp: on_store_def engine_corpus_def)

lemma on_store_delete_cases:
  assumes "store_ok ud (en_store en)"
  shows "\<exists>con. store_ok ud con \<and>
    (on_store (store_delete d g) en = (Inr (engine_corpus en d \<noteq> None), en\<lparr>en_store := con\<rparr>)
       \<and> store_content con = ((engine_corpus en)(d := None), g)
     \<or> on_store (store_delete d g) en = (Inl StorageError, en\<lparr>en_store := con\<rparr>) \<and> store_content con = store_content (en_store en))"
  using sqlite.delete_law [OF assms, of d g] by (cases "store_content (en_store en)") (auto simp: on_store_def engine_corpus_def)

lemma derived_repr_cong:
  assumes "derived_repr rt en C" "en_documents en' = en_documents en" "en_index en' = en_index en"
    "en_embedder en' = en_embedder en" "en_vectors en' = en_vectors en"
  shows "derived_repr rt en' C"
  using assms by (simp add: derived_repr_def)

lemma engine_inv_store:
  assumes "engine_inv rt en" "store_ok (rt_unicode rt) con" "store_content con = store_content (en_store en)"
  shows "engine_inv rt (en\<lparr>en_store := con\<rparr>)"
  using assms by (simp add: engine_inv_def engine_consistent_def derived_repr_def engine_corpus_def)

text \<open>Updating derived state behind \<open>_degrade_on_failure\<close>, after the durable write.\<close>

lemma degraded_apply_cases:
  assumes d: "derived_repr rt en C"
    and wf: "case en_embedder en of None \<Rightarrow> True | Some e \<Rightarrow> embedder_wf e"
    and v: "embed_document (en_embedder en) (doc_text doc) = Inr vector"
  shows "\<exists>r en'. degrade_on_failure reason (apply_derived rt doc (analyze (rt_unicode rt) (doc_text doc)) vector) en = (r, en')
    \<and> en_store en' = en_store en \<and> en_generation en' = en_generation en \<and> en_scorer en' = en_scorer en \<and> en_embedder en' = en_embedder en
    \<and> (r = Inr () \<and> en_state en' = en_state en \<and> derived_repr rt en' (C(document_id doc \<mapsto> doc_text doc))
       \<or> r = Inl EngineNotReadyError \<and> en_state en' = DEGRADED)"
  using apply_derived_cases [OF assms]
  by (elim exE conjE disjE) (simp_all add: degrade_on_failure_def same_frame_def)

lemma degraded_remove_cases:
  assumes "derived_repr rt en C" "C d \<noteq> None"
  shows "\<exists>en'. degrade_on_failure reason (remove_derived d) en = (Inr (), en')
    \<and> en_store en' = en_store en \<and> en_generation en' = en_generation en \<and> en_scorer en' = en_scorer en \<and> en_embedder en' = en_embedder en
    \<and> en_state en' = en_state en \<and> derived_repr rt en' (C(d := None))"
  using remove_derived_ok [OF assms]
  by (elim exE conjE) (simp add: degrade_on_failure_def same_frame_def)

lemma refused:
  assumes "engine_inv rt en" "m en = (Inl e, en)"
  shows "\<exists>r en'. m en = (r, en') \<and> engine_inv rt en' \<and> en_scorer en' = en_scorer en \<and> en_embedder en' = en_embedder en
    \<and> mutation_outcome (engine_corpus en) (en_generation en) C1 g1 (en_state en) (engine_corpus en') (en_generation en') (en_state en') r
    \<and> (\<forall>created. r = Inr created \<longrightarrow> Q created)"
  using assms by (simp add: mutation_outcome_def)

lemma store_failed:
  assumes "engine_inv rt en" "store_ok (rt_unicode rt) con" "store_content con = store_content (en_store en)"
    "m en = (Inl e, en\<lparr>en_store := con\<rparr>)"
  shows "\<exists>r en'. m en = (r, en') \<and> engine_inv rt en' \<and> en_scorer en' = en_scorer en \<and> en_embedder en' = en_embedder en
    \<and> mutation_outcome (engine_corpus en) (en_generation en) C1 g1 (en_state en) (engine_corpus en') (en_generation en') (en_state en') r
    \<and> (\<forall>created. r = Inr created \<longrightarrow> Q created)"
  using engine_inv_store [OF assms(1-3)] assms(3,4) by (simp add: mutation_outcome_def engine_corpus_def)

lemma derived_after_write:
  assumes "engine_inv rt en" "en_state en = READY"
  shows "derived_repr rt (en\<lparr>en_store := con\<rparr>) (engine_corpus en)" "derived_repr rt (en\<lparr>en_store := con, en_generation := g\<rparr>) (engine_corpus en)"
  using engine_invD(3) [OF assms] by (auto simp: engine_consistent_def intro: derived_repr_cong)

lemma mutation_done:
  assumes inv: "engine_inv rt en" "store_ok (rt_unicode rt) con" "store_content con = (C, g)"
    and en': "en_store en' = con" "en_generation en' = g" "en_scorer en' = en_scorer en" "en_embedder en' = en_embedder en"
      "r = Inr () \<and> en_state en' = READY \<and> derived_repr rt en' C \<or> r = Inl EngineNotReadyError \<and> en_state en' = DEGRADED"
    and run: "m en = (case r of Inl e \<Rightarrow> (Inl e, en') | Inr _ \<Rightarrow> (Inr x, en'))" "en_state en = READY" "Q x"
  shows "\<exists>r en'. m en = (r, en') \<and> engine_inv rt en' \<and> en_scorer en' = en_scorer en \<and> en_embedder en' = en_embedder en
    \<and> mutation_outcome (engine_corpus en) (en_generation en) C g (en_state en) (engine_corpus en') (en_generation en') (en_state en') r
    \<and> (\<forall>x. r = Inr x \<longrightarrow> Q x)"
proof -
  have corp: "engine_corpus en' = C" "snd (store_content (en_store en')) = g" using en'(1) inv(3) by (simp_all add: engine_corpus_def)
  have "engine_inv rt en'" using en' inv(2) engine_invD(2) [OF inv(1)] corp by (auto simp: engine_inv_def engine_consistent_def)
  with run en' corp show ?thesis by (auto simp: mutation_outcome_def)
qed

lemma index_document_run:
  assumes "embed_document (en_embedder en) (doc_text doc) = Inr vector" "en_state en = READY"
  shows "engine_index_document rt doc en = (case on_store (store_put doc (en_generation en + 1)) en of
        (Inl e, en1) \<Rightarrow> (Inl e, en1)
      | (Inr created, en1) \<Rightarrow>
          (case degrade_on_failure (ustr ''failed to update derived state after a durable write'')
                  (apply_derived rt doc (analyze (rt_unicode rt) (doc_text doc)) vector) (en1\<lparr>en_generation := en_generation en + 1\<rparr>) of
             (Inl e, en2) \<Rightarrow> (Inl e, en2) | (Inr _, en2) \<Rightarrow> (Inr created, en2)))"
  using assms by (simp add: engine_index_document_def require_operational_def sbind_def st_defs split: prod.splits sum.splits)

lemma index_document_cases:
  assumes inv: "engine_inv rt en" and v: "valid_id (rt_unicode rt) (document_id doc)"
  shows "\<exists>r en'. engine_index_document rt doc en = (r, en') \<and> engine_inv rt en'
    \<and> en_scorer en' = en_scorer en \<and> en_embedder en' = en_embedder en
    \<and> mutation_outcome (engine_corpus en) (en_generation en)
        ((engine_corpus en)(document_id doc \<mapsto> doc_text doc)) (en_generation en + 1) (en_state en)
        (engine_corpus en') (en_generation en') (en_state en') r
    \<and> (\<forall>created. r = Inr created \<longrightarrow> created = (engine_corpus en (document_id doc) = None))"
proof (cases "(\<exists>e. embed_document (en_embedder en) (doc_text doc) = Inl e) \<or> en_state en \<noteq> READY")
  case True
  then have "\<exists>e. engine_index_document rt doc en = (Inl e, en)"
    by (cases "embed_document (en_embedder en) (doc_text doc)") (auto simp: engine_index_document_def require_operational_def sbind_def)
  then show ?thesis using refused [OF inv] by blast
next
  case False
  then obtain vector where vec: "embed_document (en_embedder en) (doc_text doc) = Inr vector" and ready: "en_state en = READY"
    by (cases "embed_document (en_embedder en) (doc_text doc)") auto
  note I = engine_invD [OF inv] and run = index_document_run [OF vec ready, of rt]
  let ?C = "(engine_corpus en)(document_id doc \<mapsto> doc_text doc)" and ?g = "en_generation en + 1"
  from on_store_put_cases [OF I(1) v, of ?g] obtain con where con: "store_ok (rt_unicode rt) con"
    "on_store (store_put doc ?g) en = (Inr (engine_corpus en (document_id doc) = None), en\<lparr>en_store := con\<rparr>)
       \<and> store_content con = (?C, ?g)
     \<or> on_store (store_put doc ?g) en = (Inl StorageError, en\<lparr>en_store := con\<rparr>) \<and> store_content con = store_content (en_store en)"
    by blast
  from con(2) show ?thesis
  proof (elim disjE conjE)
    assume "on_store (store_put doc ?g) en = (Inl StorageError, en\<lparr>en_store := con\<rparr>)"
      and same: "store_content con = store_content (en_store en)"
    then show ?thesis by (intro store_failed [OF inv con(1) same]) (simp add: run)
  next
    assume put: "on_store (store_put doc ?g) en = (Inr (engine_corpus en (document_id doc) = None), en\<lparr>en_store := con\<rparr>)"
      and new: "store_content con = (?C, ?g)"
    let ?re = "ustr ''failed to update derived state after a durable write''"
    from degraded_apply_cases [OF derived_after_write(2) [OF inv ready, of ?g con], of doc vector ?re] I(2) vec obtain r en' where
      a: "degrade_on_failure ?re (apply_derived rt doc (analyze (rt_unicode rt) (doc_text doc)) vector) (en\<lparr>en_store := con, en_generation := ?g\<rparr>) = (r, en')"
        "en_store en' = con" "en_generation en' = ?g" "en_scorer en' = en_scorer en" "en_embedder en' = en_embedder en"
        "r = Inr () \<and> en_state en' = READY \<and> derived_repr rt en' ?C \<or> r = Inl EngineNotReadyError \<and> en_state en' = DEGRADED"
      using ready by auto
    show ?thesis by (rule mutation_done [OF inv con(1) new a(2-6) _ ready]) (simp_all add: run put a(1) split: sum.split)
  qed
qed

lemma delete_document_cases:
  assumes inv: "engine_inv rt en"
  shows "\<exists>r en'. engine_delete_document d en = (r, en') \<and> engine_inv rt en'
    \<and> en_scorer en' = en_scorer en \<and> en_embedder en' = en_embedder en
    \<and> mutation_outcome (engine_corpus en) (en_generation en)
        ((engine_corpus en)(d := None)) (en_generation en + 1) (en_state en)
        (engine_corpus en') (en_generation en') (en_state en') r
    \<and> (\<forall>u. r = Inr u \<longrightarrow> engine_corpus en d \<noteq> None)"
proof (cases "en_state en = READY \<and> engine_corpus en d \<noteq> None")
  case False
  have "dhas (en_documents en) d \<longleftrightarrow> engine_corpus en d \<noteq> None" if "en_state en = READY"
    using engine_invD(3) [OF inv that] docs_repr_has by (auto simp: engine_consistent_def derived_repr_def)
  with False have "engine_delete_document d en = (Inl (if en_state en = READY then DocumentNotFoundError else EngineNotReadyError), en)"
    by (cases "en_state en = READY") (simp_all add: engine_delete_document_def require_operational_def sbind_def)
  then show ?thesis by (rule refused [OF inv])
next
  case True
  note I = engine_invD [OF inv]
  note cons = I(3) [OF conjunct1 [OF True], unfolded engine_consistent_def]
  let ?C = "(engine_corpus en)(d := None)" and ?g = "en_generation en + 1"
  let ?re = "ustr ''failed to update derived state after a durable delete''"
  have has: "dhas (en_documents en) d" using cons True docs_repr_has by (auto simp: derived_repr_def)
  have run: "engine_delete_document d en = (case on_store (store_delete d ?g) en of
        (Inl e, en1) \<Rightarrow> (Inl e, en1)
      | (Inr _, en1) \<Rightarrow> degrade_on_failure ?re (remove_derived d) (en1\<lparr>en_generation := ?g\<rparr>))"
    using True has by (simp add: engine_delete_document_def require_operational_def sbind_def st_defs split: prod.splits sum.splits)
  from on_store_delete_cases [OF I(1), of d ?g] obtain con where con: "store_ok (rt_unicode rt) con"
    "on_store (store_delete d ?g) en = (Inr (engine_corpus en d \<noteq> None), en\<lparr>en_store := con\<rparr>) \<and> store_content con = (?C, ?g)
     \<or> on_store (store_delete d ?g) en = (Inl StorageError, en\<lparr>en_store := con\<rparr>) \<and> store_content con = store_content (en_store en)"
    by blast
  from con(2) show ?thesis
  proof (elim disjE conjE)
    assume "on_store (store_delete d ?g) en = (Inl StorageError, en\<lparr>en_store := con\<rparr>)"
      and same: "store_content con = store_content (en_store en)"
    then have "engine_delete_document d en = (Inl StorageError, en\<lparr>en_store := con\<rparr>)" by (simp add: run)
    then show ?thesis by (rule store_failed [OF inv con(1) same])
  next
    assume del: "on_store (store_delete d ?g) en = (Inr (engine_corpus en d \<noteq> None), en\<lparr>en_store := con\<rparr>)"
      and new: "store_content con = (?C, ?g)"
    let ?en = "en\<lparr>en_store := con, en_generation := ?g\<rparr>"
    from degraded_remove_cases [OF derived_after_write(2) [OF inv conjunct1 [OF True], of ?g con], of d ?re] True obtain en' where
      a: "degrade_on_failure ?re (remove_derived d) ?en = (Inr (), en')" "en_store en' = con" "en_generation en' = ?g"
        "en_scorer en' = en_scorer en" "en_embedder en' = en_embedder en" "en_state en' = READY" "derived_repr rt en' ?C"
      by auto
    show ?thesis by (rule mutation_done [where r = "Inr ()", OF inv con(1) new a(2-5)]) (use run del a(1,6,7) True in auto)
  qed
qed

text \<open>
  The shape of a replicated mutation. \<open>APPLIED\<close>: the generation was the next one, the copy was and is
  \<open>READY\<close>. \<open>DUPLICATE\<close>: nothing happens. \<open>GAP\<close>: the copy stops serving. An exception: no effect, or the
  durable effect with the copy \<open>DEGRADED\<close> and its in-memory generation not advanced.
\<close>

definition replicated_outcome ::
    "(pystr \<rightharpoonup> pystr) \<Rightarrow> int \<Rightarrow> (pystr \<rightharpoonup> pystr) \<Rightarrow> int \<Rightarrow> node_state \<Rightarrow> (pystr \<rightharpoonup> pystr) \<Rightarrow> int \<Rightarrow> node_state \<Rightarrow> replication_outcome res \<Rightarrow> bool" where
  "replicated_outcome C n C1 g s C' n' s' r \<longleftrightarrow>
     (case r of
        Inr APPLIED \<Rightarrow> g = n + 1 \<and> s = READY \<and> s' = READY \<and> C' = C1 \<and> n' = g
      | Inr DUPLICATE \<Rightarrow> g \<le> n \<and> s' = s \<and> C' = C \<and> n' = n
      | Inr GAP \<Rightarrow> n + 1 < g \<and> s' = OUT_OF_SYNC \<and> C' = C \<and> n' = n
      | Inl e \<Rightarrow> g = n + 1 \<and> (s' = s \<and> C' = C \<and> n' = n
          \<or> s = READY \<and> s' = DEGRADED \<and> e = EngineNotReadyError \<and> C' = C1 \<and> n' = n))"

lemma not_next_cases:
  assumes inv: "engine_inv rt en" and m: "m = sbind (classify_generation g) (\<lambda>outcome. if outcome \<noteq> APPLIED then slift (Inr outcome) else f outcome)"
    and no: "\<not> (g = en_generation en + 1 \<and> en_state en = READY)"
  shows "\<exists>r en'. m en = (r, en') \<and> engine_inv rt en' \<and> en_scorer en' = en_scorer en \<and> en_embedder en' = en_embedder en
    \<and> replicated_outcome (engine_corpus en) (en_generation en) C1 g (en_state en) (engine_corpus en') (en_generation en') (en_state en') r"
proof -
  consider "g \<le> en_generation en" | "en_generation en + 1 < g" | "g = en_generation en + 1" "en_state en \<noteq> READY"
    using no by linarith
  then show ?thesis
  proof cases
    case 1
    then have "m en = (Inr DUPLICATE, en)" by (simp add: m classify_generation_def sbind_def slift_def)
    then show ?thesis using 1 inv by (simp add: replicated_outcome_def)
  next
    case 2
    let ?en = "en\<lparr>en_state := OUT_OF_SYNC,
        en_detail := ustr ''generation gap: local '' @ py_str_int (en_generation en) @ ustr '', received '' @ py_str_int g\<rparr>"
    have "m en = (Inr GAP, ?en)" using 2 by (simp add: m classify_generation_def sbind_def slift_def)
    then show ?thesis using 2 inv by (simp add: replicated_outcome_def engine_inv_def engine_corpus_def)
  next
    case 3
    then have "m en = (Inl EngineNotReadyError, en)"
      by (simp add: m classify_generation_def require_operational_def sbind_def)
    then show ?thesis using 3 inv by (simp add: replicated_outcome_def)
  qed
qed

lemma replicated_no_effect:
  assumes "engine_inv rt en" "store_ok (rt_unicode rt) con" "store_content con = store_content (en_store en)"
    "m en = (Inl e, en\<lparr>en_store := con\<rparr>)" "g = en_generation en + 1"
  shows "\<exists>r en'. m en = (r, en') \<and> engine_inv rt en' \<and> en_scorer en' = en_scorer en \<and> en_embedder en' = en_embedder en
    \<and> replicated_outcome (engine_corpus en) (en_generation en) C1 g (en_state en) (engine_corpus en') (en_generation en') (en_state en') r"
  using engine_inv_store [OF assms(1-3)] assms(3-5) by (simp add: replicated_outcome_def engine_corpus_def)

lemma replicated_done:
  assumes inv: "engine_inv rt en" "store_ok (rt_unicode rt) con" "store_content con = (C, g)"
    and en2: "en_store en2 = con" "en_generation en2 = en_generation en" "en_scorer en2 = en_scorer en" "en_embedder en2 = en_embedder en"
      "r = Inr () \<and> en_state en2 = READY \<and> derived_repr rt en2 C \<or> r = Inl EngineNotReadyError \<and> en_state en2 = DEGRADED"
    and run: "m en = (case r of Inl e \<Rightarrow> (Inl e, en2) | Inr _ \<Rightarrow> (Inr APPLIED, en2\<lparr>en_generation := g\<rparr>))"
    and nxt: "g = en_generation en + 1 \<and> en_state en = READY"
  shows "\<exists>r en'. m en = (r, en') \<and> engine_inv rt en' \<and> en_scorer en' = en_scorer en \<and> en_embedder en' = en_embedder en
    \<and> replicated_outcome (engine_corpus en) (en_generation en) C g (en_state en) (engine_corpus en') (en_generation en') (en_state en') r"
  using en2(5)
proof
  note I = engine_invD(2) [OF inv(1)]
  assume ok: "r = Inr () \<and> en_state en2 = READY \<and> derived_repr rt en2 C"
  have "engine_inv rt (en2\<lparr>en_generation := g\<rparr>)"
    using ok en2 inv I by (auto simp: engine_inv_def engine_consistent_def engine_corpus_def intro: derived_repr_cong)
  then show ?thesis using run en2 ok inv(3) nxt by (simp add: replicated_outcome_def engine_corpus_def)
next
  assume bad: "r = Inl EngineNotReadyError \<and> en_state en2 = DEGRADED"
  then have "engine_inv rt en2" using en2 inv(2) engine_invD(2) [OF inv(1)] by (simp add: engine_inv_def)
  then show ?thesis using run en2 bad inv(3) nxt by (simp add: replicated_outcome_def engine_corpus_def)
qed

lemma classify_next:
  "g = en_generation en + 1 \<and> en_state en = READY \<Longrightarrow> classify_generation g en = (Inr APPLIED, en)"
  by (simp add: classify_generation_def require_operational_def sbind_def slift_def)

lemma replicated_put_run:
  assumes "g = en_generation en + 1 \<and> en_state en = READY" "embed_document (en_embedder en) (doc_text doc) = Inr vector"
  shows "engine_apply_replicated_put rt doc g en = (case on_store (store_put doc g) en of
        (Inl e, en1) \<Rightarrow> (Inl e, en1)
      | (Inr _, en1) \<Rightarrow>
          (case degrade_on_failure (ustr ''failed to update derived state after a replicated write'')
                  (apply_derived rt doc (analyze (rt_unicode rt) (doc_text doc)) vector) en1 of
             (Inl e, en2) \<Rightarrow> (Inl e, en2) | (Inr _, en2) \<Rightarrow> (Inr APPLIED, en2\<lparr>en_generation := g\<rparr>)))"
  using assms(2) by (simp add: engine_apply_replicated_put_def sbind_def classify_next [OF assms(1)] st_defs split: prod.splits sum.splits)

lemma apply_replicated_put_cases:
  assumes inv: "engine_inv rt en" and v: "valid_id (rt_unicode rt) (document_id doc)"
  shows "\<exists>r en'. engine_apply_replicated_put rt doc g en = (r, en') \<and> engine_inv rt en'
    \<and> en_scorer en' = en_scorer en \<and> en_embedder en' = en_embedder en
    \<and> replicated_outcome (engine_corpus en) (en_generation en) ((engine_corpus en)(document_id doc \<mapsto> doc_text doc)) g
        (en_state en) (engine_corpus en') (en_generation en') (en_state en') r"
proof (cases "g = en_generation en + 1 \<and> en_state en = READY")
  case False
  show ?thesis by (rule not_next_cases [OF inv engine_apply_replicated_put_def False])
next
  case nxt: True
  note I = engine_invD [OF inv]
  let ?C = "(engine_corpus en)(document_id doc \<mapsto> doc_text doc)"
  show ?thesis
  proof (cases "embed_document (en_embedder en) (doc_text doc)")
    case (Inl e)
    then have "engine_apply_replicated_put rt doc g en = (Inl e, en\<lparr>en_store := en_store en\<rparr>)"
      by (simp add: engine_apply_replicated_put_def sbind_def classify_next [OF nxt])
    then show ?thesis using nxt by (intro replicated_no_effect [OF inv I(1) refl]) simp_all
  next
    case (Inr vector)
    note run = replicated_put_run [OF nxt Inr, of rt]
    from on_store_put_cases [OF I(1) v, of g] obtain con where con: "store_ok (rt_unicode rt) con"
      "on_store (store_put doc g) en = (Inr (engine_corpus en (document_id doc) = None), en\<lparr>en_store := con\<rparr>)
         \<and> store_content con = (?C, g)
       \<or> on_store (store_put doc g) en = (Inl StorageError, en\<lparr>en_store := con\<rparr>) \<and> store_content con = store_content (en_store en)"
      by blast
    from con(2) show ?thesis
    proof (elim disjE conjE)
      assume "on_store (store_put doc g) en = (Inl StorageError, en\<lparr>en_store := con\<rparr>)"
        and same: "store_content con = store_content (en_store en)"
      then have "engine_apply_replicated_put rt doc g en = (Inl StorageError, en\<lparr>en_store := con\<rparr>)" by (simp add: run)
      then show ?thesis using nxt by (intro replicated_no_effect [OF inv con(1) same]) simp_all
    next
      assume put: "on_store (store_put doc g) en = (Inr (engine_corpus en (document_id doc) = None), en\<lparr>en_store := con\<rparr>)"
        and new: "store_content con = (?C, g)"
      let ?re = "ustr ''failed to update derived state after a replicated write''"
      from degraded_apply_cases [OF derived_after_write(1) [OF inv conjunct2 [OF nxt], of con], of doc vector ?re] I(2) Inr obtain r en2 where
        a: "degrade_on_failure ?re (apply_derived rt doc (analyze (rt_unicode rt) (doc_text doc)) vector) (en\<lparr>en_store := con\<rparr>) = (r, en2)"
          "en_store en2 = con" "en_generation en2 = en_generation en" "en_scorer en2 = en_scorer en" "en_embedder en2 = en_embedder en"
          "r = Inr () \<and> en_state en2 = READY \<and> derived_repr rt en2 ?C \<or> r = Inl EngineNotReadyError \<and> en_state en2 = DEGRADED"
        using nxt by auto
      show ?thesis by (rule replicated_done [OF inv con(1) new a(2-6) _ nxt]) (simp add: run put a(1) split: sum.split)
    qed
  qed
qed

lemma replicated_remove_ok:
  assumes "derived_repr rt en C"
  shows "\<exists>en'. degrade_on_failure reason (\<lambda>en. if dhas (en_documents en) d then remove_derived d en else (Inr (), en)) en = (Inr (), en')
    \<and> en_store en' = en_store en \<and> en_generation en' = en_generation en \<and> en_scorer en' = en_scorer en \<and> en_embedder en' = en_embedder en
    \<and> en_state en' = en_state en \<and> derived_repr rt en' (C(d := None))"
proof -
  have has: "dhas (en_documents en) d \<longleftrightarrow> C d \<noteq> None" using docs_repr_has [of "en_documents en" C d] assms by (simp add: derived_repr_def)
  show ?thesis
  proof (cases "C d = None")
    case True
    then have "C(d := None) = C" by (simp add: fun_upd_idem)
    then show ?thesis using True has assms by (simp add: degrade_on_failure_def)
  next
    case False
    then show ?thesis using degraded_remove_cases [OF assms False, of reason] has by (simp add: degrade_on_failure_def)
  qed
qed

lemma replicated_delete_run:
  assumes "g = en_generation en + 1 \<and> en_state en = READY"
  shows "engine_apply_replicated_delete d g en = (case on_store (store_delete d g) en of
        (Inl e, en1) \<Rightarrow> (Inl e, en1)
      | (Inr _, en1) \<Rightarrow>
          (case degrade_on_failure (ustr ''failed to update derived state after a replicated delete'')
                  (\<lambda>en. if dhas (en_documents en) d then remove_derived d en else (Inr (), en)) en1 of
             (Inl e, en2) \<Rightarrow> (Inl e, en2) | (Inr _, en2) \<Rightarrow> (Inr APPLIED, en2\<lparr>en_generation := g\<rparr>)))"
  by (simp add: engine_apply_replicated_delete_def sbind_def classify_next [OF assms] st_defs split: prod.splits sum.splits)

lemma apply_replicated_delete_cases:
  assumes inv: "engine_inv rt en"
  shows "\<exists>r en'. engine_apply_replicated_delete d g en = (r, en') \<and> engine_inv rt en'
    \<and> en_scorer en' = en_scorer en \<and> en_embedder en' = en_embedder en
    \<and> replicated_outcome (engine_corpus en) (en_generation en) ((engine_corpus en)(d := None)) g
        (en_state en) (engine_corpus en') (en_generation en') (en_state en') r"
proof (cases "g = en_generation en + 1 \<and> en_state en = READY")
  case False
  show ?thesis by (rule not_next_cases [OF inv engine_apply_replicated_delete_def False])
next
  case nxt: True
  note run = replicated_delete_run [OF nxt, of d]
  let ?C = "(engine_corpus en)(d := None)"
  from on_store_delete_cases [OF engine_invD(1) [OF inv], of d g] obtain con where con: "store_ok (rt_unicode rt) con"
    "on_store (store_delete d g) en = (Inr (engine_corpus en d \<noteq> None), en\<lparr>en_store := con\<rparr>) \<and> store_content con = (?C, g)
     \<or> on_store (store_delete d g) en = (Inl StorageError, en\<lparr>en_store := con\<rparr>) \<and> store_content con = store_content (en_store en)"
    by blast
  from con(2) show ?thesis
  proof (elim disjE conjE)
    assume "on_store (store_delete d g) en = (Inl StorageError, en\<lparr>en_store := con\<rparr>)"
      and same: "store_content con = store_content (en_store en)"
    then have "engine_apply_replicated_delete d g en = (Inl StorageError, en\<lparr>en_store := con\<rparr>)" by (simp add: run)
    then show ?thesis using nxt by (intro replicated_no_effect [OF inv con(1) same]) simp_all
  next
    assume del: "on_store (store_delete d g) en = (Inr (engine_corpus en d \<noteq> None), en\<lparr>en_store := con\<rparr>)"
      and new: "store_content con = (?C, g)"
    let ?re = "ustr ''failed to update derived state after a replicated delete''"
    from replicated_remove_ok [OF derived_after_write(1) [OF inv conjunct2 [OF nxt], of con], of ?re d] nxt obtain en2 where
      a: "degrade_on_failure ?re (\<lambda>en. if dhas (en_documents en) d then remove_derived d en else (Inr (), en)) (en\<lparr>en_store := con\<rparr>) = (Inr (), en2)"
        "en_store en2 = con" "en_generation en2 = en_generation en" "en_scorer en2 = en_scorer en" "en_embedder en2 = en_embedder en"
        "en_state en2 = READY" "derived_repr rt en2 ?C" by auto
    show ?thesis by (rule replicated_done [where r = "Inr ()", OF inv con(1) new a(2-5) _ _ nxt]) (use run del a in simp_all)
  qed
qed

lemma on_store_replace_cases:
  assumes "store_ok ud (en_store en)" "list_all (\<lambda>doc. valid_id ud (document_id doc)) docs"
  shows "\<exists>con. store_ok ud con \<and>
    (distinct (map document_id docs) \<and> on_store (store_replace_all docs g) en = (Inr (), en\<lparr>en_store := con\<rparr>) \<and> store_content con = (docs_corpus docs, g)
     \<or> on_store (store_replace_all docs g) en = (Inl StorageError, en\<lparr>en_store := con\<rparr>) \<and> store_content con = store_content (en_store en))"
  using sqlite.replace_law [OF assms, of g] by (cases "store_content (en_store en)") (auto simp: on_store_def)

lemma resynchronize_run:
  "engine_resynchronize rt docs g en = (case on_store (store_replace_all docs g)
        (en\<lparr>en_state := RECOVERING, en_detail := ustr ''resynchronizing to generation '' @ py_str_int g\<rparr>) of
      (Inl e, en1) \<Rightarrow> (Inl e, en1)
    | (Inr _, en1) \<Rightarrow> (case rebuild_locked rt en1 of
        (Inl e, en2) \<Rightarrow> (Inl e, en2)
      | (Inr report, en2) \<Rightarrow> if en_generation en2 \<noteq> g then (Inl IndexInvariantError, en2)
          else (Inr report, en2\<lparr>en_state := READY, en_detail := ustr ''ready''\<rparr>)))"
  by (simp add: engine_resynchronize_def set_state_def sbind_def st_defs split: prod.splits sum.splits)

lemma resynchronize_cases:
  assumes inv: "engine_inv rt en" and v: "list_all (\<lambda>doc. valid_id (rt_unicode rt) (document_id doc)) docs"
  shows "\<exists>r en'. engine_resynchronize rt docs g en = (r, en') \<and> engine_inv rt en'
    \<and> en_scorer en' = en_scorer en \<and> en_embedder en' = en_embedder en
    \<and> (case r of
         Inr _ \<Rightarrow> en_state en' = READY \<and> engine_corpus en' = docs_corpus docs \<and> en_generation en' = g
       | Inl _ \<Rightarrow> en_state en' = RECOVERING \<and> en_generation en' = en_generation en
           \<and> store_content (en_store en') \<in> {store_content (en_store en), (docs_corpus docs, g)})"
proof -
  note I = engine_invD [OF inv]
  let ?en = "en\<lparr>en_state := RECOVERING, en_detail := ustr ''resynchronizing to generation '' @ py_str_int g\<rparr>"
  have "store_ok (rt_unicode rt) (en_store ?en)" using I(1) by simp
  from on_store_replace_cases [OF this v, of g] obtain con where con: "store_ok (rt_unicode rt) con"
    "distinct (map document_id docs) \<and> on_store (store_replace_all docs g) ?en = (Inr (), ?en\<lparr>en_store := con\<rparr>) \<and> store_content con = (docs_corpus docs, g)
     \<or> on_store (store_replace_all docs g) ?en = (Inl StorageError, ?en\<lparr>en_store := con\<rparr>) \<and> store_content con = store_content (en_store en)"
    by auto
  let ?en1 = "?en\<lparr>en_store := con\<rparr>"
  note run = resynchronize_run [of rt docs g en]
  have inv1: "engine_inv rt ?en1" using con(1) I(2) by (simp add: engine_inv_def)
  from con(2) show ?thesis
  proof (elim disjE conjE)
    assume "on_store (store_replace_all docs g) ?en = (Inl StorageError, ?en1)" "store_content con = store_content (en_store en)"
    then show ?thesis using run inv1 by simp
  next
    assume rep: "on_store (store_replace_all docs g) ?en = (Inr (), ?en1)" and new: "store_content con = (docs_corpus docs, g)"
    have "store_ok (rt_unicode rt) (en_store ?en1)" "case en_embedder ?en1 of None \<Rightarrow> True | Some e \<Rightarrow> embedder_wf e"
      using con(1) I(2) by simp_all
    from rebuild_locked_cases [OF this] obtain r en2 where
      b: "rebuild_locked rt ?en1 = (r, en2)" "rebuild_frame rt ?en1 en2"
        "case r of Inr _ \<Rightarrow> engine_consistent rt en2
         | Inl _ \<Rightarrow> (engine_consistent rt ?en1 \<longrightarrow> engine_consistent rt en2) \<and> en_generation en2 = en_generation ?en1" by blast
    note f = b(2) [unfolded rebuild_frame_def, simplified]
    show ?thesis
    proof (cases r)
      case (Inl e)
      have "engine_inv rt en2" using f I(2) by (simp add: engine_inv_def)
      then show ?thesis using run rep b Inl f new by simp
    next
      case (Inr report)
      let ?en3 = "en2\<lparr>en_state := READY, en_detail := ustr ''ready''\<rparr>"
      have g: "en_generation en2 = g" using b(3) Inr f new by (simp add: engine_consistent_def)
      have "engine_inv rt ?en3" using f I(2) b(3) Inr
        by (auto simp: engine_inv_def engine_consistent_def engine_corpus_def intro: derived_repr_cong)
      then show ?thesis using run rep b(1) Inr g f new by (simp add: engine_corpus_def)
    qed
  qed
qed

lemma close_inv:
  assumes "engine_inv rt en"
  shows "engine_inv rt (snd (engine_close en))"
proof -
  have "store_ok ud (snd (store_close con))" if "store_ok ud con" for ud con
    using that by (auto simp: store_close_def wrap_sqlite_def store_ok_def)
  then have "store_ok (rt_unicode rt) (snd (store_close (en_store en)))" using assms by (simp add: engine_inv_def)
  with assms show ?thesis
    by (cases "store_close (en_store en)")
      (simp add: engine_close_def set_state_def sbind_def st_defs on_store_def engine_inv_def)
qed

lemma mark_ready_inv:
  assumes "engine_inv rt en" "engine_consistent rt en"
  shows "engine_inv rt (snd (engine_mark_ready en))"
  using assms by (auto simp: engine_inv_def engine_mark_ready_def set_state_def st_defs engine_consistent_def engine_corpus_def
      intro: derived_repr_cong)

section \<open>Reachable states\<close>

text \<open>The methods that change a copy's state, and a run of them in any order, exceptions included.
  \<open>mark_ready\<close> verifies nothing itself: it is a step of its own, which its caller may take only when the copy
  agrees with its storage. \<open>synchronize\<close>, its one caller in the program, discharges that (\<open>Synchronization\<close>).\<close>

datatype engine_op =
    Initialize
  | Close
  | MarkRecovering pystr
  | MarkOutOfSync pystr
  | IndexDocument document
  | DeleteDocument pystr
  | ReplicatedPut document int
  | ReplicatedDelete pystr int
  | Resynchronize "document list" int

fun engine_op_run :: "'f::linorder runtime \<Rightarrow> engine_op \<Rightarrow> 'f engine \<Rightarrow> 'f engine" where
  "engine_op_run rt Initialize en = snd (engine_initialize rt en)"
| "engine_op_run rt Close en = snd (engine_close en)"
| "engine_op_run rt (MarkRecovering s) en = snd (engine_mark_recovering s en)"
| "engine_op_run rt (MarkOutOfSync s) en = snd (engine_mark_out_of_sync s en)"
| "engine_op_run rt (IndexDocument doc) en = snd (engine_index_document rt doc en)"
| "engine_op_run rt (DeleteDocument d) en = snd (engine_delete_document d en)"
| "engine_op_run rt (ReplicatedPut doc g) en = snd (engine_apply_replicated_put rt doc g en)"
| "engine_op_run rt (ReplicatedDelete d g) en = snd (engine_apply_replicated_delete d g en)"
| "engine_op_run rt (Resynchronize docs g) en = snd (engine_resynchronize rt docs g en)"

text \<open>Every \<open>Document\<close> object has passed its constructor.\<close>

fun engine_op_ok :: "unicode \<Rightarrow> engine_op \<Rightarrow> bool" where
  "engine_op_ok ud (IndexDocument doc) = valid_id ud (document_id doc)"
| "engine_op_ok ud (ReplicatedPut doc g) = valid_id ud (document_id doc)"
| "engine_op_ok ud (Resynchronize docs g) = list_all (\<lambda>doc. valid_id ud (document_id doc)) docs"
| "engine_op_ok ud _ = True"

inductive engine_reachable :: "'f::linorder runtime \<Rightarrow> 'f engine \<Rightarrow> 'f engine \<Rightarrow> bool" for rt :: "'f runtime" and en0 :: "'f engine" where
  start: "engine_reachable rt en0 en0"
| step: "engine_reachable rt en0 en \<Longrightarrow> engine_op_ok (rt_unicode rt) op \<Longrightarrow> engine_reachable rt en0 (engine_op_run rt op en)"
| verified: "engine_reachable rt en0 en \<Longrightarrow> engine_consistent rt en \<Longrightarrow> engine_reachable rt en0 (snd (engine_mark_ready en))"

lemma engine_op_inv:
  assumes inv: "engine_inv rt en" and ok: "engine_op_ok (rt_unicode rt) op"
  shows "engine_inv rt (engine_op_run rt op en)"
proof (cases op)
  case Initialize
  then show ?thesis using initialize_cases [OF inv] by auto
next
  case Close
  then show ?thesis using close_inv [OF inv] by simp
next
  case (MarkRecovering s)
  then show ?thesis using mark_inv(1) [OF inv] by simp
next
  case (MarkOutOfSync s)
  then show ?thesis using mark_inv(2) [OF inv] by simp
next
  case (IndexDocument doc)
  then show ?thesis using index_document_cases [OF inv, of doc] ok by auto
next
  case (DeleteDocument d)
  then show ?thesis using delete_document_cases [OF inv, of d] by auto
next
  case (ReplicatedPut doc g)
  then show ?thesis using apply_replicated_put_cases [OF inv, of doc g] ok by auto
next
  case (ReplicatedDelete d g)
  then show ?thesis using apply_replicated_delete_cases [OF inv, of d g] by auto
next
  case (Resynchronize docs g)
  then show ?thesis using resynchronize_cases [OF inv, of docs g] ok by auto
qed

lemma engine_reachable_inv: "engine_reachable rt en0 en \<Longrightarrow> engine_inv rt en0 \<Longrightarrow> engine_inv rt en"
  by (induction rule: engine_reachable.induct) (auto intro: engine_op_inv mark_ready_inv)

lemma engine_init_inv:
  assumes "engine_init rt store scorer embedder = Inr en" "store_ok (rt_unicode rt) store"
    "case embedder of None \<Rightarrow> True | Some e \<Rightarrow> embedder_wf e"
  shows "engine_inv rt en"
  using assms by (auto simp: engine_init_def ebind_Inr_iff engine_inv_def)

end
