(* ===== verification/Engine_Queries.thy ===== *)
theory Engine_Queries
  imports Engine_Invariant
begin

text \<open>
  What a \<open>READY\<close> engine answers: lexical search, statistics and snapshots as functions of its durable corpus
  alone, semantic search also of the vectors it stores; recovery; and the properties of the engine.
\<close>

section \<open>Lexical search\<close>

definition lexical_scores ::
    "'f::linorder runtime \<Rightarrow> 'f bm25_params \<Rightarrow> corpus_stats \<Rightarrow> pystr list \<Rightarrow> (pystr \<rightharpoonup> pystr) \<Rightarrow> pystr \<rightharpoonup> 'f" where
  "lexical_scores rt params stats terms C d =
     Option.bind (C d) (\<lambda>t. doc_score (rt_float rt) params stats terms (analyze (rt_unicode rt) t))"

definition hits_of :: "(pystr \<rightharpoonup> pystr) \<Rightarrow> (pystr \<times> 'f) list \<Rightarrow> 'f search_result list" where
  "hits_of C xs = map (\<lambda>(d, s). \<lparr>sr_document_id = d, sr_score = s, sr_text = the (C d)\<rparr>) xs"

text \<open>A page of a ranking: the first \<open>limit\<close> hits and how many there are in all.\<close>

definition ranked_page :: "(pystr \<rightharpoonup> pystr) \<Rightarrow> (pystr \<rightharpoonup> 'f::linorder) \<Rightarrow> int \<Rightarrow> 'f search_results" where
  "ranked_page C S limit =
     \<lparr>srs_total = int (card (dom S)), srs_results = hits_of C (take (nat limit) (ranking S))\<rparr>"

lemma lexical_scores_dom: "dom (lexical_scores rt params stats terms C) \<subseteq> dom C"
  by (auto simp: lexical_scores_def bind_eq_Some_conv)

lemma same_stats_lexical:
  "same_stats a b \<Longrightarrow> lexical_scores rt params a terms C = lexical_scores rt params b terms C"
  by (rule ext) (simp add: lexical_scores_def same_stats_score)

lemma lookup_hits:
  assumes "docs_repr (en_documents en) C" "fst ` set xs \<subseteq> dom C"
  shows "emap (mk_search_result en) xs = Inr (hits_of C xs)"
  unfolding hits_of_def
proof (rule emap_all_Inr)
  fix x assume "x \<in> set xs"
  then have "fst x \<in> dom C" using assms(2) by blast
  then obtain t where "C (fst x) = Some t" by blast
  then show "mk_search_result en x = Inr (case x of (d, s) \<Rightarrow> \<lparr>sr_document_id = d, sr_score = s, sr_text = the (C d)\<rparr>)"
    using assms(1) by (cases x) (simp add: mk_search_result_def lookup_text_def dget_item_def docs_repr_def)
qed

lemma fst_take_ranking: "finite (dom S) \<Longrightarrow> fst ` set (take k (ranking S)) \<subseteq> dom S"
  using ranking_dict [of S] by (auto dest!: in_set_takeD simp: dict_in_set [OF ranking_dict(1)])

lemma engine_corpus_finite: "engine_consistent rt en \<Longrightarrow> finite (dom (engine_corpus en))"
  by (metis engine_consistent_def derived_repr_def docs_repr_dom List.finite_set)

lemma search_locked_page:
  assumes ar: "bm25_arithmetic (rt_float rt) (en_scorer en)" and c: "engine_consistent rt en" and l: "0 \<le> limit"
    and st: "case given of None \<Rightarrow> stats = index_corpus_stats (en_index en) terms | Some s \<Rightarrow> stats = s \<and> stats_ok s"
  shows "search_locked rt en terms limit given =
    Inr (ranked_page (engine_corpus en) (lexical_scores rt (en_scorer en) stats terms (engine_corpus en)) limit)"
proof -
  let ?C = "engine_corpus en" and ?S = "lexical_scores rt (en_scorer en) stats terms (engine_corpus en)"
  from c have ix: "index_repr (en_index en) (token_corpus (rt_unicode rt) ?C)" and docs: "docs_repr (en_documents en) ?C"
    by (simp_all add: engine_consistent_def derived_repr_def)
  have fin: "finite (dom ?S)" using lexical_scores_dom engine_corpus_finite [OF c] finite_subset by metis
  have S: "Option.bind (token_corpus (rt_unicode rt) ?C d) (doc_score (rt_float rt) (en_scorer en) stats terms) = ?S d" for d
    by (cases "?C d") (simp_all add: lexical_scores_def token_corpus_def)
  show ?thesis
  proof (cases "terms = []")
    case True
    then have "?S = Map.empty" by (auto simp: fun_eq_iff lexical_scores_def bind_eq_None_conv doc_score_def)
    then show ?thesis using True by (simp add: search_locked_def ranked_page_def hits_of_def ranking_def)
  next
    case False
    obtain scores where sc: "score_query (rt_float rt) (en_scorer en) (en_index en) terms given = Inr scores" "dict_ok scores"
        "map_of scores = ?S"
    proof (cases given)
      case None
      with bm25_arithmetic.score_query_own_stats [OF ar ix, of terms] st S that show thesis by (auto simp: fun_eq_iff)
    next
      case (Some s)
      with bm25_arithmetic.score_query_from_stats [OF ar ix, of stats terms] st S that show thesis by (auto simp: fun_eq_iff)
    qed
    have rank: "sort_key by_rank scores = ranking ?S" using sort_by_rank [OF sc(2)] sc(3) by simp
    have "length scores = card (dom ?S)" using dict_length [OF sc(2)] sc(3) by simp
    moreover have "emap (mk_search_result en) (take (nat limit) (ranking ?S)) = Inr (hits_of ?C (take (nat limit) (ranking ?S)))"
      using lookup_hits [OF docs] fst_take_ranking [OF fin] lexical_scores_dom by blast
    ultimately show ?thesis
      using False l by (simp add: search_locked_def sc(1) rank ranked_page_def Let_def)
  qed
qed

lemma engine_stats_ok:
  assumes "engine_consistent rt en"
  shows "stats_ok (index_corpus_stats (en_index en) terms)"
  using assms index_stats_ok by (auto simp: engine_consistent_def derived_repr_def)

section \<open>Semantic search\<close>

text \<open>The vectors a copy has stored, by document. An embedder need not return bit-identical vectors for a text
  in two batches, so they are a part of the copy's state, not a function of its corpus.\<close>

definition stored_vectors :: "'f engine \<Rightarrow> pystr \<rightharpoonup> 'f list" where
  "stored_vectors en d =
     (case en_vectors en of None \<Rightarrow> None
      | Some ix \<Rightarrow> (case vec_vector_for ix d of Inl _ \<Rightarrow> None | Inr row \<Rightarrow> Some row))"

lemma stored_vectors_repr:
  assumes "en_vectors en = Some ix" "vec_repr w ix V"
  shows "stored_vectors en = V"
proof
  fix d
  note D = vec_reprD [OF assms(2)]
  show "stored_vectors en d = V d"
  proof (cases "map_of (vi_positions ix) d")
    case None
    then show ?thesis by (simp add: stored_vectors_def assms(1) vec_vector_for_def dget_item_def D(8))
  next
    case (Some p)
    then have "p < length (mx_rows (vi_matrix ix))" using D(6) D(7) [of d p] by linarith
    then show ?thesis using Some by (simp add: stored_vectors_def assms(1) vec_vector_for_def dget_item_def D(8))
  qed
qed

lemma engine_vectors:
  assumes c: "engine_consistent rt en" and e: "en_embedder en = Some e"
  shows "\<exists>ix. en_vectors en = Some ix \<and> vec_repr (si_dimension (em_identity e)) ix (stored_vectors en)"
    "dom (stored_vectors en) = dom (engine_corpus en)"
    "engine_corpus en d = Some t \<Longrightarrow> stored_vectors en d = Some x \<Longrightarrow> embeds (rt_numpy rt) e t x"
proof -
  from c e obtain ix V where V: "en_vectors en = Some ix" "vec_repr (si_dimension (em_identity e)) ix V" "dom V = dom (engine_corpus en)"
      "\<forall>d t x. engine_corpus en d = Some t \<longrightarrow> V d = Some x \<longrightarrow> embeds (rt_numpy rt) e t x"
    by (auto simp: engine_consistent_def derived_repr_def vectors_repr_def)
  have "stored_vectors en = V" by (rule stored_vectors_repr [OF V(1,2)])
  with V show "\<exists>ix. en_vectors en = Some ix \<and> vec_repr (si_dimension (em_identity e)) ix (stored_vectors en)"
    "dom (stored_vectors en) = dom (engine_corpus en)"
    "engine_corpus en d = Some t \<Longrightarrow> stored_vectors en d = Some x \<Longrightarrow> embeds (rt_numpy rt) e t x" by auto
qed

lemma similarity_dom: "dom (similarity np q V) = dom V"
  by (auto simp: similarity_def)

lemma vec_count_card: "vec_repr w ix V \<Longrightarrow> vec_count ix = int (card (dom V))"
proof -
  assume r: "vec_repr w ix V"
  note D = vec_reprD [OF r]
  have "dom V = set (vi_ids ix)" using D(7,8) by (auto simp: in_set_conv_nth dom_def)
  then show ?thesis using D(5) by (simp add: vec_count_def distinct_card)
qed

lemma semantic_page:
  assumes c: "engine_consistent rt en" and e: "en_embedder en = Some e"
    and q: "vec_ok (rt_numpy rt) (si_dimension (em_identity e)) q" and l: "1 \<le> limit"
  shows "semantic_search_locked rt en q limit =
    Inr (ranked_page (engine_corpus en) (similarity (rt_numpy rt) (vec_val (rt_numpy rt) q) (stored_vectors en)) limit)"
proof -
  let ?C = "engine_corpus en" and ?S = "similarity (rt_numpy rt) (vec_val (rt_numpy rt) q) (stored_vectors en)"
  from engine_vectors(1) [OF c e] obtain ix where
    ix: "en_vectors en = Some ix" "vec_repr (si_dimension (em_identity e)) ix (stored_vectors en)" by blast
  note dom = similarity_dom engine_vectors(2) [OF c e]
  have docs: "docs_repr (en_documents en) ?C" using c by (simp add: engine_consistent_def derived_repr_def)
  have fin: "finite (dom ?S)" using engine_corpus_finite [OF c] by (simp add: dom)
  have hits: "vec_search (rt_numpy rt) ix q limit = Inr (map mk_scored (take (nat limit) (ranking ?S)))"
    by (rule vec_search_hits [OF ix(2) q l])
  have "emap (\<lambda>h. mk_search_result en (sd_document_id h, sd_score h)) (map mk_scored xs) = emap (mk_search_result en) xs" for xs
    by (induction xs) auto
  moreover have "emap (mk_search_result en) (take (nat limit) (ranking ?S)) = Inr (hits_of ?C (take (nat limit) (ranking ?S)))"
    using lookup_hits [OF docs] fst_take_ranking [OF fin] by (simp add: dom)
  moreover have "vec_count ix = int (card (dom ?S))"
    using vec_count_card [OF ix(2)] by (simp add: similarity_dom)
  ultimately show ?thesis by (simp add: semantic_search_locked_def ix(1) hits ranked_page_def)
qed

section \<open>Snapshots\<close>

lemma snapshot_corpus:
  assumes "docs_repr docs C"
  shows "docs_corpus (map snd docs) = C" "distinct (map document_id (map snd docs))"
proof -
  have ids: "document_id doc = d \<and> C d = Some (doc_text doc)" if "(d, doc) \<in> set docs" for d doc
    using that assms by (cases "C d") (auto simp: docs_repr_def dict_in_set)
  have key: "map document_id (map snd docs) = map fst docs" using ids by auto
  show "distinct (map document_id (map snd docs))" using assms by (simp only: key docs_repr_def)
  have rows: "map (\<lambda>doc. (document_id doc, doc_text doc)) (map snd docs) = map (\<lambda>(d, doc). (d, doc_text doc)) docs"
    using ids by auto
  have "map_of (map (\<lambda>(d, doc). (d, doc_text doc)) docs) = (\<lambda>d. map_option doc_text (map_of docs d))"
    by (rule ext, induction docs) auto
  also have "\<dots> = C" using assms by (auto simp: docs_repr_def fun_eq_iff option.map_comp comp_def option.map_ident)
  finally show "docs_corpus (map snd docs) = C" by (simp only: docs_corpus_def rows)
qed

text \<open>What an exported snapshot is.\<close>

lemma export_facts:
  assumes "engine_inv rt en" "engine_export_snapshot en = Inr (docs, g)"
  shows "en_state en = READY" "docs_corpus docs = engine_corpus en" "distinct (map document_id docs)"
    "list_all (\<lambda>doc. valid_id (rt_unicode rt) (document_id doc)) docs" "g = en_generation en"
proof -
  show ready: "en_state en = READY" and g: "g = en_generation en"
    using assms(2) by (auto simp: engine_export_snapshot_def require_operational_def split: if_splits)
  have snap: "docs = map snd (en_documents en)"
    using assms(2) by (auto simp: engine_export_snapshot_def require_operational_def split: if_splits)
  note c = engine_invD(3) [OF assms(1) ready, unfolded engine_consistent_def derived_repr_def]
  show corp: "docs_corpus docs = engine_corpus en" "distinct (map document_id docs)"
    using snapshot_corpus [OF conjunct1 [OF conjunct1 [OF c]]] snap by auto
  show "list_all (\<lambda>doc. valid_id (rt_unicode rt) (document_id doc)) docs"
  proof (rule list_all_iff [THEN iffD2], rule ballI)
    fix doc assume "doc \<in> set docs"
    then have "doc_row doc \<in> set (map doc_row docs)" by simp
    moreover have "dict_ok (map doc_row docs)" using corp(2) by (simp add: comp_def)
    ultimately have "docs_corpus docs (document_id doc) = Some (doc_text doc)" by (simp add: docs_corpus_def dict_in_set)
    then have "fst (store_content (en_store en)) (document_id doc) = Some (doc_text doc)" using corp(1) by (simp add: engine_corpus_def)
    then show "valid_id (rt_unicode rt) (document_id doc)"
      using engine_invD(1) [OF assms(1)] unfolding store_ok_def store_content_def by auto
  qed
qed

section \<open>Recovery\<close>

text \<open>An embedder that works: one acceptable unit (or zero) row per text.\<close>

definition embedder_works :: "'f::linorder numpy \<Rightarrow> 'f embedder \<Rightarrow> bool" where
  "embedder_works np e \<longleftrightarrow> 1 \<le> si_dimension (em_identity e) \<and> embedder_wf e \<and>
     (\<forall>texts. texts \<noteq> [] \<longrightarrow> (\<exists>a rows. em_embed_documents e texts = Inr a \<and> nd_rows a = Inr rows \<and> length rows = length texts
        \<and> list_all (\<lambda>v. vec_ok np (si_dimension (em_identity e)) v \<and> \<not> vec_row_offends np (vec_val np v)) rows))"

definition good_rows :: "'f::linorder numpy \<Rightarrow> (pystr \<rightharpoonup> 'f list) \<Rightarrow> bool" where
  "good_rows np V \<longleftrightarrow> (\<forall>d x. V d = Some x \<longrightarrow> list_all (np_isfinite np) x \<and> \<not> vec_row_offends np x)"

lemma rebuild_batch_works:
  assumes "vec_repr (si_dimension (em_identity e)) ix V" "good_rows (rt_numpy rt) V" "embedder_works (rt_numpy rt) e"
    and "docs_repr docs C" "set batch \<subseteq> dom C" "batch \<noteq> []" "distinct batch"
  shows "\<exists>ix' V'. rebuild_batch rt e docs batch ix = (Inr (), ix') \<and> vec_repr (si_dimension (em_identity e)) ix' V' \<and> good_rows (rt_numpy rt) V'"
proof -
  let ?w = "si_dimension (em_identity e)" and ?np = "rt_numpy rt"
  have "ebind (dget_item docs k) (\<lambda>doc. Inr (doc_text doc)) = Inr (the (C k))" if "k \<in> set batch" for k
    using that assms(4,5) by (auto simp: dget_item_def docs_repr_def dest!: subsetD)
  then have texts: "emap (\<lambda>k. ebind (dget_item docs k) (\<lambda>doc. Inr (doc_text doc))) batch = Inr (map (\<lambda>k. the (C k)) batch)"
    by (rule emap_all_Inr)
  from assms(3,6) obtain a rows where a: "em_embed_documents e (map (\<lambda>k. the (C k)) batch) = Inr a" "nd_rows a = Inr rows"
      "length rows = length batch" "list_all (\<lambda>v. vec_ok ?np ?w v \<and> \<not> vec_row_offends ?np (vec_val ?np v)) rows"
  proof -
    from assms(3) have "\<forall>texts. texts \<noteq> [] \<longrightarrow> (\<exists>a rows. em_embed_documents e texts = Inr a \<and> nd_rows a = Inr rows
        \<and> length rows = length texts \<and> list_all (\<lambda>v. vec_ok ?np ?w v \<and> \<not> vec_row_offends ?np (vec_val ?np v)) rows)"
      unfolding embedder_works_def by (elim conjE)
    from this [rule_format, of "map (\<lambda>k. the (C k)) batch"] assms(6) that show thesis by auto
  qed
  have ok: "\<forall>(d, v)\<in>set (zip batch rows). vec_ok ?np ?w v" "distinct (map fst (zip batch rows))"
    using a(3,4) assms(7) by (auto simp: list_all_iff dest: set_zip_rightD)
  from vectors.rebuild_from [OF assms(1) ok] obtain ix' where
    ix': "sfold (\<lambda>(d, v). vec_add ?np d v) (zip batch rows) ix = (Inr (), ix')"
      "vec_repr ?w ix' (V ++ map_of (map (\<lambda>(k, v). (k, vec_val ?np v)) (zip batch rows)))" by blast
  have "rebuild_batch rt e docs batch ix = (Inr (), ix')"
    using texts a ix'(1) by (simp add: rebuild_batch_def st_defs sbind_def)
  moreover have "good_rows ?np (V ++ map_of (map (\<lambda>(k, v). (k, vec_val ?np v)) (zip batch rows)))"
    using assms(2) a(4) unfolding good_rows_def
    by (auto simp: map_add_Some_iff list_all_iff vec_ok_def vec_val_def dest!: map_of_SomeD set_zip_rightD)
  ultimately show ?thesis using ix'(2) by blast
qed

lemma rebuild_batches_works:
  assumes "embedder_works (rt_numpy rt) e" "docs_repr docs C"
  shows "vec_repr (si_dimension (em_identity e)) ix V \<Longrightarrow> good_rows (rt_numpy rt) V \<Longrightarrow> \<forall>b\<in>set bs. b \<noteq> [] \<and> distinct b \<and> set b \<subseteq> dom C
    \<Longrightarrow> \<exists>ix' V'. sfold (rebuild_batch rt e docs) bs ix = (Inr (), ix') \<and> vec_repr (si_dimension (em_identity e)) ix' V' \<and> good_rows (rt_numpy rt) V'"
proof (induction bs arbitrary: ix V)
  case (Cons b bs)
  from rebuild_batch_works [OF Cons.prems(1,2) assms, of b] Cons.prems(3) obtain ix1 V1 where
    1: "rebuild_batch rt e docs b ix = (Inr (), ix1)" "vec_repr (si_dimension (em_identity e)) ix1 V1" "good_rows (rt_numpy rt) V1" by auto
  with Cons.IH [OF 1(2,3)] Cons.prems(3) show ?case by simp
qed auto

lemma batches_parts:
  "b \<in> set (batches n xs) \<Longrightarrow> distinct xs \<Longrightarrow> b \<noteq> [] \<and> distinct b \<and> set b \<subseteq> set xs"
proof (induction n xs rule: batches.induct)
  case (1 n xs)
  show ?case
  proof (cases "xs = [] \<or> n = 0")
    case True
    then show ?thesis using 1(2) by (subst (asm) batches.simps) simp
  next
    case False
    then have "b = take n xs \<or> b \<in> set (batches n (drop n xs))" using 1(2) by (subst (asm) batches.simps) simp
    then show ?thesis using 1(1) [OF False] 1(3) False by (auto dest: in_set_takeD in_set_dropD)
  qed
qed

lemma good_rows_validate:
  assumes r: "vec_repr w ix V" and g: "good_rows np V"
  shows "vec_validate np ix = Inr ()"
proof -
  note D = vec_reprD [OF r]
  have "list_all (\<lambda>row. list_all (np_isfinite np) row \<and> \<not> vec_row_offends np row) (take (length (vi_ids ix)) (mx_rows (vi_matrix ix)))"
  proof (rule list_all_iff [THEN iffD2], rule ballI)
    fix row assume "row \<in> set (take (length (vi_ids ix)) (mx_rows (vi_matrix ix)))"
    then obtain i where i: "i < length (vi_ids ix)" "row = mx_rows (vi_matrix ix) ! i" by (auto simp: in_set_conv_nth)
    then have "map_of (vi_positions ix) (vi_ids ix ! i) = Some i" using D(7) by simp
    then have "V (vi_ids ix ! i) = Some row" using D(8) i(2) by simp
    then show "list_all (np_isfinite np) row \<and> \<not> vec_row_offends np row" using g by (simp add: good_rows_def)
  qed
  moreover have "vi_dimension ix = w" "\<forall>r\<in>set (mx_rows (vi_matrix ix)). length r = mx_width (vi_matrix ix)"
    using D(2,3,4) by auto
  ultimately show ?thesis using vec_validate_iff [OF D(1) _ D(6), of np] r by blast
qed

lemma rebuild_vectors_works:
  assumes "case embedder of None \<Rightarrow> True | Some e \<Rightarrow> embedder_works (rt_numpy rt) e" "docs_repr docs C"
  shows "\<exists>vo. rebuild_vectors rt embedder docs = Inr vo"
proof (cases embedder)
  case None
  then show ?thesis by (simp add: rebuild_vectors_def)
next
  case (Some e)
  let ?np = "rt_numpy rt" and ?w = "si_dimension (em_identity e)" and ?ids = "sort (dkeys docs)"
  have e: "embedder_works ?np e" using assms(1) Some by simp
  have "distinct ?ids" "set ?ids = dom C" using assms(2) docs_repr_dom [OF assms(2)] by (simp_all add: docs_repr_def)
  then have "\<forall>b\<in>set (batches embedding_batch_size ?ids). b \<noteq> [] \<and> distinct b \<and> set b \<subseteq> dom C" using batches_parts by metis
  from rebuild_batches_works [OF e assms(2) vec_empty_repr [of ?w ?np] _ this] obtain ix V where
    ix: "sfold (rebuild_batch rt e docs) (batches embedding_batch_size ?ids) (vec_empty ?np ?w) = (Inr (), ix)"
      "vec_repr ?w ix V" "good_rows ?np V" by (auto simp: good_rows_def)
  have "vec_init ?np (int ?w) = Inr (vec_empty ?np ?w)"
    using e by (simp add: vec_init_def vec_empty_def embedder_works_def)
  then show ?thesis using Some ix(1) good_rows_validate [OF ix(2,3)] by (simp add: rebuild_vectors_def)
qed

lemma calm_generation:
  assumes "calm con" "store_ok ud con"
  shows "store_generation con = (Inr (snd (store_content con)), con)"
  using assms by (auto simp: store_generation_def calm_select store_ok_def store_content_def)

lemma initialize_works:
  assumes ok: "store_ok (rt_unicode rt) (en_store en)" "calm (en_store en)"
    and e: "case en_embedder en of None \<Rightarrow> True | Some e \<Rightarrow> embedder_works (rt_numpy rt) e"
  shows "\<exists>report. fst (rebuild_locked rt en) = Inr report"
proof -
  note D = store_docs_facts [OF ok(1)]
  from rebuild_documents [OF D(3), of rt] obtain ix ds where
    b: "efold (rebuild_document rt) (store_docs (en_store en)) (index_empty, []) = Inr (ix, ds)"
      "index_repr ix (token_corpus (rt_unicode rt) (docs_corpus (store_docs (en_store en))))"
      "docs_repr ds (docs_corpus (store_docs (en_store en)))" by blast
  from rebuild_vectors_works [OF e b(3)] obtain vo where vo: "rebuild_vectors rt (en_embedder en) ds = Inr vo" by blast
  have "on_store (store_for_documents (rt_unicode rt) (rebuild_document rt) (index_empty, [])) en = (Inr (ix, ds), en)"
    by (simp add: on_store_def calm_for_documents [OF ok(2,1)] b(1))
  then show ?thesis using vo repr_validates [OF b(2)] calm_generation [OF ok(2,1)]
    by (simp add: rebuild_locked_def sbind_def st_defs on_store_def)
qed

section \<open>Writes that succeed\<close>

lemma calm_put:
  assumes "calm con"
  shows "fst (store_put doc g con) = Inr (map_of (db_documents (con_working con)) (document_id doc) = None)" "calm (snd (store_put doc g con))"
  using assms unfolding calm_def store_put_def wrap_sqlite_def with_connection_def db_select_def db_modify_def set_generation_def
    db_exec_def db_commit_def sbind_def by simp_all

lemma apply_derived_works:
  assumes d: "derived_repr rt en C"
    and v: "case vector of None \<Rightarrow> True | Some v \<Rightarrow> \<exists>e. en_embedder en = Some e \<and> vec_ok (rt_numpy rt) (si_dimension (em_identity e)) v"
  shows "fst (apply_derived rt doc toks vector en) = Inr ()"
proof -
  from d have "index_repr (en_index en) (token_corpus (rt_unicode rt) C)" by (simp add: derived_repr_def)
  from lexical.add_ok [OF this, where v = toks and k = "document_id doc"] obtain ix where
    ix: "index_add_document (document_id doc) toks (en_index en) = (Inr (), ix)" by auto
  show ?thesis
  proof (cases vector)
    case None
    then show ?thesis by (simp add: apply_derived_def st_defs on_index_def sbind_def ix)
  next
    case (Some w)
    with v obtain e where e: "en_embedder en = Some e" "vec_ok (rt_numpy rt) (si_dimension (em_identity e)) w" by auto
    with d obtain vi V where vi: "en_vectors en = Some vi" "vec_repr (si_dimension (em_identity e)) vi V"
      by (auto simp: derived_repr_def vectors_repr_def)
    from vectors.add_ok [OF vi(2) e(2), of "document_id doc"] obtain vi' where
      "vec_add (rt_numpy rt) (document_id doc) w vi = (Inr (), vi')" by blast
    then show ?thesis using Some vi(1) by (simp add: apply_derived_def st_defs on_index_def sbind_def ix on_vectors_def)
  qed
qed

lemma embed_document_works:
  assumes "case en_embedder en of None \<Rightarrow> True | Some e \<Rightarrow> embedder_works (rt_numpy rt) e"
  shows "\<exists>vector. embed_document (en_embedder en) t = Inr vector
    \<and> (case vector of None \<Rightarrow> True | Some v \<Rightarrow> \<exists>e. en_embedder en = Some e \<and> vec_ok (rt_numpy rt) (si_dimension (em_identity e)) v)"
proof (cases "en_embedder en")
  case None
  then show ?thesis by (simp add: embed_document_def)
next
  case (Some e)
  then have "embedder_works (rt_numpy rt) e" using assms by simp
  then have "\<exists>a rows. em_embed_documents e [t] = Inr a \<and> nd_rows a = Inr rows \<and> length rows = length [t]
      \<and> list_all (\<lambda>v. vec_ok (rt_numpy rt) (si_dimension (em_identity e)) v \<and> \<not> vec_row_offends (rt_numpy rt) (vec_val (rt_numpy rt) v)) rows"
    unfolding embedder_works_def by blast
  then obtain a v where a: "em_embed_documents e [t] = Inr a" "nd_rows a = Inr [v]" "vec_ok (rt_numpy rt) (si_dimension (em_identity e)) v"
    by (auto simp: length_Suc_conv)
  have "nd_first a = Inr v"
  proof (cases "nd_shape a")
    case Nil
    then show ?thesis using a(2) by (simp add: nd_rows_def)
  next
    case (Cons n sh)
    have "length (map (\<lambda>i. \<lparr>nd_shape = sh, nd_data = take (prod_list sh) (drop (i * prod_list sh) (nd_data a))\<rparr>) [0..<n]) = 1"
      using a(2) Cons by (simp add: nd_rows_def)
    then have "n = 1" by simp
    then show ?thesis using a(2) Cons by (simp add: nd_rows_def nd_first_def)
  qed
  then show ?thesis using Some a by (simp add: embed_document_def)
qed

lemma index_document_works:
  assumes inv: "engine_inv rt en" and "en_state en = READY" "calm (en_store en)"
    and e: "case en_embedder en of None \<Rightarrow> True | Some e \<Rightarrow> embedder_works (rt_numpy rt) e"
  shows "\<exists>created. fst (engine_index_document rt doc en) = Inr created" "calm (en_store (snd (engine_index_document rt doc en)))"
proof -
  from embed_document_works [OF e] obtain vector where v: "embed_document (en_embedder en) (doc_text doc) = Inr vector"
      "case vector of None \<Rightarrow> True | Some v \<Rightarrow> \<exists>e. en_embedder en = Some e \<and> vec_ok (rt_numpy rt) (si_dimension (em_identity e)) v" by blast
  obtain b con where put: "store_put doc (en_generation en + 1) (en_store en) = (Inr b, con)" "calm con"
    using calm_put [OF assms(3), of doc "en_generation en + 1"] by (cases "store_put doc (en_generation en + 1) (en_store en)") auto
  let ?en = "en\<lparr>en_store := con, en_generation := en_generation en + 1\<rparr>"
  have dr: "derived_repr rt ?en (engine_corpus en)"
    using engine_invD(3) [OF inv assms(2)] by (auto simp: engine_consistent_def intro: derived_repr_cong)
  moreover have "case vector of None \<Rightarrow> True | Some v \<Rightarrow> \<exists>e. en_embedder ?en = Some e \<and> vec_ok (rt_numpy rt) (si_dimension (em_identity e)) v"
    using v(2) by (cases vector) auto
  ultimately have "fst (apply_derived rt doc (analyze (rt_unicode rt) (doc_text doc)) vector ?en) = Inr ()" by (rule apply_derived_works)
  then obtain en' where
    a: "apply_derived rt doc (analyze (rt_unicode rt) (doc_text doc)) vector ?en = (Inr (), en')"
    by (cases "apply_derived rt doc (analyze (rt_unicode rt) (doc_text doc)) vector ?en") auto
  have run: "engine_index_document rt doc en = (Inr b, en')"
    using v(1) assms(2) put a by (simp add: engine_index_document_def require_operational_def sbind_def st_defs on_store_def degrade_on_failure_def)
  then show "\<exists>created. fst (engine_index_document rt doc en) = Inr created" by simp
  have "same_frame ?en en'"
    using apply_derived_cases [OF dr, of doc vector] engine_invD(2) [OF inv] v(1) a by auto
  then show "calm (en_store (snd (engine_index_document rt doc en)))" using run put(2) by (simp add: same_frame_def)
qed

lemma calm_inserts:
  assumes "calm con" "distinct (map document_id docs)" "set (map document_id docs) \<inter> set (dkeys (db_documents (con_working con))) = {}"
  shows "\<exists>con'. sfold db_insert docs con = (Inr (), con') \<and> calm con'"
  using assms
proof (induction docs arbitrary: con)
  case (Cons doc docs)
  let ?con = "con\<lparr>con_working := (con_working con)\<lparr>db_documents := db_documents (con_working con) @ [doc_row doc]\<rparr>, con_faults := []\<rparr>"
  have "map_of (db_documents (con_working con)) (document_id doc) = None"
    using Cons.prems(3) by (simp add: map_of_eq_None_iff)
  then have ins: "db_insert doc con = (Inr (), ?con)"
    using Cons.prems(1) by (simp add: db_insert_def db_exec_def calm_def)
  have "calm ?con" using Cons.prems(1) by (simp add: calm_def)
  moreover have "set (map document_id docs) \<inter> set (dkeys (db_documents (con_working ?con))) = {}" using Cons.prems(2,3) by auto
  ultimately show ?case using Cons.IH [of ?con] Cons.prems(2) ins by auto
qed simp

lemma calm_replace:
  assumes "calm con" "distinct (map document_id docs)"
  shows "fst (store_replace_all docs g con) = Inr () \<and> calm (snd (store_replace_all docs g con))"
proof -
  let ?con = "con\<lparr>con_working := (con_working con)\<lparr>db_documents := []\<rparr>, con_faults := []\<rparr>"
  have del: "db_modify (\<lambda>db. db\<lparr>db_documents := []\<rparr>) con = (Inr (), ?con)"
    using assms(1) by (simp add: db_modify_def db_exec_def calm_def)
  have "calm ?con" using assms(1) by (simp add: calm_def)
  from calm_inserts [OF this assms(2)] obtain con' where c: "sfold db_insert docs ?con = (Inr (), con')" "calm con'" by auto
  then show ?thesis using del
    by (simp add: store_replace_all_def wrap_sqlite_def with_connection_def sbind_def set_generation_def db_modify_def
        db_exec_def db_commit_def calm_def)
qed

section \<open>Properties\<close>

text \<open>A copy for the witnesses: an empty store, no embedder, ASCII text, exact arithmetic.\<close>

definition real_runtime :: "real runtime" where
  "real_runtime = \<lparr>rt_unicode = ascii_unicode, rt_float = real_ops, rt_numpy = real_numpy\<rparr>"

definition blank_engine :: "bool list \<Rightarrow> real engine" where
  "blank_engine faults = projr (engine_init real_runtime (fresh_store faults) None None)"

lemma blank_engine_facts:
  "engine_init real_runtime (fresh_store faults) None None = Inr (blank_engine faults)"
  "engine_inv real_runtime (blank_engine faults)" "en_store (blank_engine faults) = fresh_store faults"
  "en_embedder (blank_engine faults) = None" "en_state (blank_engine faults) = STARTING" "en_generation (blank_engine faults) = 0"
  "en_scorer (blank_engine faults) = default_bm25_params real_ops" "engine_corpus (blank_engine faults) = Map.empty"
proof -
  show init: "engine_init real_runtime (fresh_store faults) None None = Inr (blank_engine faults)"
    by (simp add: blank_engine_def engine_init_def)
  show "engine_inv real_runtime (blank_engine faults)" using engine_init_inv [OF init] by simp
  show "en_store (blank_engine faults) = fresh_store faults" "en_embedder (blank_engine faults) = None"
    "en_state (blank_engine faults) = STARTING" "en_generation (blank_engine faults) = 0"
    "en_scorer (blank_engine faults) = default_bm25_params real_ops" "engine_corpus (blank_engine faults) = Map.empty"
    by (simp_all add: blank_engine_def engine_init_def engine_corpus_def real_runtime_def)
qed

lemma valid_a: "valid_id ascii_unicode (ustr ''a'')"
  by code_simp

text \<open>C7. A copy that is \<open>READY\<close> agrees with its durable corpus: from a newly constructed engine, after any
  sequence of initialisations, closings, state marks (\<open>mark_ready\<close> only where the caller has verified the copy), writes,
  deletes, replicated mutations and resynchronisations, whatever of them raised, with storage failing at any point and the embedding
  model returning anything, the document cache, the inverted index, the vector index and the
  generation of a \<open>READY\<close> copy are exactly those of what storage holds.\<close>

theorem ready_agrees_with_storage:
  assumes "engine_init rt store scorer embedder = Inr en0" "store_ok (rt_unicode rt) store"
    and "case embedder of None \<Rightarrow> True | Some e \<Rightarrow> embedder_wf e"
    and "engine_reachable rt en0 en"
  shows "store_ok (rt_unicode rt) (en_store en) \<and> (en_state en = READY \<longrightarrow> engine_consistent rt en)"
  using engine_reachable_inv [OF assms(4) engine_init_inv [OF assms(1-3)]] by (simp add: engine_inv_def)

text \<open>C9. Writing a document: success means the copy was and still is \<open>READY\<close>, the durable corpus has exactly
  that document replaced and the generation advanced by one, and the result says whether it is new. An
  exception means that nothing changed, durably or in memory, or that the copy is \<open>DEGRADED\<close> with the
  write committed.\<close>

theorem index_document_outcome:
  assumes "engine_inv rt en" "valid_id (rt_unicode rt) (document_id doc)"
  shows "\<exists>r en'. engine_index_document rt doc en = (r, en') \<and> engine_inv rt en'
    \<and> mutation_outcome (engine_corpus en) (en_generation en)
        ((engine_corpus en)(document_id doc \<mapsto> doc_text doc)) (en_generation en + 1) (en_state en)
        (engine_corpus en') (en_generation en') (en_state en') r
    \<and> (\<forall>created. r = Inr created \<longrightarrow> created = (engine_corpus en (document_id doc) = None))"
  using index_document_cases [OF assms] by blast

theorem index_document_outcome_witness:
  "\<exists>r en'. engine_index_document real_runtime \<lparr>document_id = ustr ''a'', doc_text = ustr ''x''\<rparr> (blank_engine []) = (r, en')
    \<and> engine_inv real_runtime en'"
proof -
  have v: "valid_id (rt_unicode real_runtime) (document_id \<lparr>document_id = ustr ''a'', doc_text = ustr ''x''\<rparr>)"
    using valid_a by (simp add: real_runtime_def)
  from index_document_outcome [OF blank_engine_facts(2) v, of "[]"] show ?thesis by blast
qed

text \<open>C10. Deleting a document: success means it was stored and exactly it is gone, with one generation
  consumed; a missing document raises without consuming a generation.\<close>

theorem delete_document_outcome:
  assumes "engine_inv rt en"
  shows "(\<exists>r en'. engine_delete_document d en = (r, en') \<and> engine_inv rt en'
    \<and> mutation_outcome (engine_corpus en) (en_generation en)
        ((engine_corpus en)(d := None)) (en_generation en + 1) (en_state en)
        (engine_corpus en') (en_generation en') (en_state en') r
    \<and> (\<forall>u. r = Inr u \<longrightarrow> engine_corpus en d \<noteq> None))
    \<and> (en_state en = READY \<and> engine_corpus en d = None \<longrightarrow> engine_delete_document d en = (Inl DocumentNotFoundError, en))"
proof -
  have "engine_delete_document d en = (Inl DocumentNotFoundError, en)" if "en_state en = READY" "engine_corpus en d = None"
    using engine_invD(3) [OF assms that(1)] that docs_repr_has [of "en_documents en" "engine_corpus en" d]
    by (simp add: engine_delete_document_def require_operational_def sbind_def engine_consistent_def derived_repr_def)
  with delete_document_cases [OF assms, of d] show ?thesis by blast
qed

theorem delete_document_outcome_witness:
  "\<exists>r en'. engine_delete_document (ustr ''a'') (blank_engine []) = (r, en') \<and> engine_inv real_runtime en'"
  using delete_document_outcome [OF blank_engine_facts(2), of "ustr ''a''" "[]"] by blast

text \<open>C11. Replicated mutations apply in sequence: exactly the next generation is applied, and only by a \<open>READY\<close>
  copy; anything at or below the local generation is acknowledged without effect; anything beyond takes
  the copy out of service; and an exception leaves either no trace or a \<open>DEGRADED\<close> copy.\<close>

theorem replicated_mutations_in_sequence:
  assumes "engine_inv rt en" "valid_id (rt_unicode rt) (document_id doc)"
  shows "(\<exists>r en'. engine_apply_replicated_put rt doc g en = (r, en') \<and> engine_inv rt en'
      \<and> replicated_outcome (engine_corpus en) (en_generation en) ((engine_corpus en)(document_id doc \<mapsto> doc_text doc)) g
          (en_state en) (engine_corpus en') (en_generation en') (en_state en') r)
    \<and> (\<exists>r en'. engine_apply_replicated_delete d g en = (r, en') \<and> engine_inv rt en'
      \<and> replicated_outcome (engine_corpus en) (en_generation en) ((engine_corpus en)(d := None)) g
          (en_state en) (engine_corpus en') (en_generation en') (en_state en') r)"
  using apply_replicated_put_cases [OF assms, of g] apply_replicated_delete_cases [OF assms(1), of d g] by blast

theorem replicated_mutations_in_sequence_witness:
  "\<exists>r en'. engine_apply_replicated_put real_runtime \<lparr>document_id = ustr ''a'', doc_text = ustr ''x''\<rparr> 2 (blank_engine []) = (r, en')
    \<and> engine_inv real_runtime en'"
proof -
  have v: "valid_id (rt_unicode real_runtime) (document_id \<lparr>document_id = ustr ''a'', doc_text = ustr ''x''\<rparr>)"
    using valid_a by (simp add: real_runtime_def)
  from replicated_mutations_in_sequence [OF blank_engine_facts(2) v, of 2 "[]" "ustr ''a''"] show ?thesis by blast
qed

lemma initialize_ready:
  assumes "engine_inv rt en" "calm (en_store en)"
    and "case en_embedder en of None \<Rightarrow> True | Some e \<Rightarrow> embedder_works (rt_numpy rt) e"
  shows "\<exists>report en'. engine_initialize rt en = (Inr report, en') \<and> en_state en' = READY \<and> engine_consistent rt en'
    \<and> engine_corpus en' = engine_corpus en"
proof -
  from initialize_cases [OF assms(1)] obtain r en' where
    i: "engine_initialize rt en = (r, en')" "engine_inv rt en'" "store_content (en_store en') = store_content (en_store en)"
      "case r of Inr _ \<Rightarrow> en_state en' = READY | Inl _ \<Rightarrow> en_state en' = en_state en" by blast
  from initialize_works [OF engine_invD(1) [OF assms(1)] assms(2,3)] obtain report where "fst (rebuild_locked rt en) = Inr report" by blast
  then have "\<exists>report. r = Inr report"
    using i(1) by (cases "rebuild_locked rt en") (auto simp: engine_initialize_def sbind_def st_defs set_state_def)
  then show ?thesis using i engine_invD(3) [OF i(2)] by (auto simp: engine_corpus_def)
qed

text \<open>C12. Recovery succeeds: with storage that answers and an embedder that works (or none), initialising
  a copy in any state rebuilds everything from storage and makes it \<open>READY\<close>.\<close>

theorem initialize_recovers:
  assumes "engine_inv rt en" "calm (en_store en)"
    and "case en_embedder en of None \<Rightarrow> True | Some e \<Rightarrow> embedder_works (rt_numpy rt) e"
  shows "\<exists>report en'. engine_initialize rt en = (Inr report, en') \<and> en_state en' = READY \<and> engine_consistent rt en'
    \<and> engine_corpus en' = engine_corpus en"
  by (rule initialize_ready [OF assms])

theorem initialize_recovers_witness:
  "\<exists>report en'. engine_initialize real_runtime (blank_engine []) = (Inr report, en') \<and> en_state en' = READY
    \<and> engine_consistent real_runtime en' \<and> engine_corpus en' = engine_corpus (blank_engine [])"
proof -
  have "calm (en_store (blank_engine []))" by (simp add: blank_engine_facts calm_def fresh_store_def)
  from initialize_recovers [OF blank_engine_facts(2) this] show ?thesis by (simp add: blank_engine_facts)
qed

definition ready_engine :: "real engine" where
  "ready_engine = snd (engine_initialize real_runtime (blank_engine []))"

lemma blank_calm: "calm (en_store (blank_engine []))"
  by (simp add: blank_engine_facts calm_def fresh_store_def)

lemma calm_initialize:
  assumes "store_ok (rt_unicode rt) (en_store en)" "calm (en_store en)"
    and "case en_embedder en of None \<Rightarrow> True | Some e \<Rightarrow> embedder_works (rt_numpy rt) e"
  shows "en_store (snd (engine_initialize rt en)) = en_store en"
proof -
  note D = store_docs_facts [OF assms(1)]
  from rebuild_documents [OF D(3), of rt] obtain ix ds where
    b: "efold (rebuild_document rt) (store_docs (en_store en)) (index_empty, []) = Inr (ix, ds)" by blast
  have "on_store (store_for_documents (rt_unicode rt) (rebuild_document rt) (index_empty, [])) en = (Inr (ix, ds), en)"
    by (simp add: on_store_def calm_for_documents [OF assms(2,1)] b)
  then show ?thesis using calm_generation [OF assms(2,1)]
    by (cases "index_validate ix"; cases "rebuild_vectors rt (en_embedder en) ds")
      (simp_all add: engine_initialize_def rebuild_locked_def sbind_def st_defs on_store_def set_state_def)
qed

lemma ready_engine_facts:
  "engine_inv real_runtime ready_engine" "en_state ready_engine = READY" "calm (en_store ready_engine)"
  "en_embedder ready_engine = None" "en_scorer ready_engine = default_bm25_params real_ops" "engine_corpus ready_engine = Map.empty"
  "engine_consistent real_runtime ready_engine"
proof -
  have b: "store_ok (rt_unicode real_runtime) (en_store (blank_engine []))" "calm (en_store (blank_engine []))"
    "case en_embedder (blank_engine []) of None \<Rightarrow> True | Some e \<Rightarrow> embedder_works (rt_numpy real_runtime) e"
    using blank_calm by (simp_all add: blank_engine_facts)
  from initialize_works [OF b] obtain report where rep: "fst (rebuild_locked real_runtime (blank_engine [])) = Inr report" by blast
  from initialize_cases [OF blank_engine_facts(2), of "[]"] obtain r en' where
    i0: "engine_initialize real_runtime (blank_engine []) = (r, en')" "engine_inv real_runtime en'"
      "store_content (en_store en') = store_content (en_store (blank_engine []))"
      "en_scorer en' = en_scorer (blank_engine [])" "en_embedder en' = en_embedder (blank_engine [])"
      "case r of Inr _ \<Rightarrow> en_state en' = READY | Inl _ \<Rightarrow> en_state en' = en_state (blank_engine [])" by blast
  have "en' = ready_engine" using i0(1) by (simp add: ready_engine_def)
  note i = i0 [unfolded this]
  have "\<exists>report. r = Inr report"
    using i(1) rep by (cases "rebuild_locked real_runtime (blank_engine [])") (auto simp: engine_initialize_def sbind_def st_defs set_state_def)
  then show "en_state ready_engine = READY" using i(6) by auto
  then show "engine_consistent real_runtime ready_engine" by (rule engine_invD(3) [OF i(2)])
  show "engine_inv real_runtime ready_engine" by (rule i(2))
  show "calm (en_store ready_engine)" using calm_initialize [OF b] b(2) by (simp add: ready_engine_def)
  show "en_embedder ready_engine = None" "en_scorer ready_engine = default_bm25_params real_ops"
    "engine_corpus ready_engine = Map.empty" using i(3-5) by (simp_all add: blank_engine_facts engine_corpus_def)
qed

theorem ready_agrees_with_storage_witness:
  "store_ok (rt_unicode real_runtime) (en_store ready_engine) \<and> en_state ready_engine = READY
   \<and> engine_consistent real_runtime ready_engine"
proof -
  have "ready_engine = engine_op_run real_runtime Initialize (blank_engine [])" by (simp add: ready_engine_def)
  then have "engine_reachable real_runtime (blank_engine []) ready_engine"
    using engine_reachable.intros(2) [OF engine_reachable.intros(1), of real_runtime Initialize "blank_engine []"] by simp
  from ready_agrees_with_storage [OF blank_engine_facts(1) _ _ this] show ?thesis
    by (simp add: ready_engine_facts real_runtime_def)
qed

text \<open>The statistics of a corpus of texts.\<close>

definition stats_describe :: "unicode \<Rightarrow> (pystr \<rightharpoonup> pystr) \<Rightarrow> pystr list \<Rightarrow> corpus_stats \<Rightarrow> bool" where
  "stats_describe ud C terms stats \<longleftrightarrow>
     cs_document_count stats = int (card (dom C))
     \<and> cs_total_document_length stats = (\<Sum>d\<in>dom C. int (length (analyze ud (the (C d)))))
     \<and> (\<forall>t. cs_document_frequency stats t =
          (if t \<in> set terms then int (card {d \<in> dom C. t \<in> set (analyze ud (the (C d)))}) else 0))"

lemma consistent_stats:
  assumes "engine_consistent rt en"
  shows "stats_describe (rt_unicode rt) (engine_corpus en) terms (index_corpus_stats (en_index en) terms)"
proof -
  let ?ud = "rt_unicode rt" and ?C = "engine_corpus en"
  have r: "index_repr (en_index en) (token_corpus ?ud ?C)" using assms by (simp add: engine_consistent_def derived_repr_def)
  have "{d. \<exists>toks. token_corpus ?ud ?C d = Some toks \<and> t \<in> set toks} = {d \<in> dom ?C. t \<in> set (analyze ?ud (the (?C d)))}" for t
    by (force simp: token_corpus_def)
  moreover have "(\<Sum>d\<in>dom ?C. int (length (the (token_corpus ?ud ?C d)))) = (\<Sum>d\<in>dom ?C. int (length (analyze ?ud (the (?C d)))))"
    by (intro sum.cong) (auto simp: token_corpus_def)
  ultimately show ?thesis
    by (simp add: stats_describe_def index_corpus_stats_simps index_repr_count [OF r] index_repr_total [OF r] index_repr_df [OF r] token_corpus_dom)
qed

lemma stats_describe_unique: "stats_describe ud C terms a \<Longrightarrow> stats_describe ud C terms b \<Longrightarrow> same_stats a b"
  by (simp add: stats_describe_def same_stats_def fun_eq_iff)

lemma engine_search_page:
  assumes "engine_inv rt en" "en_state en = READY" "bm25_arithmetic (rt_float rt) (en_scorer en)" "0 \<le> limit"
    and "stats_describe (rt_unicode rt) (engine_corpus en) (analyze (rt_unicode rt) query) stats"
  shows "engine_search rt en query limit None =
    Inr (ranked_page (engine_corpus en)
      (lexical_scores rt (en_scorer en) stats (analyze (rt_unicode rt) query) (engine_corpus en)) limit)"
proof -
  let ?terms = "analyze (rt_unicode rt) query"
  note c = engine_invD(3) [OF assms(1,2)]
  have "engine_search rt en query limit None = search_locked rt en ?terms limit None"
    using assms(2) by (simp add: engine_search_def require_operational_def)
  also have "\<dots> = Inr (ranked_page (engine_corpus en)
      (lexical_scores rt (en_scorer en) (index_corpus_stats (en_index en) ?terms) ?terms (engine_corpus en)) limit)"
    by (rule search_locked_page [OF assms(3) c assms(4)]) simp
  also have "lexical_scores rt (en_scorer en) (index_corpus_stats (en_index en) ?terms) ?terms (engine_corpus en)
      = lexical_scores rt (en_scorer en) stats ?terms (engine_corpus en)"
    by (rule same_stats_lexical [OF stats_describe_unique [OF consistent_stats [OF c] assms(5)]])
  finally show ?thesis .
qed

text \<open>C8. Lexical search is a function of the durable corpus: a \<open>READY\<close> copy returns the top of the BM25
  ranking of its corpus, scored with any statistics that describe that corpus, ties broken by
  identifier, each hit with its stored text, and \<open>total\<close> counts all matching documents; an analysed
  query without terms matches nothing.\<close>

theorem search_exact:
  assumes "engine_inv rt en" "en_state en = READY" "bm25_arithmetic (rt_float rt) (en_scorer en)" "0 \<le> limit"
    and "stats_describe (rt_unicode rt) (engine_corpus en) (analyze (rt_unicode rt) query) stats"
  shows "engine_search rt en query limit None =
    Inr (ranked_page (engine_corpus en)
      (lexical_scores rt (en_scorer en) stats (analyze (rt_unicode rt) query) (engine_corpus en)) limit)"
  by (rule engine_search_page [OF assms])

theorem search_exact_witness:
  "\<exists>stats. engine_search real_runtime ready_engine (ustr ''x'') 10 None =
     Inr (ranked_page Map.empty
       (lexical_scores real_runtime (default_bm25_params real_ops) stats (analyze (rt_unicode real_runtime) (ustr ''x'')) Map.empty) 10)"
proof -
  have ar: "bm25_arithmetic (rt_float real_runtime) (en_scorer ready_engine)"
    using exact.bm25_arithmetic_axioms by (simp add: ready_engine_facts real_runtime_def)
  from search_exact [OF ready_engine_facts(1,2) ar _ consistent_stats [OF ready_engine_facts(7)], of 10 "ustr ''x''"]
  show ?thesis by (auto simp: ready_engine_facts)
qed

text \<open>C13. Semantic search is exact: a \<open>READY\<close> copy with an embedder holds exactly one vector for every stored
  document, one that its embedder returned for that document's text, and it ranks every stored document by
  the inner product of its vector with the query vector, ties broken by identifier, each hit with its stored
  text, \<open>total\<close> counting every document.\<close>

theorem semantic_search_exact:
  assumes "engine_inv rt en" "en_state en = READY" "en_embedder en = Some e"
    and "vec_ok (rt_numpy rt) (si_dimension (em_identity e)) q" "1 \<le> limit"
  shows "engine_semantic_search rt en q limit =
      Inr (ranked_page (engine_corpus en) (similarity (rt_numpy rt) (vec_val (rt_numpy rt) q) (stored_vectors en)) limit)
    \<and> dom (stored_vectors en) = dom (engine_corpus en)
    \<and> (\<forall>d t x. engine_corpus en d = Some t \<longrightarrow> stored_vectors en d = Some x \<longrightarrow> embeds (rt_numpy rt) e t x)"
proof -
  note c = engine_invD(3) [OF assms(1,2)]
  show ?thesis
    using semantic_page [OF c assms(3-5)] engine_vectors(2,3) [OF c assms(3)] assms(2)
    by (simp add: engine_semantic_search_def require_operational_def)
qed

text \<open>A copy with an embedder, for the witness: every text is embedded as the vector \<open>[1]\<close>.\<close>

definition unit_embedder :: "real embedder" where
  "unit_embedder =
     \<lparr>em_identity = \<lparr>si_implementation = [], si_model_id = [], si_model_revision = [], si_dimension = 1, si_normalization = []\<rparr>,
      em_embed_documents = (\<lambda>texts. Inr \<lparr>nd_shape = [length texts, 1], nd_data = replicate (length texts) 1\<rparr>),
      em_embed_query = (\<lambda>_. Inr (nd_vec [1]))\<rparr>"

definition unit_engine :: "real engine" where
  "unit_engine = (projr (engine_init real_runtime (fresh_store []) None (Some unit_embedder)))\<lparr>en_state := READY\<rparr>"

lemma unit_embedder_rows:
  "em_embed_documents unit_embedder texts = Inr a \<Longrightarrow> nd_wf a \<and> nd_rows a = Inr (replicate (length texts) (nd_vec [1]))"
proof -
  assume "em_embed_documents unit_embedder texts = Inr a"
  then have a: "a = \<lparr>nd_shape = [length texts, 1], nd_data = replicate (length texts) 1\<rparr>" by (simp add: unit_embedder_def)
  have "take 1 (drop i (replicate n (1::real))) = [1]" if "i < n" for i n
    using that by (simp add: take_Suc hd_drop_conv_nth)
  then have "map (\<lambda>i. \<lparr>nd_shape = [1], nd_data = take 1 (drop i (replicate n (1::real)))\<rparr>) [0..<n] = replicate n (nd_vec [1])" for n
    by (intro nth_equalityI) (simp_all add: nd_vec_def)
  then show ?thesis by (simp add: a nd_wf_def nd_rows_def)
qed

lemma unit_embeds: "embeds (rt_numpy real_runtime) unit_embedder t x \<Longrightarrow> x = [1]"
proof -
  assume "embeds (rt_numpy real_runtime) unit_embedder t x"
  then obtain texts a rows i where "em_embed_documents unit_embedder texts = Inr a" "nd_rows a = Inr rows"
      "i < length texts" "x = vec_val (rt_numpy real_runtime) (rows ! i)" by (auto simp: embeds_def)
  with unit_embedder_rows [of texts a] have "x = vec_val (rt_numpy real_runtime) (nd_vec [1])" by auto
  then show "x = [1]" by (simp add: vec_val_def nd_vec_def real_runtime_def real_numpy_def)
qed

lemma unit_embedder_works: "embedder_works (rt_numpy real_runtime) unit_embedder"
proof -
  have "\<exists>a. em_embed_documents unit_embedder texts = Inr a" for texts by (simp add: unit_embedder_def)
  then have "\<exists>a rows. em_embed_documents unit_embedder texts = Inr a \<and> nd_rows a = Inr rows \<and> length rows = length texts
      \<and> list_all (\<lambda>v. vec_ok (rt_numpy real_runtime) (si_dimension (em_identity unit_embedder)) v
          \<and> \<not> vec_row_offends (rt_numpy real_runtime) (vec_val (rt_numpy real_runtime) v)) rows" for texts
    using unit_embedder_rows [of texts]
    by (fastforce simp: list_all_iff vec_ok_def vec_val_def nd_vec_def unit_embedder_def real_runtime_def real_numpy_def vec_row_offends_def)
  moreover have "embedder_wf unit_embedder" using unit_embedder_rows by (auto simp: embedder_wf_def)
  ultimately show ?thesis by (simp add: embedder_works_def, simp add: unit_embedder_def)
qed

lemma unit_engine_facts:
  "engine_inv real_runtime unit_engine" "en_state unit_engine = READY" "en_embedder unit_engine = Some unit_embedder"
  "engine_corpus unit_engine = Map.empty" "calm (en_store unit_engine)"
proof -
  let ?v = "vec_empty (rt_numpy real_runtime) 1"
  have d: "si_dimension (em_identity unit_embedder) = 1" by (simp add: unit_embedder_def)
  have v: "vec_init (rt_numpy real_runtime) 1 = Inr ?v" by (simp add: vec_init_def vec_empty_def)
  have f: "en_store unit_engine = fresh_store []" "en_index unit_engine = index_empty" "en_documents unit_engine = []"
      "en_vectors unit_engine = Some ?v" "en_generation unit_engine = 0"
    and g: "en_state unit_engine = READY" "en_embedder unit_engine = Some unit_embedder"
    by (simp_all add: unit_engine_def engine_init_def d v)
  show C: "engine_corpus unit_engine = Map.empty" by (simp add: engine_corpus_def f)
  show "calm (en_store unit_engine)" by (simp add: f calm_def fresh_store_def)
  show "en_state unit_engine = READY" "en_embedder unit_engine = Some unit_embedder" by (rule g)+
  have "index_repr index_empty (token_corpus (rt_unicode real_runtime) Map.empty)"
    using index_empty_repr by (simp add: token_corpus_def [abs_def])
  moreover have "vectors_repr (rt_numpy real_runtime) (Some unit_embedder) (Some ?v) Map.empty"
    using vectors_reprI [of unit_embedder ?v Map.empty Map.empty] vec_empty_repr [of 1 "rt_numpy real_runtime"] d by simp
  moreover have "embedder_wf unit_embedder" using unit_embedder_rows by (auto simp: embedder_wf_def)
  ultimately show "engine_inv real_runtime unit_engine"
    by (simp add: engine_inv_def engine_consistent_def derived_repr_def docs_repr_def C f g)
qed

text \<open>The same copy after one document was written.\<close>

definition unit_engine_with :: "document \<Rightarrow> real engine" where
  "unit_engine_with doc = snd (engine_index_document real_runtime doc unit_engine)"

lemma unit_engine_with_facts:
  assumes "valid_id ascii_unicode (document_id doc)"
  shows "engine_inv real_runtime (unit_engine_with doc)" "en_state (unit_engine_with doc) = READY"
    "en_embedder (unit_engine_with doc) = Some unit_embedder" "engine_corpus (unit_engine_with doc) = [document_id doc \<mapsto> doc_text doc]"
    "stored_vectors (unit_engine_with doc) = [document_id doc \<mapsto> [1]]" "calm (en_store (unit_engine_with doc))"
    "en_scorer (unit_engine_with doc) = en_scorer unit_engine"
proof -
  let ?en = "unit_engine_with doc"
  have v: "valid_id (rt_unicode real_runtime) (document_id doc)" using assms by (simp add: real_runtime_def)
  have w: "case en_embedder unit_engine of None \<Rightarrow> True | Some e \<Rightarrow> embedder_works (rt_numpy real_runtime) e"
    by (simp add: unit_engine_facts unit_embedder_works)
  note works = index_document_works [OF unit_engine_facts(1,2,5) w, of doc]
  from works(1) index_document_cases [OF unit_engine_facts(1) v] have
    f: "engine_inv real_runtime ?en" "en_state ?en = READY" "en_embedder ?en = Some unit_embedder" "en_scorer ?en = en_scorer unit_engine"
      "engine_corpus ?en = (engine_corpus unit_engine)(document_id doc \<mapsto> doc_text doc)"
    by (auto simp: unit_engine_with_def mutation_outcome_def unit_engine_facts)
  show "engine_inv real_runtime ?en" "en_state ?en = READY" "en_embedder ?en = Some unit_embedder" "en_scorer ?en = en_scorer unit_engine"
    by (rule f)+
  show C: "engine_corpus ?en = [document_id doc \<mapsto> doc_text doc]" using f(5) by (simp add: unit_engine_facts)
  show "calm (en_store ?en)" using works(2) by (simp add: unit_engine_with_def)
  note V = engine_vectors(2,3) [OF engine_invD(3) [OF f(1,2)] f(3)]
  show "stored_vectors ?en = [document_id doc \<mapsto> [1]]"
  proof
    fix d
    have "(stored_vectors ?en d \<noteq> None) = (engine_corpus ?en d \<noteq> None)" using V(1) by (metis domIff)
    moreover have "x = [1]" if "stored_vectors ?en (document_id doc) = Some x" for x
      using V(2) [of "document_id doc" "doc_text doc" x] that unit_embeds by (simp add: C)
    ultimately show "stored_vectors ?en d = [document_id doc \<mapsto> [1]] d"
      by (cases "d = document_id doc"; cases "stored_vectors ?en d") (auto simp: C)
  qed
qed

theorem semantic_search_exact_witness:
  "engine_semantic_search real_runtime (unit_engine_with \<lparr>document_id = ustr ''a'', doc_text = ustr ''x''\<rparr>) (nd_vec [2]) 3 =
     Inr \<lparr>srs_total = 1, srs_results = [\<lparr>sr_document_id = ustr ''a'', sr_score = 2, sr_text = ustr ''x''\<rparr>]\<rparr>"
proof -
  let ?doc = "\<lparr>document_id = ustr ''a'', doc_text = ustr ''x''\<rparr>" and ?np = "rt_numpy real_runtime"
  have a: "valid_id ascii_unicode (document_id ?doc)" using valid_a by simp
  note f = unit_engine_with_facts [OF a]
  have q: "vec_ok ?np (si_dimension (em_identity unit_embedder)) (nd_vec [2])" "vec_val ?np (nd_vec [2]) = [2]"
    by (simp_all add: vec_ok_def vec_val_def nd_vec_def unit_embedder_def real_runtime_def real_numpy_def)
  have "similarity ?np [2] [ustr ''a'' \<mapsto> [1]] = [ustr ''a'' \<mapsto> (2::real)]"
    by (auto simp: similarity_def real_runtime_def real_numpy_def)
  moreover have "ranking [ustr ''a'' \<mapsto> (2::real)] = [(ustr ''a'', 2)]"
    using sort_by_rank [of "[(ustr ''a'', 2::real)]"] by simp
  ultimately have "ranked_page [ustr ''a'' \<mapsto> ustr ''x''] (similarity ?np [2] [ustr ''a'' \<mapsto> [1]]) 3
      = \<lparr>srs_total = 1, srs_results = [\<lparr>sr_document_id = ustr ''a'', sr_score = 2, sr_text = ustr ''x''\<rparr>]\<rparr>"
    by (simp add: ranked_page_def hits_of_def)
  then show ?thesis
    using semantic_search_exact [OF f(1-3) q(1), of 3] by (simp add: f(4,5) q(2))
qed

lemma resynchronize_works:
  assumes inv: "engine_inv rt en" and valid: "list_all (\<lambda>doc. valid_id (rt_unicode rt) (document_id doc)) docs"
    and dist: "distinct (map document_id docs)" and calm: "calm (en_store en)"
    and works: "case en_embedder en of None \<Rightarrow> True | Some e \<Rightarrow> embedder_works (rt_numpy rt) e"
  shows "\<exists>report. fst (engine_resynchronize rt docs g en) = Inr report"
proof -
  let ?en = "en\<lparr>en_state := RECOVERING, en_detail := ustr ''resynchronizing to generation '' @ py_str_int g\<rparr>"
  obtain con where con: "store_replace_all docs g (en_store en) = (Inr (), con)" "calm con"
    using calm_replace [OF calm dist, of g] by (cases "store_replace_all docs g (en_store en)") auto
  have ok: "store_ok (rt_unicode rt) con" "store_content con = (docs_corpus docs, g)"
    using store_replace_cases [OF engine_invD(1) [OF inv] valid, of g] con(1)
    by (cases "store_content (en_store en)"; auto)+
  let ?en1 = "?en\<lparr>en_store := con\<rparr>"
  from initialize_works [of rt ?en1] ok(1) con(2) works obtain report where rep: "fst (rebuild_locked rt ?en1) = Inr report" by auto
  have "store_ok (rt_unicode rt) (en_store ?en1)" "case en_embedder ?en1 of None \<Rightarrow> True | Some e \<Rightarrow> embedder_wf e"
    using ok(1) engine_invD(2) [OF inv] by simp_all
  from rebuild_locked_cases [OF this] rep obtain en3 where
    b: "rebuild_locked rt ?en1 = (Inr report, en3)" "rebuild_frame rt ?en1 en3" "engine_consistent rt en3" by auto
  have "en_generation en3 = g" using b(2,3) ok(2) by (simp add: rebuild_frame_def engine_consistent_def)
  then show ?thesis using con(1) b(1)
    by (auto simp: engine_resynchronize_def set_state_def sbind_def st_defs on_store_def)
qed

text \<open>C14. A snapshot carries the whole copy: what a \<open>READY\<close> copy exports is its corpus, each document once,
  with its generation; a copy that resynchronises from it, if that succeeds, is \<open>READY\<close> with exactly
  that corpus and generation whatever it held before, and it does succeed when its storage answers and
  its embedder works.\<close>

theorem snapshot_roundtrip:
  assumes "engine_inv rt en" "engine_export_snapshot en = Inr (docs, g)" "engine_inv rt' en2" "rt_unicode rt' = rt_unicode rt"
  shows "docs_corpus docs = engine_corpus en \<and> g = en_generation en \<and> distinct (map document_id docs)
    \<and> (case engine_resynchronize rt' docs g en2 of
         (Inr _, en2') \<Rightarrow> en_state en2' = READY \<and> engine_consistent rt' en2'
            \<and> engine_corpus en2' = engine_corpus en \<and> en_generation en2' = en_generation en
       | (Inl _, en2') \<Rightarrow> en_state en2' = RECOVERING)
    \<and> (calm (en_store en2) \<and> (case en_embedder en2 of None \<Rightarrow> True | Some e \<Rightarrow> embedder_works (rt_numpy rt') e)
       \<longrightarrow> (\<exists>report. fst (engine_resynchronize rt' docs g en2) = Inr report))"
proof -
  note e = export_facts [OF assms(1,2)]
  note ready = e(1) and corp = e(2,3)
  note c = engine_invD(3) [OF assms(1) ready, unfolded engine_consistent_def derived_repr_def]
  have snap: "g = en_generation en" by (rule e(5))
  have valid: "list_all (\<lambda>doc. valid_id (rt_unicode rt') (document_id doc)) docs" using e(4) assms(4) by simp
  from resynchronize_cases [OF assms(3) valid, of g] obtain r en2' where
    r: "engine_resynchronize rt' docs g en2 = (r, en2')" "engine_inv rt' en2'"
      "case r of Inr _ \<Rightarrow> en_state en2' = READY \<and> engine_corpus en2' = docs_corpus docs \<and> en_generation en2' = g
       | Inl _ \<Rightarrow> en_state en2' = RECOVERING \<and> en_generation en2' = en_generation en2
           \<and> store_content (en_store en2') \<in> {store_content (en_store en2), (docs_corpus docs, g)}" by blast
  have "\<exists>report. r = Inr report" if "calm (en_store en2)" "case en_embedder en2 of None \<Rightarrow> True | Some e \<Rightarrow> embedder_works (rt_numpy rt') e"
    using resynchronize_works [OF assms(3) valid corp(2) that, of g] r(1) by simp
  moreover have "engine_consistent rt' en2'" if "en_state en2' = READY" by (rule engine_invD(3) [OF r(2) that])
  ultimately show ?thesis using r corp snap by (auto split: sum.splits)
qed

theorem snapshot_roundtrip_witness:
  "\<exists>docs g. engine_export_snapshot ready_engine = Inr (docs, g)
     \<and> (\<exists>report. fst (engine_resynchronize real_runtime docs g (blank_engine [])) = Inr report)"
proof -
  obtain docs g where s: "engine_export_snapshot ready_engine = Inr (docs, g)"
    using ready_engine_facts(2) by (simp add: engine_export_snapshot_def require_operational_def)
  from snapshot_roundtrip [OF ready_engine_facts(1) s blank_engine_facts(2) refl, of "[]"] blank_calm s show ?thesis
    by (auto simp: blank_engine_facts)
qed

section \<open>Out of service\<close>

text \<open>The operations by which a copy comes back into service; \<open>mark_ready\<close> is the third.\<close>

fun restores_service :: "engine_op \<Rightarrow> bool" where
  "restores_service Initialize = True"
| "restores_service (Resynchronize docs g) = True"
| "restores_service _ = False"

text \<open>A copy that is not \<open>READY\<close>, and what becomes of it under any calls to its other methods.\<close>

inductive out_of_service :: "'f::linorder runtime \<Rightarrow> 'f engine \<Rightarrow> 'f engine \<Rightarrow> bool" for rt :: "'f runtime" and en0 :: "'f engine" where
  left: "en_state en0 \<noteq> READY \<Longrightarrow> out_of_service rt en0 en0"
| called: "out_of_service rt en0 en \<Longrightarrow> \<not> restores_service op \<Longrightarrow> out_of_service rt en0 (engine_op_run rt op en)"

lemma close_content: "store_content (snd (store_close con)) = store_content con"
  by (auto simp: store_close_def wrap_sqlite_def store_content_def)

text \<open>What a copy that is not \<open>READY\<close> does with a mutation.\<close>

lemma unready_mutations:
  assumes "en_state en \<noteq> READY"
  shows "engine_index_document rt doc en
      = (Inl (case embed_document (en_embedder en) (doc_text doc) of Inl e \<Rightarrow> e | Inr _ \<Rightarrow> EngineNotReadyError), en)"
    "engine_delete_document d en = (Inl EngineNotReadyError, en)"
    "engine_apply_replicated_put rt doc g en = classify_generation g en"
    "engine_apply_replicated_delete d g en = classify_generation g en"
proof -
  show "engine_index_document rt doc en
      = (Inl (case embed_document (en_embedder en) (doc_text doc) of Inl e \<Rightarrow> e | Inr _ \<Rightarrow> EngineNotReadyError), en)"
    "engine_delete_document d en = (Inl EngineNotReadyError, en)"
    using assms by (simp_all add: engine_delete_document_def engine_index_document_def require_operational_def sbind_def split: sum.splits)
  show "engine_apply_replicated_put rt doc g en = classify_generation g en"
    "engine_apply_replicated_delete d g en = classify_generation g en"
    using assms by (simp_all add: engine_apply_replicated_put_def engine_apply_replicated_delete_def classify_generation_def
        require_operational_def sbind_def slift_def)
qed

definition same_copy :: "'f engine \<Rightarrow> 'f engine \<Rightarrow> bool" where
  "same_copy en en' \<longleftrightarrow> engine_corpus en' = engine_corpus en \<and> en_generation en' = en_generation en
     \<and> en_documents en' = en_documents en \<and> en_index en' = en_index en \<and> en_vectors en' = en_vectors en
     \<and> en_embedder en' = en_embedder en"

lemma unready_step:
  assumes "en_state en \<noteq> READY" "\<not> restores_service op"
  shows "en_state (engine_op_run rt op en) \<noteq> READY \<and> same_copy en (engine_op_run rt op en)"
proof -
  have replicated: "en_state (snd (classify_generation g en)) \<noteq> READY \<and> same_copy en (snd (classify_generation g en))" for g
    using assms(1) by (simp add: classify_generation_def require_operational_def sbind_def same_copy_def engine_corpus_def)
  have close: "store_close (en_store en) = (r, con) \<Longrightarrow> store_content con = store_content (en_store en)" for r con
    by (metis close_content snd_conv)
  show ?thesis
    using assms replicated unready_mutations [OF assms(1)]
    by (cases op) (auto simp: same_copy_def engine_close_def engine_mark_recovering_def engine_mark_out_of_sync_def set_state_def
        sbind_def st_defs on_store_def engine_corpus_def close split: prod.splits)
qed

lemma out_of_service_copy:
  "out_of_service rt en0 en \<Longrightarrow> en_state en \<noteq> READY \<and> same_copy en0 en"
proof (induction rule: out_of_service.induct)
  case (called en op)
  then show ?case using unready_step [of en op rt] by (auto simp: same_copy_def)
qed (simp add: same_copy_def)

text \<open>C15. A copy that has left \<open>READY\<close> serves nothing until it is initialised, resynchronised or marked ready:
  whatever else is called on it in whatever order, it stays out of service with the same durable corpus, the
  same generation and the same derived state. Then every query with terms and every local mutation raises:
  lexical and semantic search, statistics and snapshots \<open>EngineNotReadyError\<close>, a hybrid query with terms and a write the
  same unless they failed before in their embedding; a hybrid query without terms is answered with no hits
  before the state is looked at. A replicated mutation is
  acknowledged only as a duplicate; a gap makes the copy \<open>OUT_OF_SYNC\<close>, the next generation is refused.\<close>

theorem refuses_unless_ready:
  assumes "out_of_service rt en0 en"
  shows "en_state en \<noteq> READY \<and> same_copy en0 en
    \<and> engine_search rt en query limit stats = Inl EngineNotReadyError
    \<and> engine_semantic_search rt en q limit = Inl EngineNotReadyError
    \<and> engine_hybrid_search rt en query limit config =
        (if analyze (rt_unicode rt) query = [] then Inr \<lparr>hr_total = 0, hr_results = []\<rparr>
         else Inl (case engine_embed_query en query of Inl e \<Rightarrow> e | Inr _ \<Rightarrow> EngineNotReadyError))
    \<and> engine_corpus_stats en terms = Inl EngineNotReadyError
    \<and> engine_stats rt en = Inl EngineNotReadyError
    \<and> engine_export_snapshot en = Inl EngineNotReadyError
    \<and> engine_delete_document d en = (Inl EngineNotReadyError, en)
    \<and> engine_index_document rt doc en = (Inl (case embed_document (en_embedder en) (doc_text doc) of Inl e \<Rightarrow> e | Inr _ \<Rightarrow> EngineNotReadyError), en)
    \<and> (case (engine_apply_replicated_put rt doc g en, engine_apply_replicated_delete d g en) of
         ((r, en1), (r', en2)) \<Rightarrow> r' = r \<and> en2 = en1
           \<and> r = (if g \<le> en_generation en then Inr DUPLICATE else if en_generation en + 1 < g then Inr GAP else Inl EngineNotReadyError)
           \<and> en_state en1 = (if en_generation en + 1 < g then OUT_OF_SYNC else en_state en) \<and> same_copy en en1)"
proof -
  note o = out_of_service_copy [OF assms]
  then have n: "en_state en \<noteq> READY" by blast
  have replicated: "case (engine_apply_replicated_put rt doc g en, engine_apply_replicated_delete d g en) of
         ((r, en1), (r', en2)) \<Rightarrow> r' = r \<and> en2 = en1
           \<and> r = (if g \<le> en_generation en then Inr DUPLICATE else if en_generation en + 1 < g then Inr GAP else Inl EngineNotReadyError)
           \<and> en_state en1 = (if en_generation en + 1 < g then OUT_OF_SYNC else en_state en) \<and> same_copy en en1"
    unfolding unready_mutations(3,4) [OF n]
    using n by (simp add: classify_generation_def require_operational_def sbind_def same_copy_def engine_corpus_def)
  have hybrid: "engine_hybrid_search rt en query limit config =
        (if analyze (rt_unicode rt) query = [] then Inr \<lparr>hr_total = 0, hr_results = []\<rparr>
         else Inl (case engine_embed_query en query of Inl e \<Rightarrow> e | Inr _ \<Rightarrow> EngineNotReadyError))"
    using n by (auto simp: engine_hybrid_search_def engine_embed_query_def require_operational_def Let_def split: option.split sum.split)
  show ?thesis using o replicated hybrid unready_mutations(1,2) [OF n] n
    by (simp add: engine_search_def engine_semantic_search_def engine_corpus_stats_def engine_stats_def engine_export_snapshot_def
        require_operational_def)
qed

theorem refuses_unless_ready_witness:
  "out_of_service real_runtime (snd (engine_mark_out_of_sync [] ready_engine))
     (snd (engine_close (snd (engine_mark_out_of_sync [] ready_engine))))
   \<and> engine_search real_runtime (snd (engine_close (snd (engine_mark_out_of_sync [] ready_engine)))) (ustr ''x'') 10 None = Inl EngineNotReadyError
   \<and> engine_corpus (snd (engine_close (snd (engine_mark_out_of_sync [] ready_engine)))) = Map.empty"
proof -
  let ?en = "snd (engine_mark_out_of_sync [] ready_engine)"
  have "en_state ?en \<noteq> READY" by (simp add: engine_mark_out_of_sync_def set_state_def st_defs)
  then have o: "out_of_service real_runtime ?en (snd (engine_close ?en))"
    using out_of_service.called [OF out_of_service.left, of ?en Close real_runtime] by simp
  have "engine_corpus ?en = Map.empty" using ready_engine_facts(6) by (simp add: engine_mark_out_of_sync_def set_state_def st_defs engine_corpus_def)
  with refuses_unless_ready [OF o, of "ustr ''x''" 10 None] o show ?thesis by (simp add: same_copy_def)
qed

end
