(* ===== verification/Http.thy ===== *)
theory Http
  imports Engine_Queries
begin

text \<open>
  The HTTP surface of a single node: the error handlers of \<open>app/main.py\<close>, the public endpoints of
  \<open>app/api/\<close> (documents, search, semantic, hybrid, index, health) and what a request of one node to
  another gives back. JSON bodies are the values they carry; FastAPI's request validation answers 422.
\<close>

section \<open>Responses\<close>

datatype 'b response = Response (rs_status: nat) (rs_body: "'b option")

text \<open>
  The registered handlers, found by the class of the exception; an \<open>HTTPException\<close> carries its own code,
  and an exception without a handler is answered 500.
\<close>

fun error_status :: "exn \<Rightarrow> nat" where
  "error_status DocumentNotFoundError = 404"
| "error_status InvalidDocumentError = 400"
| "error_status EngineNotReadyError = 503"
| "error_status (HTTPException n) = n"
| "error_status e = (if is_StorageError e \<or> is_ClusterError e \<or> is_SemanticError e then 503 else 500)"

text \<open>An endpoint: its success status depends on the body, and an exception becomes an error response.\<close>

definition serve :: "('b \<Rightarrow> nat) \<Rightarrow> ('s, 'b) st \<Rightarrow> 's \<Rightarrow> 'b response \<times> 's" where
  "serve ok m s =
     (case m s of (Inl e, s') \<Rightarrow> (Response (error_status e) None, s')
      | (Inr b, s') \<Rightarrow> (Response (ok b) (Some b), s'))"

text \<open>\<open>limit: Annotated[int, Query(ge=1, le=MAX_LIMIT)]\<close> and the like.\<close>

definition max_limit :: int where
  "max_limit = 100"

definition check_limit :: "int \<Rightarrow> unit res" where
  "check_limit limit = (if 1 \<le> limit \<and> limit \<le> max_limit then Inr () else Inl (HTTPException 422))"

section \<open>Public endpoints of a single node\<close>

record index_document_response =
  idr_document_id :: pystr
  idr_created :: bool

definition api_index_document :: "'f runtime \<Rightarrow> pystr \<Rightarrow> pystr \<Rightarrow> 'f engine \<Rightarrow> index_document_response response \<times> 'f engine" where
  "api_index_document rt d t =
     serve (\<lambda>r. if idr_created r then 201 else 200)
       (sbind (slift (mk_document (rt_unicode rt) d t))
         (\<lambda>doc. sbind (engine_index_document rt doc)
         (\<lambda>created. slift (Inr \<lparr>idr_document_id = d, idr_created = created\<rparr>))))"

definition api_delete_document :: "pystr \<Rightarrow> 'f engine \<Rightarrow> unit response \<times> 'f engine" where
  "api_delete_document d = serve (\<lambda>_. 204) (engine_delete_document d)"

record 'f search_response =
  sp_query :: pystr
  sp_total :: int
  sp_results :: "'f search_result list"

definition search_response_of :: "pystr \<Rightarrow> 'f search_results \<Rightarrow> 'f search_response" where
  "search_response_of q r = \<lparr>sp_query = q, sp_total = srs_total r, sp_results = srs_results r\<rparr>"

definition api_search :: "'f::linorder runtime \<Rightarrow> pystr \<Rightarrow> int \<Rightarrow> 'f engine \<Rightarrow> 'f search_response response \<times> 'f engine" where
  "api_search rt q limit =
     serve (\<lambda>_. 200) (sbind (slift (check_limit limit))
       (\<lambda>_ en. (ebind (engine_search rt en q limit None) (\<lambda>r. Inr (search_response_of q r)), en)))"

definition api_semantic_search :: "'f::linorder runtime \<Rightarrow> pystr \<Rightarrow> int \<Rightarrow> 'f engine \<Rightarrow> 'f search_response response \<times> 'f engine" where
  "api_semantic_search rt q limit =
     serve (\<lambda>_. 200) (sbind (slift (check_limit limit))
       (\<lambda>_ en. (ebind (engine_embed_query en q) (\<lambda>v.
            ebind (engine_semantic_search rt en v limit) (\<lambda>r. Inr (search_response_of q r))), en)))"

record 'f hybrid_response =
  hp_query :: pystr
  hp_total :: int
  hp_results :: "'f hybrid_hit list"

definition to_response :: "pystr \<Rightarrow> 'f hybrid_results \<Rightarrow> bool \<Rightarrow> 'f hybrid_response" where
  "to_response q outcome explain =
     \<lparr>hp_query = q, hp_total = hr_total outcome,
      hp_results = map (\<lambda>hit. if explain then hit else hit\<lparr>hh_lexical_score := None, hh_semantic_score := None\<rparr>)
        (hr_results outcome)\<rparr>"

definition api_hybrid_search :: "'f::linorder runtime \<Rightarrow> pystr \<Rightarrow> int \<Rightarrow> bool \<Rightarrow> 'f engine \<Rightarrow> 'f hybrid_response response \<times> 'f engine" where
  "api_hybrid_search rt q limit explain =
     serve (\<lambda>_. 200) (sbind (slift (check_limit limit))
       (\<lambda>_ en. (ebind (engine_hybrid_search rt en q limit None) (\<lambda>r. Inr (to_response q r explain)), en)))"

record 'f index_stats_response =
  ip_document_count :: int
  ip_unique_term_count :: int
  ip_average_document_length :: 'f

definition api_index_stats :: "'f runtime \<Rightarrow> 'f engine \<Rightarrow> 'f index_stats_response response \<times> 'f engine" where
  "api_index_stats rt =
     serve (\<lambda>_. 200) (\<lambda>en. (ebind (engine_stats rt en) (\<lambda>s. Inr \<lparr>ip_document_count = is_document_count s,
       ip_unique_term_count = is_unique_term_count s,
       ip_average_document_length = is_average_document_length s\<rparr>), en))"

text \<open>Readiness: the status is set on the response before the body is returned.\<close>

record readiness_response =
  rd_ready :: bool
  rd_detail :: pystr

definition api_ready :: "'f engine \<Rightarrow> readiness_response response \<times> 'f engine" where
  "api_ready =
     serve (\<lambda>r. if rd_ready r then 200 else 503)
       (\<lambda>en. let s = engine_get_status en in (Inr \<lparr>rd_ready = es_ready s, rd_detail = es_detail s\<rparr>, en))"

definition api_health :: "'f engine \<Rightarrow> unit response \<times> 'f engine" where
  "api_health = serve (\<lambda>_. 200) (slift (Inr ()))"

section \<open>Requests between nodes\<close>

text \<open>
  What the network does to one request: it is delivered and answered, or the caller gives up on a timeout
  or gets another transport error, whether or not the node had processed the request.
\<close>

datatype delivery = Delivered | Timed_out bool | Unreachable bool

text \<open>
  \<open>_request\<close>, of \<open>HttpShardClient\<close> and of \<open>HttpNodeLink\<close>. The handler runs on the state \<open>'s\<close> of the node
  that is called.
\<close>

definition http_request :: "bool \<Rightarrow> delivery \<Rightarrow> ('s \<Rightarrow> 'b response \<times> 's) \<Rightarrow> ('s, 'b response) st" where
  "http_request expected_absent dl handler s =
     (case dl of
        Timed_out reached \<Rightarrow> (Inl ShardTimeoutError, if reached then snd (handler s) else s)
      | Unreachable reached \<Rightarrow> (Inl ShardUnavailableError, if reached then snd (handler s) else s)
      | Delivered \<Rightarrow>
          (case handler s of (response, s') \<Rightarrow>
             (if expected_absent \<and> rs_status response = 404 then Inr response
              else if 400 \<le> rs_status response then Inl ShardUnavailableError
              else Inr response, s')))"

definition link_request :: "delivery \<Rightarrow> ('s \<Rightarrow> 'b response \<times> 's) \<Rightarrow> ('s, 'b response) st" where
  "link_request dl handler s =
     (case dl of
        Timed_out reached \<Rightarrow> (Inl ShardTimeoutError, if reached then snd (handler s) else s)
      | Unreachable reached \<Rightarrow> (Inl ShardUnavailableError, if reached then snd (handler s) else s)
      | Delivered \<Rightarrow>
          (case handler s of (response, s') \<Rightarrow>
             (if 400 \<le> rs_status response then Inl ShardUnavailableError else Inr response, s')))"

text \<open>\<open>response.json()\<close>; an error response has no field that the callers read.\<close>

definition json_body :: "'b response \<Rightarrow> 'b res" where
  "json_body response = (case rs_body response of Some b \<Rightarrow> Inr b | None \<Rightarrow> Inl KeyError)"

section \<open>Facts about requests\<close>

lemma error_status_range: "(\<forall>n. e = HTTPException n \<longrightarrow> 400 \<le> n) \<Longrightarrow> 400 \<le> error_status e"
  by (cases e) auto

lemma serve_Inr [simp]: "m s = (Inr b, s') \<Longrightarrow> serve ok m s = (Response (ok b) (Some b), s')"
  by (simp add: serve_def)

lemma serve_Inl [simp]: "m s = (Inl e, s') \<Longrightarrow> serve ok m s = (Response (error_status e) None, s')"
  by (simp add: serve_def)

text \<open>A request either fails with a cluster error, or its answer is the handler's.\<close>

lemma http_request_cases:
  obtains (failed) e where "fst (http_request absent dl handler s) = Inl e" "is_ClusterError e"
  | (answered) "dl = Delivered" "http_request absent dl handler s = (Inr (fst (handler s)), snd (handler s))"
      "rs_status (fst (handler s)) < 400 \<or> absent \<and> rs_status (fst (handler s)) = 404"
  by (cases dl; cases "handler s"; cases "absent \<and> rs_status (fst (handler s)) = 404"; cases "400 \<le> rs_status (fst (handler s))")
    (auto simp: http_request_def)

lemma link_request_cases:
  obtains (failed) e where "fst (link_request dl handler s) = Inl e" "is_ClusterError e"
  | (answered) "dl = Delivered" "link_request dl handler s = (Inr (fst (handler s)), snd (handler s))"
      "rs_status (fst (handler s)) < 400"
  by (cases dl; cases "handler s"; cases "400 \<le> rs_status (fst (handler s))") (auto simp: link_request_def)

text \<open>Whatever happens, the node either ran the handler once or did not run it.\<close>

lemma http_request_effect: "snd (http_request absent dl handler s) \<in> {s, snd (handler s)}"
  by (cases dl) (auto simp: http_request_def split: prod.splits)

lemma link_request_effect: "snd (link_request dl handler s) \<in> {s, snd (handler s)}"
  by (cases dl) (auto simp: link_request_def split: prod.splits)

end
