(* ===== verification/Routing.thy ===== *)
theory Routing
  imports Prelude "HOL-Library.Word"
begin

text \<open>
  \<open>app/cluster/routing.py\<close>: a document's shard is the BLAKE2b digest (8 bytes) of its identifier in
  UTF-8, read as a big-endian number, modulo the shard count. What the source uses of the standard
  library is written out: the UTF-8 encoding, and unkeyed BLAKE2b (RFC 7693) on 64-bit words.
\<close>

unbundle bit_operations_syntax

section \<open>UTF-8\<close>

type_synonym octet = int

text \<open>A surrogate raises \<open>UnicodeEncodeError\<close>, which is a \<open>ValueError\<close>.\<close>

definition is_scalar :: "codepoint \<Rightarrow> bool" where
  "is_scalar c \<longleftrightarrow> c < 0xD800 \<or> 0xDFFF < c \<and> c < 0x110000"

definition utf8_char :: "codepoint \<Rightarrow> octet list" where
  "utf8_char cp =
     (let c = int cp
      in if c < 0x80 then [c]
         else if c < 0x800 then [0xC0 + c div 0x40, 0x80 + c mod 0x40]
         else if c < 0x10000 then [0xE0 + c div 0x1000, 0x80 + c div 0x40 mod 0x40, 0x80 + c mod 0x40]
         else [0xF0 + c div 0x40000, 0x80 + c div 0x1000 mod 0x40, 0x80 + c div 0x40 mod 0x40, 0x80 + c mod 0x40])"

definition utf8_encode :: "pystr \<Rightarrow> octet list res" where
  "utf8_encode s = (if list_all is_scalar s then Inr (concat (map utf8_char s)) else Inl ValueError)"

section \<open>BLAKE2b\<close>

type_synonym w64 = "64 word"

definition blake2b_iv :: "w64 list" where
  "blake2b_iv =
     [0x6a09e667f3bcc908, 0xbb67ae8584caa73b, 0x3c6ef372fe94f82b, 0xa54ff53a5f1d36f1,
      0x510e527fade682d1, 0x9b05688c2b3e6c1f, 0x1f83d9abfb41bd6b, 0x5be0cd19137e2179]"

definition blake2b_sigma :: "nat list list" where
  "blake2b_sigma =
     [[0, 1, 2, 3, 4, 5, 6, 7, 8, 9, 10, 11, 12, 13, 14, 15],
      [14, 10, 4, 8, 9, 15, 13, 6, 1, 12, 0, 2, 11, 7, 5, 3],
      [11, 8, 12, 0, 5, 2, 15, 13, 10, 14, 3, 6, 7, 1, 9, 4],
      [7, 9, 3, 1, 13, 12, 11, 14, 2, 6, 5, 10, 4, 0, 15, 8],
      [9, 0, 5, 7, 2, 4, 10, 15, 14, 1, 11, 12, 6, 8, 3, 13],
      [2, 12, 6, 10, 0, 11, 8, 3, 4, 13, 7, 5, 15, 14, 1, 9],
      [12, 5, 1, 15, 14, 13, 4, 10, 0, 7, 6, 3, 9, 2, 8, 11],
      [13, 11, 7, 14, 12, 1, 3, 9, 5, 0, 15, 4, 8, 6, 2, 10],
      [6, 15, 14, 9, 11, 3, 0, 8, 12, 2, 13, 7, 1, 4, 10, 5],
      [10, 2, 8, 4, 7, 6, 1, 5, 15, 11, 9, 14, 3, 12, 13, 0],
      [0, 1, 2, 3, 4, 5, 6, 7, 8, 9, 10, 11, 12, 13, 14, 15],
      [14, 10, 4, 8, 9, 15, 13, 6, 1, 12, 0, 2, 11, 7, 5, 3]]"

text \<open>The mixing function on the words at four positions of the working vector.\<close>

definition blake2b_mix :: "nat \<times> nat \<times> nat \<times> nat \<Rightarrow> w64 \<Rightarrow> w64 \<Rightarrow> w64 list \<Rightarrow> w64 list" where
  "blake2b_mix p x y v =
     (case p of (ia, ib, ic, ie) \<Rightarrow>
        let a = v ! ia; b = v ! ib; c = v ! ic; d = v ! ie;
            a = a + b + x; d = word_rotr 32 (d XOR a);
            c = c + d; b = word_rotr 24 (b XOR c);
            a = a + b + y; d = word_rotr 16 (d XOR a);
            c = c + d; b = word_rotr 63 (b XOR c)
        in v[ia := a, ib := b, ic := c, ie := d])"

definition blake2b_columns :: "(nat \<times> nat \<times> nat \<times> nat) list" where
  "blake2b_columns = [(0, 4, 8, 12), (1, 5, 9, 13), (2, 6, 10, 14), (3, 7, 11, 15),
     (0, 5, 10, 15), (1, 6, 11, 12), (2, 7, 8, 13), (3, 4, 9, 14)]"

fun blake2b_mixes :: "w64 list \<Rightarrow> (nat \<times> nat \<times> nat \<times> nat) list \<Rightarrow> nat list \<Rightarrow> w64 list \<Rightarrow> w64 list" where
  "blake2b_mixes m (p # ps) (i # j # s) v = blake2b_mixes m ps s (blake2b_mix p (m ! i) (m ! j) v)"
| "blake2b_mixes m _ _ v = v"

text \<open>Compression of one 128-byte block: \<open>t\<close> counts the bytes up to its end, \<open>final\<close> marks the last one.\<close>

definition blake2b_compress :: "w64 list \<Rightarrow> w64 list \<Rightarrow> int \<Rightarrow> bool \<Rightarrow> w64 list" where
  "blake2b_compress h m t final =
     (let v = h @ blake2b_iv;
          v = v[12 := v ! 12 XOR of_int t, 13 := v ! 13 XOR of_int (t div 2 ^ 64)];
          v = (if final then v[14 := NOT (v ! 14)] else v);
          v = fold (blake2b_mixes m blake2b_columns) blake2b_sigma v
      in map (\<lambda>(x, a, b). x XOR a XOR b) (zip h (zip (take 8 v) (drop 8 v))))"

text \<open>Little-endian numbers, and the sixteen words of a block padded with zeros.\<close>

fun le_int :: "octet list \<Rightarrow> int" where
  "le_int [] = 0"
| "le_int (b # bs) = b + 256 * le_int bs"

definition block_words :: "octet list \<Rightarrow> w64 list" where
  "block_words bs =
     (let padded = take 128 (bs @ replicate 128 0)
      in map (\<lambda>i. of_int (le_int (take 8 (drop (8 * i) padded)))) [0..<16])"

function blake2b_blocks :: "w64 list \<Rightarrow> int \<Rightarrow> octet list \<Rightarrow> w64 list" where
  "blake2b_blocks h t bs =
     (if length bs \<le> 128 then blake2b_compress h (block_words bs) (t + int (length bs)) True
      else blake2b_blocks (blake2b_compress h (block_words (take 128 bs)) (t + 128) False) (t + 128) (drop 128 bs))"
  by pat_completeness auto
termination
  by (relation "measure (\<lambda>(h, t, bs). length bs)") auto

declare blake2b_blocks.simps [simp del]

text \<open>The first \<open>n\<close> bytes of a word in little-endian order, and \<open>int.from_bytes(\<cdot>, "big")\<close>.\<close>

fun le_octets :: "nat \<Rightarrow> int \<Rightarrow> octet list" where
  "le_octets 0 n = []"
| "le_octets (Suc k) n = n mod 256 # le_octets k (n div 256)"

definition be_int :: "octet list \<Rightarrow> int" where
  "be_int bs = le_int (rev bs)"

text \<open>\<open>hashlib.blake2b(data, digest_size=8).digest()\<close>\<close>

definition blake2b_8 :: "octet list \<Rightarrow> octet list" where
  "blake2b_8 data =
     (let h = blake2b_iv[0 := blake2b_iv ! 0 XOR 0x01010008]
      in le_octets 8 (uint (blake2b_blocks h 0 data ! 0)))"

section \<open>The router\<close>

record shard_router =
  ro_shard_count :: int

definition mk_router :: "int \<Rightarrow> shard_router res" where
  "mk_router n = (if n < 1 then Inl ValueError else Inr \<lparr>ro_shard_count = n\<rparr>)"

definition shard_for :: "shard_router \<Rightarrow> pystr \<Rightarrow> int res" where
  "shard_for r d =
     ebind (utf8_encode d) (\<lambda>data. Inr (be_int (blake2b_8 data) mod ro_shard_count r))"

section \<open>Digests and encodings\<close>

lemma le_octets_range: "list_all (\<lambda>b. 0 \<le> b \<and> b < 256) (le_octets k n)"
  by (induction k arbitrary: n) auto

lemma length_le_octets [simp]: "length (le_octets k n) = k"
  by (induction k arbitrary: n) auto

lemma le_int_range:
  "list_all (\<lambda>b. 0 \<le> b \<and> b < 256) bs \<Longrightarrow> 0 \<le> le_int bs \<and> le_int bs < 256 ^ length bs"
  by (induction bs) auto

lemma be_int_range:
  "list_all (\<lambda>b. 0 \<le> b \<and> b < 256) bs \<Longrightarrow> 0 \<le> be_int bs \<and> be_int bs < 256 ^ length bs"
  using le_int_range [of "rev bs"] by (simp add: be_int_def)

lemma digest_range: "0 \<le> be_int (blake2b_8 data) \<and> be_int (blake2b_8 data) < 2 ^ 64"
  using be_int_range [OF le_octets_range, of 8] by (simp add: blake2b_8_def Let_def)

text \<open>
  A decoder for one character: the leading byte gives the number of continuation bytes. It reads back
  what the encoder wrote, so the hash sees different bytes for different identifiers.
\<close>

definition continue6 :: "octet \<Rightarrow> octet \<Rightarrow> octet" where
  "continue6 hi b = hi * 0x40 + (b - 0x80)"

fun utf8_decode :: "octet list \<Rightarrow> pystr" where
  "utf8_decode [] = []"
| "utf8_decode (a # bs) =
     (if a < 0x80 then nat a # utf8_decode bs
      else if a < 0xE0 then (case bs of b # r \<Rightarrow> nat (continue6 (a - 0xC0) b) # utf8_decode r | _ \<Rightarrow> [])
      else if a < 0xF0 then (case bs of b # c # r \<Rightarrow> nat (continue6 (continue6 (a - 0xE0) b) c) # utf8_decode r | _ \<Rightarrow> [])
      else (case bs of b # c # d # r \<Rightarrow>
              nat (continue6 (continue6 (continue6 (a - 0xF0) b) c) d) # utf8_decode r | _ \<Rightarrow> []))"

lemma join6:
  fixes x :: int
  shows "x div 4096 * 64 + x div 64 mod 64 = x div 64" "x div 262144 * 64 + x div 4096 mod 64 = x div 4096"
    "x div 64 * 64 + x mod 64 = x"
proof -
  have "x div 64 div 64 = x div 4096" "x div 4096 div 64 = x div 262144" by (simp_all add: zdiv_zmult2_eq [symmetric])
  then show "x div 4096 * 64 + x div 64 mod 64 = x div 64" "x div 262144 * 64 + x div 4096 mod 64 = x div 4096"
    "x div 64 * 64 + x mod 64 = x"
    by (metis div_mult_mod_eq)+
qed

lemma join12: "4096 * (x div 4096) + (x div 64 mod 64 * 64 + x mod 64) = (x :: int)"
proof -
  have "4096 * a + (b * 64 + c) = x" if "a * 64 + b = d" "d * 64 + c = x" for a b c d :: int using that by simp
  from this [OF join6(1) join6(3)] show ?thesis .
qed

lemma utf8_decode_char:
  assumes "is_scalar c"
  shows "utf8_decode (utf8_char c @ bs) = c # utf8_decode bs"
proof -
  have lt: "int c < 0x110000" using assms by (auto simp: is_scalar_def)
  consider "int c < 0x80" | "0x80 \<le> int c" "int c < 0x800" | "0x800 \<le> int c" "int c < 0x10000" | "0x10000 \<le> int c"
    by linarith
  then show ?thesis
  proof cases
    case 1
    then show ?thesis by (simp add: utf8_char_def)
  next
    case 2
    then have "int c div 64 < 32" "\<not> 64 + int c div 64 < 0" by linarith+
    then show ?thesis using 2 by (simp add: utf8_char_def continue6_def Let_def)
  next
    case 3
    then have "int c div 4096 < 16" "int c div 4096 \<ge> 0" by linarith+
    then show ?thesis using 3 by (simp add: utf8_char_def continue6_def Let_def join6)
  next
    case 4
    then have "0 \<le> int c div 262144" by linarith
    then show ?thesis using 4 by (simp add: utf8_char_def continue6_def Let_def join6 join12)
  qed
qed

lemma utf8_decode_encode: "utf8_encode s = Inr bs \<Longrightarrow> utf8_decode bs = s"
proof (induction s arbitrary: bs)
  case (Cons c s)
  then show ?case by (auto simp: utf8_encode_def utf8_decode_char split: if_splits)
qed (simp add: utf8_encode_def)

lemma shard_for_Inr:
  assumes "mk_router n = Inr r" "list_all is_scalar d"
  obtains s where "shard_for r d = Inr s" "0 \<le> s" "s < n"
  using assms by (auto simp: mk_router_def shard_for_def utf8_encode_def split: if_splits)

section \<open>Properties\<close>

text \<open>Routing is total and in range: a router exists exactly for a positive shard count, and then every
  identifier that can be encoded has exactly one shard among \<open>0, \<dots>, n - 1\<close>, the residue of a 64-bit hash,
  while one with a surrogate raises.\<close>

theorem shard_for_in_range:
  "(mk_router n = Inl ValueError \<longleftrightarrow> n < 1)
   \<and> (\<forall>r. mk_router n = Inr r \<longrightarrow>
        (if list_all is_scalar d
         then \<exists>h. shard_for r d = Inr (h mod n) \<and> 0 \<le> h \<and> h < 2 ^ 64 \<and> h mod n \<in> {0..<n}
         else shard_for r d = Inl ValueError))"
proof -
  have "shard_for r d = Inr (be_int (blake2b_8 data) mod n) \<and> be_int (blake2b_8 data) mod n \<in> {0..<n}"
    if "mk_router n = Inr r" "utf8_encode d = Inr data" for r data
    using that by (auto simp: mk_router_def shard_for_def split: if_splits)
  then show ?thesis
    using digest_range by (auto simp: mk_router_def shard_for_def utf8_encode_def split: if_splits)
qed

theorem shard_for_in_range_witness:
  "(\<exists>h. shard_for \<lparr>ro_shard_count = 3\<rparr> (ustr ''doc'') = Inr (h mod 3) \<and> 0 \<le> h \<and> h < 2 ^ 64 \<and> h mod 3 \<in> {0..<3})
   \<and> shard_for \<lparr>ro_shard_count = 3\<rparr> [0xD800] = Inl ValueError"
proof -
  have r: "mk_router 3 = Inr \<lparr>ro_shard_count = 3\<rparr>" by (simp add: mk_router_def)
  have "list_all is_scalar (ustr ''doc'')" "\<not> list_all is_scalar [0xD800]"
    by (simp_all add: ustr_def is_scalar_def)
  with r shard_for_in_range [of 3 "ustr ''doc''"] shard_for_in_range [of 3 "[0xD800]"] show ?thesis by metis
qed

text \<open>The hash input determines the identifier: decoding the bytes gives the identifier back, so two
  identifiers never share their encoding.\<close>

theorem utf8_roundtrip:
  "utf8_encode s = Inr bs \<Longrightarrow> utf8_decode bs = s \<and> (utf8_encode s' = Inr bs \<longrightarrow> s' = s)"
  using utf8_decode_encode by blast

theorem utf8_roundtrip_witness:
  "utf8_decode [0x61, 0xC3, 0xA9, 0xE2, 0x82, 0xAC, 0xF0, 0x9F, 0x98, 0x80] = [0x61, 0xE9, 0x20AC, 0x1F600]"
proof -
  have "utf8_encode [0x61, 0xE9, 0x20AC, 0x1F600] = Inr [0x61, 0xC3, 0xA9, 0xE2, 0x82, 0xAC, 0xF0, 0x9F, 0x98, 0x80]"
    by (simp add: utf8_encode_def is_scalar_def utf8_char_def)
  from utf8_roundtrip [OF this] show ?thesis by blast
qed

end
