(* ===== verification/Topology.thy ===== *)
theory Topology
  imports Routing Embedder
begin

text \<open>
  \<open>app/cluster/topology.py\<close> and \<open>app/core/config.py\<close>: the logical shards of a cluster with the clients of
  their physical copies, and the settings of a process with the checks that reject a topology that
  cannot work. \<open>'c\<close> stands for the shard clients.
\<close>

section \<open>Topologies\<close>

record 'c shard_copies =
  sc_shard_id :: int
  sc_primary :: 'c
  sc_replicas :: "'c list"

definition serving_order :: "'c shard_copies \<Rightarrow> 'c list" where
  "serving_order s = sc_primary s # sc_replicas s"

definition sc_replication_factor :: "'c shard_copies \<Rightarrow> int" where
  "sc_replication_factor s = 1 + int (length (sc_replicas s))"

record 'c cluster_topology =
  ct_shards :: "'c shard_copies list"

fun check_positions :: "int \<Rightarrow> 'c shard_copies list \<Rightarrow> unit res" where
  "check_positions position [] = Inr ()"
| "check_positions position (s # ss) =
     (if sc_shard_id s \<noteq> position then Inl ValueError else check_positions (position + 1) ss)"

definition mk_topology :: "'c shard_copies list \<Rightarrow> 'c cluster_topology res" where
  "mk_topology ss = ebind (check_positions 0 ss) (\<lambda>_. Inr \<lparr>ct_shards = ss\<rparr>)"

definition ct_shard_count :: "'c cluster_topology \<Rightarrow> int" where
  "ct_shard_count ct = int (length (ct_shards ct))"

definition ct_replication_factor :: "'c cluster_topology \<Rightarrow> int" where
  "ct_replication_factor ct =
     (case ct_shards ct of [] \<Rightarrow> 1 | s # _ \<Rightarrow> sc_replication_factor s)"

text \<open>\<open>xs[i]\<close>, where a negative index counts from the end.\<close>

definition py_index :: "'a list \<Rightarrow> int \<Rightarrow> 'a res" where
  "py_index xs i =
     (let j = (if i < 0 then i + int (length xs) else i)
      in if 0 \<le> j \<and> j < int (length xs) then Inr (xs ! nat j) else Inl IndexError)"

definition copies_for :: "'c cluster_topology \<Rightarrow> int \<Rightarrow> 'c shard_copies res" where
  "copies_for ct s = py_index (ct_shards ct) s"

definition primary_for :: "'c cluster_topology \<Rightarrow> int \<Rightarrow> 'c res" where
  "primary_for ct s = ebind (py_index (ct_shards ct) s) (\<lambda>c. Inr (sc_primary c))"

fun shard_entries :: "int \<Rightarrow> 'c list \<Rightarrow> 'c list list \<Rightarrow> 'c shard_copies list res" where
  "shard_entries i [] replicas = Inr []"
| "shard_entries i (p # ps) replicas =
     ebind (if replicas \<noteq> [] then py_index replicas i else Inr [])
       (\<lambda>rs. ebind (shard_entries (i + 1) ps replicas)
       (\<lambda>rest. Inr (\<lparr>sc_shard_id = i, sc_primary = p, sc_replicas = rs\<rparr> # rest)))"

definition build_topology :: "'c list \<Rightarrow> 'c list list \<Rightarrow> 'c cluster_topology res" where
  "build_topology primaries replicas =
     (if replicas \<noteq> [] \<and> length replicas \<noteq> length primaries then Inl ValueError
      else ebind (shard_entries 0 primaries replicas) mk_topology)"

section \<open>Settings\<close>

datatype environment = Local | Test | Production
datatype log_level = DEBUG | INFO | WARNING | ERROR | CRITICAL
datatype node_role = Single | Shard | CoordinatorRole
datatype replica_role = Primary | Replica

text \<open>The timeouts are finite floats, which are rationals.\<close>

record settings =
  se_app_name :: pystr
  se_environment :: environment
  se_log_level :: log_level
  se_storage_path :: pystr
  se_node_role :: node_role
  se_shard_id :: "int option"
  se_shard_count :: int
  se_shard_urls :: pystr
  se_replica_urls :: pystr
  se_replica_role :: "replica_role option"
  se_primary_url :: pystr
  se_node_id :: pystr
  se_replication_timeout :: rat
  se_semantic_enabled :: bool
  se_embedding_model :: pystr
  se_embedding_model_revision :: pystr
  se_connect_timeout :: rat
  se_request_timeout :: rat

definition default_settings :: settings where
  "default_settings = \<lparr>se_app_name = ustr ''pysearch'', se_environment = Local, se_log_level = INFO,
     se_storage_path = ustr ''pysearch.db'', se_node_role = Single, se_shard_id = None, se_shard_count = 1,
     se_shard_urls = [], se_replica_urls = [], se_replica_role = None, se_primary_url = [], se_node_id = [],
     se_replication_timeout = 2, se_semantic_enabled = False, se_embedding_model = default_model_id,
     se_embedding_model_revision = default_model_revision, se_connect_timeout = 1, se_request_timeout = 2\<rparr>"

text \<open>\<open>tuple(url.strip() for url in text.split(",") if url.strip())\<close>, with the code points of the separators.\<close>

definition comma :: codepoint where "comma = 44"
definition semicolon :: codepoint where "semicolon = 59"

definition address_list :: "unicode \<Rightarrow> pystr \<Rightarrow> pystr list" where
  "address_list ud t = map (py_strip ud) (filter (\<lambda>url. py_strip ud url \<noteq> []) (py_split comma t))"

definition shard_addresses :: "unicode \<Rightarrow> settings \<Rightarrow> pystr list" where
  "shard_addresses ud st = address_list ud (se_shard_urls st)"

definition replica_addresses :: "unicode \<Rightarrow> settings \<Rightarrow> pystr list list" where
  "replica_addresses ud st =
     (if py_strip ud (se_replica_urls st) = [] then []
      else map (address_list ud) (py_split semicolon (se_replica_urls st)))"

definition own_replica_addresses :: "unicode \<Rightarrow> settings \<Rightarrow> pystr list" where
  "own_replica_addresses ud st = (case replica_addresses ud st of [] \<Rightarrow> [] | g # _ \<Rightarrow> g)"

definition st_replication_factor :: "unicode \<Rightarrow> settings \<Rightarrow> int" where
  "st_replication_factor ud st =
     1 + (case replica_addresses ud st of [] \<Rightarrow> 0 | g # _ \<Rightarrow> int (length g))"

definition check_coordinator :: "unicode \<Rightarrow> settings \<Rightarrow> unit res" where
  "check_coordinator ud st =
     (let addresses = shard_addresses ud st; groups = replica_addresses ud st;
          everything = addresses @ concat groups
      in if addresses = [] then Inl ValueError
         else if int (length addresses) \<noteq> se_shard_count st then Inl ValueError
         else if card (set addresses) \<noteq> length addresses then Inl ValueError
         else if groups = [] then Inr ()
         else if int (length groups) \<noteq> se_shard_count st then Inl ValueError
         else if card (set (map length groups)) \<noteq> 1 then Inl ValueError
         else if card (set everything) \<noteq> length everything then Inl ValueError
         else Inr ())"

definition check_topology :: "unicode \<Rightarrow> settings \<Rightarrow> settings res" where
  "check_topology ud st =
     ebind (if se_node_role st = Shard
            then (case se_shard_id st of None \<Rightarrow> Inl ValueError
                  | Some s \<Rightarrow> if \<not> (0 \<le> s \<and> s < se_shard_count st) then Inl ValueError else Inr ())
            else Inr ())
       (\<lambda>_. ebind (if se_node_role st = CoordinatorRole then check_coordinator ud st else Inr ())
       (\<lambda>_. Inr st))"

text \<open>Constructing \<open>Settings\<close>: the bounds declared on the fields, then the model validator.\<close>

definition mk_settings :: "unicode \<Rightarrow> settings \<Rightarrow> settings res" where
  "mk_settings ud st =
     (if se_shard_count st < 1 \<or> se_replication_timeout st \<le> 0 \<or> se_connect_timeout st \<le> 0 \<or> se_request_timeout st \<le> 0
      then Inl ValueError else check_topology ud st)"

text \<open>
  The part of \<open>_coordinator_lifespan\<close> that puts a cluster together: the clients of the configured
  addresses, grouped by shard, and the router.
\<close>

definition coordinator_parts :: "unicode \<Rightarrow> (pystr \<Rightarrow> 'c) \<Rightarrow> settings \<Rightarrow> (shard_router \<times> 'c cluster_topology) res" where
  "coordinator_parts ud client st =
     ebind (build_topology (map client (shard_addresses ud st)) (map (map client) (replica_addresses ud st)))
       (\<lambda>ct. ebind (mk_router (se_shard_count st)) (\<lambda>r. Inr (r, ct)))"

section \<open>What an accepted configuration gives\<close>

lemma check_positions_Inr: "check_positions p ss = Inr () \<longleftrightarrow> map sc_shard_id ss = map (\<lambda>i. p + int i) [0..<length ss]"
proof (induction ss arbitrary: p)
  case (Cons s ss)
  have "map (\<lambda>i. p + int i) [0..<length (s # ss)] = p # map (\<lambda>i. p + 1 + int i) [0..<length ss]"
    by (simp del: upt_Suc add: upt_conv_Cons map_Suc_upt [symmetric] comp_def add.assoc)
  then show ?case using Cons.IH [of "p + 1"] by (simp del: upt_Suc)
qed simp

lemma shard_entries_Inr:
  assumes "replicas = [] \<or> i + int (length ps) = int (length replicas)" "0 \<le> i"
  shows "shard_entries i ps replicas = Inr (map (\<lambda>j. \<lparr>sc_shard_id = i + int j, sc_primary = ps ! j,
     sc_replicas = (if replicas = [] then [] else replicas ! (nat i + j))\<rparr>) [0..<length ps])"
  using assms
proof (induction ps arbitrary: i)
  case (Cons p ps)
  have ix: "replicas = [] \<or> py_index replicas i = Inr (replicas ! nat i)"
    using Cons.prems by (auto simp: py_index_def)
  have ih: "shard_entries (i + 1) ps replicas = Inr (map (\<lambda>j. \<lparr>sc_shard_id = i + 1 + int j, sc_primary = ps ! j,
     sc_replicas = (if replicas = [] then [] else replicas ! (nat (i + 1) + j))\<rparr>) [0..<length ps])"
    using Cons.prems by (intro Cons.IH) auto
  have "nat (i + 1) = Suc (nat i)" using Cons.prems(2) by simp
  then show ?case using ix
    by (auto simp: ih upt_conv_Cons map_Suc_upt [symmetric] comp_def add.assoc simp del: upt_Suc)
qed simp

lemma build_topology_Inr:
  assumes "replicas = [] \<or> length replicas = length primaries"
  shows "build_topology primaries replicas = Inr \<lparr>ct_shards = map (\<lambda>i. \<lparr>sc_shard_id = int i,
     sc_primary = primaries ! i, sc_replicas = (if replicas = [] then [] else replicas ! i)\<rparr>) [0..<length primaries]\<rparr>"
  using assms shard_entries_Inr [of replicas 0 primaries]
  by (auto simp: build_topology_def mk_topology_def check_positions_Inr [THEN iffD2] comp_def)

lemma mk_settings_coordinator:
  assumes "mk_settings ud st = Inr st'" "se_node_role st = CoordinatorRole"
  shows "st' = st" "int (length (shard_addresses ud st)) = se_shard_count st" "1 \<le> se_shard_count st"
    "distinct (shard_addresses ud st @ concat (replica_addresses ud st))"
    "replica_addresses ud st = [] \<or> length (replica_addresses ud st) = length (shard_addresses ud st)"
    "g \<in> set (replica_addresses ud st) \<Longrightarrow> 1 + int (length g) = st_replication_factor ud st"
proof -
  let ?a = "shard_addresses ud st" and ?g = "replica_addresses ud st"
  have c: "check_coordinator ud st = Inr ()" "st' = st" "1 \<le> se_shard_count st"
    using assms by (auto simp: mk_settings_def check_topology_def ebind_Inr_iff split: if_splits)
  have a: "int (length ?a) = se_shard_count st" "distinct ?a"
    and g: "?g = [] \<or> int (length ?g) = se_shard_count st \<and> card (length ` set ?g) = 1
        \<and> card (set (?a @ concat ?g)) = length (?a @ concat ?g)"
    using c(1) by (auto simp: check_coordinator_def Let_def card_distinct split: if_splits)
  show "st' = st" "int (length ?a) = se_shard_count st" "1 \<le> se_shard_count st" by (rule c(2) a(1) c(3))+
  show "distinct (?a @ concat ?g)" using g a(2) card_distinct [of "?a @ concat ?g"] by auto
  show "?g = [] \<or> length ?g = length ?a" using g a(1) by auto
  show "1 + int (length g) = st_replication_factor ud st" if gs: "g \<in> set ?g"
  proof -
    obtain g0 rest where g0: "?g = g0 # rest" using gs by (cases ?g) auto
    obtain n where "length ` set ?g = {n}" using g g0 by (metis card_1_singletonE list.distinct(1))
    then have "length g = length g0" using gs g0 by auto
    then show ?thesis by (simp add: st_replication_factor_def g0)
  qed
qed

lemma accepted_parts:
  assumes "mk_settings ud st = Inr st'" "se_node_role st = CoordinatorRole"
  shows "\<exists>r ct. coordinator_parts ud client st' = Inr (r, ct)
    \<and> distinct (shard_addresses ud st @ concat (replica_addresses ud st))
    \<and> ct_shard_count ct = se_shard_count st \<and> ro_shard_count r = se_shard_count st
    \<and> list_all (\<lambda>copies. sc_replication_factor copies = st_replication_factor ud st) (ct_shards ct)
    \<and> map sc_primary (ct_shards ct) = map client (shard_addresses ud st)
    \<and> (list_all is_scalar d \<longrightarrow> (\<exists>s copies. shard_for r d = Inr s \<and> copies_for ct s = Inr copies \<and> sc_shard_id copies = s))"
proof -
  let ?a = "shard_addresses ud st" and ?g = "replica_addresses ud st"
  note f = mk_settings_coordinator [OF assms]
  let ?ct = "\<lparr>ct_shards = map (\<lambda>i. \<lparr>sc_shard_id = int i, sc_primary = map client ?a ! i,
      sc_replicas = (if map (map client) ?g = [] then [] else map (map client) ?g ! i)\<rparr>) [0..<length ?a]\<rparr>"
  let ?r = "\<lparr>ro_shard_count = se_shard_count st\<rparr>"
  have ct: "build_topology (map client ?a) (map (map client) ?g) = Inr ?ct"
    using f(5) build_topology_Inr [of "map (map client) ?g" "map client ?a"] by simp
  have r: "mk_router (se_shard_count st) = Inr ?r" using f(3) by (simp add: mk_router_def)
  have parts: "coordinator_parts ud client st' = Inr (?r, ?ct)" using ct r f(1) by (simp add: coordinator_parts_def)
  have rf: "sc_replication_factor s = st_replication_factor ud st" if "s \<in> set (ct_shards ?ct)" for s
  proof -
    from that obtain i where i: "i < length ?a" "s = ct_shards ?ct ! i" by (auto simp: in_set_conv_nth)
    show ?thesis
    proof (cases "?g = []")
      case True
      then show ?thesis using i by (simp add: sc_replication_factor_def st_replication_factor_def)
    next
      case False
      then have "i < length ?g" using f(5) i(1) by simp
      then show ?thesis using f(6) [OF nth_mem [of i ?g]] i False by (simp add: sc_replication_factor_def)
    qed
  qed
  have prim: "map sc_primary (ct_shards ?ct) = map client ?a" by (auto intro: nth_equalityI)
  have route: "\<exists>s copies. shard_for ?r d = Inr s \<and> copies_for ?ct s = Inr copies \<and> sc_shard_id copies = s"
    if d: "list_all is_scalar d"
  proof -
    from shard_for_Inr [OF r d] obtain s where "shard_for ?r d = Inr s" "0 \<le> s" "s < se_shard_count st" by blast
    then show ?thesis using f(2) by (simp add: copies_for_def py_index_def)
  qed
  show ?thesis
    using parts f(2,4) rf prim route by (intro exI [of _ ?r] exI [of _ ?ct]) (simp add: ct_shard_count_def list_all_iff)
qed

section \<open>Properties\<close>

text \<open>C21. A configuration the settings accept for a coordinator is one it can run: no address appears twice
  among the primaries and replicas, the topology and the router are built without an exception and agree on
  the shard count, every shard has the same number of copies, and every identifier that can be encoded is
  routed to a shard of the topology, whose entry carries that shard's number.\<close>

theorem accepted_settings_route:
  assumes "mk_settings ud st = Inr st'" "se_node_role st = CoordinatorRole"
  shows "\<exists>r ct. coordinator_parts ud client st' = Inr (r, ct)
    \<and> distinct (shard_addresses ud st @ concat (replica_addresses ud st))
    \<and> ct_shard_count ct = se_shard_count st \<and> ro_shard_count r = se_shard_count st
    \<and> list_all (\<lambda>copies. sc_replication_factor copies = st_replication_factor ud st) (ct_shards ct)
    \<and> map sc_primary (ct_shards ct) = map client (shard_addresses ud st)
    \<and> (list_all is_scalar d \<longrightarrow> (\<exists>s copies. shard_for r d = Inr s \<and> copies_for ct s = Inr copies \<and> sc_shard_id copies = s))"
  by (rule accepted_parts [OF assms])

definition example_settings :: settings where
  "example_settings = default_settings\<lparr>se_node_role := CoordinatorRole, se_shard_count := 2,
     se_shard_urls := ustr ''a, b'', se_replica_urls := ustr ''c;d''\<rparr>"

theorem accepted_settings_route_witness:
  "\<exists>r ct. coordinator_parts ascii_unicode (\<lambda>url. url) example_settings = Inr (r, ct)
    \<and> ct_shard_count ct = 2 \<and> map sc_primary (ct_shards ct) = [ustr ''a'', ustr ''b'']"
proof -
  have a: "shard_addresses ascii_unicode example_settings = [ustr ''a'', ustr ''b'']"
    "replica_addresses ascii_unicode example_settings = [[ustr ''c''], [ustr ''d'']]"
    by (simp_all add: shard_addresses_def replica_addresses_def address_list_def example_settings_def default_settings_def
        ustr_def py_strip_def ascii_unicode_def comma_def semicolon_def)
  have "mk_settings ascii_unicode example_settings = Inr example_settings"
    by (simp add: mk_settings_def check_topology_def check_coordinator_def a)
       (simp add: example_settings_def default_settings_def ustr_def)
  moreover have "se_node_role example_settings = CoordinatorRole" "se_shard_count example_settings = 2"
    by (simp_all add: example_settings_def)
  ultimately show ?thesis
    using accepted_settings_route [of ascii_unicode example_settings example_settings "\<lambda>url. url" "[]"] by (auto simp: a)
qed

end
