(* ===== verification/Node.thy ===== *)
theory Node
  imports Http Topology
begin

text \<open>
  A shard node: the role dependencies of \<open>app/api/dependencies.py\<close>, the internal endpoints of
  \<open>app/api/internal.py\<close> that concern one process, and \<open>app/cluster/client.py\<close>, the coordinator's client
  of such a node. The endpoints through which a primary writes are with the replicator.
\<close>

section \<open>Nodes\<close>

record 'f node =
  no_engine :: "'f engine"
  no_settings :: settings

definition on_engine :: "('f engine, 'a) st \<Rightarrow> ('f node, 'a) st" where
  "on_engine m n = (case m (no_engine n) of (r, en) \<Rightarrow> (r, n\<lparr>no_engine := en\<rparr>))"

text \<open>
  \<open>_attach_replication_role\<close> gives a shard node a replicator if it is configured as the primary, and a
  synchronizer otherwise; the two dependencies look for them.
\<close>

definition has_replicator :: "'f node \<Rightarrow> bool" where
  "has_replicator n \<longleftrightarrow> se_replica_role (no_settings n) = Some Primary"

definition require_primary :: "('f node, unit) st" where
  "require_primary n = (if has_replicator n then (Inr (), n) else (Inl (HTTPException 409), n))"

definition require_replica :: "('f node, unit) st" where
  "require_replica n = (if has_replicator n then (Inl (HTTPException 409), n) else (Inr (), n))"

section \<open>Reading\<close>

definition internal_search :: "'f::linorder runtime \<Rightarrow> pystr \<Rightarrow> int \<Rightarrow> corpus_stats \<Rightarrow> 'f node \<Rightarrow> 'f search_results response \<times> 'f node" where
  "internal_search rt query limit stats =
     serve (\<lambda>_. 200) (sbind (slift (check_limit limit))
       (\<lambda>_ n. (engine_search rt (no_engine n) query limit (Some stats), n)))"

definition internal_corpus_stats :: "pystr list \<Rightarrow> 'f node \<Rightarrow> corpus_stats response \<times> 'f node" where
  "internal_corpus_stats terms = serve (\<lambda>_. 200) (\<lambda>n. (engine_corpus_stats (no_engine n) terms, n))"

definition internal_index_stats :: "'f runtime \<Rightarrow> 'f node \<Rightarrow> 'f index_stats response \<times> 'f node" where
  "internal_index_stats rt = serve (\<lambda>_. 200) (\<lambda>n. (engine_stats rt (no_engine n), n))"

text \<open>The vector arrives as a JSON list: \<open>list[float]\<close> accepts one dimension only.\<close>

definition internal_semantic_search ::
    "'f::linorder runtime \<Rightarrow> 'f ndarray \<Rightarrow> int \<Rightarrow> semantic_identity \<Rightarrow> 'f node \<Rightarrow> 'f search_results response \<times> 'f node" where
  "internal_semantic_search rt vector limit incoming =
     serve (\<lambda>_. 200)
       (sbind (slift (check_limit limit))
         (\<lambda>_. sbind (slift (if nd_ndim vector \<noteq> 1 then Inl (HTTPException 422) else Inr ()))
         (\<lambda>_ n. case engine_semantic_identity (no_engine n) of
             None \<Rightarrow> (Inl (HTTPException 503), n)
           | Some own \<Rightarrow>
               if \<not> is_compatible_with own incoming then (Inl (HTTPException 409), n)
               else (engine_semantic_search rt (no_engine n) (nd_float32 (rt_numpy rt) vector) limit, n))))"

record node_status =
  ns_node_id :: pystr
  ns_shard_id :: int
  ns_replica_role :: pystr
  ns_state :: pystr
  ns_ready :: bool
  ns_generation :: int

record node_status_response = node_status +
  nr_semantic_enabled :: bool
  nr_semantic_identity :: "pystr option"
  nr_vector_count :: "int option"

definition py_str_option :: "('a \<Rightarrow> pystr) \<Rightarrow> 'a option \<Rightarrow> pystr" where
  "py_str_option f x = (case x of None \<Rightarrow> ustr ''None'' | Some a \<Rightarrow> f a)"

fun replica_role_str :: "replica_role \<Rightarrow> pystr" where
  "replica_role_str Primary = ustr ''primary''"
| "replica_role_str Replica = ustr ''replica''"

definition node_name :: "settings \<Rightarrow> pystr" where
  "node_name st =
     (if se_node_id st \<noteq> [] then se_node_id st
      else ustr ''shard-'' @ py_str_option py_str_int (se_shard_id st)
           @ ustr ''-'' @ py_str_option replica_role_str (se_replica_role st))"

definition internal_node_status :: "'f node \<Rightarrow> node_status_response response \<times> 'f node" where
  "internal_node_status =
     serve (\<lambda>_. 200) (\<lambda>n.
       let st = no_settings n; en = no_engine n; status = engine_get_status en
       in (Inr \<lparr>ns_node_id = node_name st,
            ns_shard_id = (case se_shard_id st of Some s \<Rightarrow> s | None \<Rightarrow> -1),
            ns_replica_role = (case se_replica_role st of Some r \<Rightarrow> replica_role_str r | None \<Rightarrow> ustr ''single''),
            ns_state = node_state_str (es_state status), ns_ready = es_ready status, ns_generation = es_generation status,
            nr_semantic_enabled = engine_semantic_enabled en,
            nr_semantic_identity = map_option fingerprint (engine_semantic_identity en),
            nr_vector_count = engine_vector_count en\<rparr>, n))"

definition node_ready :: "'f node \<Rightarrow> readiness_response response \<times> 'f node" where
  "node_ready n = (case api_ready (no_engine n) of (r, en) \<Rightarrow> (r, n\<lparr>no_engine := en\<rparr>))"

section \<open>The replication endpoints\<close>

record replication_response =
  rp_outcome :: pystr
  rp_generation :: int

fun replication_outcome_str :: "replication_outcome \<Rightarrow> pystr" where
  "replication_outcome_str APPLIED = ustr ''applied''"
| "replication_outcome_str DUPLICATE = ustr ''duplicate''"
| "replication_outcome_str GAP = ustr ''gap''"

definition replication_response_for :: "replication_outcome \<Rightarrow> ('f node, replication_response) st" where
  "replication_response_for outcome n =
     (if outcome = GAP then (Inl (HTTPException 409), n)
      else (Inr \<lparr>rp_outcome = replication_outcome_str outcome, rp_generation = en_generation (no_engine n)\<rparr>, n))"

definition check_generation :: "int \<Rightarrow> ('f node, unit) st" where
  "check_generation g n = (if g < 1 then (Inl (HTTPException 422), n) else (Inr (), n))"

definition replicate_document :: "'f runtime \<Rightarrow> pystr \<Rightarrow> pystr \<Rightarrow> int \<Rightarrow> 'f node \<Rightarrow> replication_response response \<times> 'f node" where
  "replicate_document rt d t g =
     serve (\<lambda>_. 200)
       (sbind require_replica
         (\<lambda>_. sbind (check_generation g)
         (\<lambda>_. sbind (slift (mk_document (rt_unicode rt) d t))
         (\<lambda>doc. sbind (on_engine (engine_apply_replicated_put rt doc g))
         replication_response_for))))"

definition replicate_delete :: "pystr \<Rightarrow> int \<Rightarrow> 'f node \<Rightarrow> replication_response response \<times> 'f node" where
  "replicate_delete d g =
     serve (\<lambda>_. 200)
       (sbind require_replica
         (\<lambda>_. sbind (check_generation g)
         (\<lambda>_. sbind (on_engine (engine_apply_replicated_delete d g))
         replication_response_for)))"

definition export_documents :: "'f node \<Rightarrow> (document list \<times> int) response \<times> 'f node" where
  "export_documents =
     serve (\<lambda>_. 200) (sbind require_primary (\<lambda>_ n. (engine_export_snapshot (no_engine n), n)))"

section \<open>The coordinator's client\<close>

text \<open>
  \<open>ShardClient\<close>: what one physical copy answers during one operation of the coordinator. Reads do not
  change the copy; writes change the world \<open>'w\<close> behind it.
\<close>

record ('f, 'w) shard_client =
  cl_put_document :: "document \<Rightarrow> ('w, bool) st"
  cl_delete_document :: "pystr \<Rightarrow> ('w, unit) st"
  cl_search :: "pystr \<Rightarrow> int \<Rightarrow> corpus_stats \<Rightarrow> 'f search_results res"
  cl_corpus_stats :: "pystr list \<Rightarrow> corpus_stats res"
  cl_semantic_search :: "'f ndarray \<Rightarrow> int \<Rightarrow> semantic_identity \<Rightarrow> 'f search_results res"
  cl_index_stats :: "'f index_stats res"
  cl_is_ready :: "bool res"
  cl_node_status :: "node_status res"

text \<open>
  \<open>HttpShardClient\<close>. \<open>net\<close> says what the network does to each kind of request. Document identifiers are
  put into the path as they are: \<open>path_id d\<close> is the identifier the node reads back from a path made
  with \<open>d\<close> (\<open>None\<close> if no route matches it), which is up to the HTTP client's URL parser and the router.
\<close>

datatype shard_method = Put | Delete | Search | CorpusStats | SemanticSearch | IndexStats | IsReady | NodeStatus

definition routed :: "(pystr \<Rightarrow> pystr option) \<Rightarrow> pystr \<Rightarrow> (pystr \<Rightarrow> 's \<Rightarrow> 'b response \<times> 's) \<Rightarrow> 's \<Rightarrow> 'b response \<times> 's" where
  "routed path_id d handler s = (case path_id d of None \<Rightarrow> (Response 404 None, s) | Some d' \<Rightarrow> handler d' s)"

definition http_read :: "delivery \<Rightarrow> ('s \<Rightarrow> 'b response \<times> 's) \<Rightarrow> 's \<Rightarrow> 'b res" where
  "http_read dl handler s = ebind (fst (http_request False dl handler s)) json_body"

definition http_put_document ::
    "(pystr \<Rightarrow> pystr option) \<Rightarrow> delivery \<Rightarrow> (pystr \<Rightarrow> pystr \<Rightarrow> 'w \<Rightarrow> index_document_response response \<times> 'w) \<Rightarrow> document \<Rightarrow> ('w, bool) st" where
  "http_put_document path_id dl endpoint doc =
     sbind (http_request False dl (routed path_id (document_id doc) (\<lambda>d. endpoint d (doc_text doc))))
       (\<lambda>response. slift (ebind (json_body response) (\<lambda>b. Inr (idr_created b))))"

definition http_delete_document ::
    "(pystr \<Rightarrow> pystr option) \<Rightarrow> delivery \<Rightarrow> (pystr \<Rightarrow> 'w \<Rightarrow> unit response \<times> 'w) \<Rightarrow> pystr \<Rightarrow> ('w, unit) st" where
  "http_delete_document path_id dl endpoint d =
     sbind (http_request True dl (routed path_id d endpoint))
       (\<lambda>response. slift (if rs_status response = 404 then Inl DocumentNotFoundError else Inr ()))"

definition http_semantic_search ::
    "'f::linorder runtime \<Rightarrow> delivery \<Rightarrow> 'f node \<Rightarrow> 'f ndarray \<Rightarrow> int \<Rightarrow> semantic_identity \<Rightarrow> 'f search_results res" where
  "http_semantic_search rt dl n vector limit identity =
     (if nd_ndim vector = 0 then Inl TypeError
      else http_read dl (internal_semantic_search rt vector limit identity) n)"

definition http_is_ready :: "delivery \<Rightarrow> 'f node \<Rightarrow> bool res" where
  "http_is_ready dl n =
     (case dl of Delivered \<Rightarrow> Inr (rs_status (fst (node_ready n)) = 200) | _ \<Rightarrow> Inr False)"

definition http_node_status :: "delivery \<Rightarrow> 'f node \<Rightarrow> node_status res" where
  "http_node_status dl n = ebind (http_read dl internal_node_status n) (\<lambda>s. Inr (node_status.truncate s))"

definition http_shard_client ::
    "'f::linorder runtime \<Rightarrow> (pystr \<Rightarrow> pystr option) \<Rightarrow> (shard_method \<Rightarrow> delivery)
     \<Rightarrow> (pystr \<Rightarrow> pystr \<Rightarrow> 'w \<Rightarrow> index_document_response response \<times> 'w) \<Rightarrow> (pystr \<Rightarrow> 'w \<Rightarrow> unit response \<times> 'w)
     \<Rightarrow> 'f node \<Rightarrow> ('f, 'w) shard_client" where
  "http_shard_client rt path_id net put_endpoint delete_endpoint n =
     \<lparr>cl_put_document = http_put_document path_id (net Put) put_endpoint,
      cl_delete_document = http_delete_document path_id (net Delete) delete_endpoint,
      cl_search = (\<lambda>query limit stats. http_read (net Search) (internal_search rt query limit stats) n),
      cl_corpus_stats = (\<lambda>terms. http_read (net CorpusStats) (internal_corpus_stats terms) n),
      cl_semantic_search = http_semantic_search rt (net SemanticSearch) n,
      cl_index_stats = http_read (net IndexStats) (internal_index_stats rt) n,
      cl_is_ready = http_is_ready (net IsReady) n,
      cl_node_status = http_node_status (net NodeStatus) n\<rparr>"

section \<open>The transport contract\<close>

text \<open>
  What the coordinator relies on: a copy that answers, answers what its engine computes, and one that
  does not raises a cluster error, which the coordinator's failover handles. \<open>net\<close> ranges over what the
  network can do.
\<close>

locale shard_transport =
  fixes rt :: "'f::linorder runtime"
    and client :: "'net \<Rightarrow> 'f node \<Rightarrow> ('f, 'w) shard_client"
  assumes stats_answer: "cl_corpus_stats (client net n) terms = Inr stats \<Longrightarrow> engine_corpus_stats (no_engine n) terms = Inr stats"
    and search_answer: "cl_search (client net n) query limit stats = Inr r \<Longrightarrow> engine_search rt (no_engine n) query limit (Some stats) = Inr r"
    and semantic_answer: "cl_semantic_search (client net n) vector limit identity = Inr r \<Longrightarrow>
      nd_ndim vector = 1 \<and> engine_semantic_identity (no_engine n) = Some identity
      \<and> engine_semantic_search rt (no_engine n) (nd_float32 (rt_numpy rt) vector) limit = Inr r"
    and index_stats_answer: "cl_index_stats (client net n) = Inr st \<Longrightarrow> engine_stats rt (no_engine n) = Inr st"
    and ready_answer: "cl_is_ready (client net n) = Inr True \<Longrightarrow> en_state (no_engine n) = READY"
    and status_answer: "cl_node_status (client net n) = Inr status \<Longrightarrow>
      ns_ready status = (en_state (no_engine n) = READY) \<and> ns_generation status = en_generation (no_engine n)"
    and refusals: "cl_corpus_stats (client net n) terms = Inl e \<Longrightarrow> is_ClusterError e"
      "cl_index_stats (client net n) = Inl e \<Longrightarrow> is_ClusterError e"
begin

lemma stats_ready: "cl_corpus_stats (client net n) terms = Inr stats \<Longrightarrow>
    en_state (no_engine n) = READY \<and> stats = index_corpus_stats (en_index (no_engine n)) terms"
  using stats_answer by (fastforce simp: engine_corpus_stats_def require_operational_def split: if_splits)

lemma semantic_ready: "cl_semantic_search (client net n) vector limit identity = Inr r \<Longrightarrow> en_state (no_engine n) = READY"
  using semantic_answer by (fastforce simp: engine_semantic_search_def require_operational_def split: if_splits)

end

lemma http_read_Inr:
  assumes "http_read dl (serve (\<lambda>_. 200) m) s = Inr b"
  shows "fst (m s) = Inr b"
  using assms by (cases "m s"; cases "fst (m s)") (auto simp: http_read_def http_request_def json_body_def serve_def split: delivery.splits if_splits)

lemma http_read_Inl:
  assumes "http_read dl (serve (\<lambda>_. 200) m) s = Inl e" "\<And>n. fst (m s) = Inl (HTTPException n) \<Longrightarrow> 400 \<le> n"
  shows "is_ClusterError e"
proof (cases "m s")
  case (Pair r s')
  have "400 \<le> error_status x" if "r = Inl x" for x using that assms(2) Pair by (intro error_status_range) auto
  then show ?thesis using assms(1) Pair
    by (cases r; cases dl) (auto simp: http_read_def http_request_def json_body_def serve_def)
qed

lemma engine_refuses_simply:
  "engine_corpus_stats en terms = Inl e \<Longrightarrow> e = EngineNotReadyError"
  "engine_stats rt en = Inl e \<Longrightarrow> e = EngineNotReadyError"
  by (auto simp: engine_corpus_stats_def engine_stats_def require_operational_def split: if_splits)

lemma internal_semantic_Inr:
  assumes "http_read dl (internal_semantic_search rt vector limit identity) n = Inr r"
  shows "nd_ndim vector = 1 \<and> engine_semantic_identity (no_engine n) = Some identity
    \<and> engine_semantic_search rt (no_engine n) (nd_float32 (rt_numpy rt) vector) limit = Inr r"
  using http_read_Inr [OF assms [unfolded internal_semantic_search_def]]
  by (auto simp: sbind_def st_defs is_compatible_with_def split: sum.splits option.splits if_splits)

interpretation http: shard_transport rt "\<lambda>net. http_shard_client rt path_id net put_endpoint delete_endpoint"
  for rt :: "'f::linorder runtime" and path_id put_endpoint delete_endpoint
proof
  fix net and n :: "'f node" and terms stats query limit r vector identity st status e
  let ?c = "http_shard_client rt path_id net put_endpoint delete_endpoint n"
  show "cl_corpus_stats ?c terms = Inr stats \<Longrightarrow> engine_corpus_stats (no_engine n) terms = Inr stats"
    by (auto simp: http_shard_client_def internal_corpus_stats_def dest: http_read_Inr)
  show "cl_search ?c query limit stats = Inr r \<Longrightarrow> engine_search rt (no_engine n) query limit (Some stats) = Inr r"
    by (auto simp: http_shard_client_def internal_search_def sbind_def st_defs dest!: http_read_Inr split: sum.splits)
  show "cl_semantic_search ?c vector limit identity = Inr r \<Longrightarrow>
      nd_ndim vector = 1 \<and> engine_semantic_identity (no_engine n) = Some identity
      \<and> engine_semantic_search rt (no_engine n) (nd_float32 (rt_numpy rt) vector) limit = Inr r"
    by (rule internal_semantic_Inr) (auto simp: http_shard_client_def http_semantic_search_def split: if_splits)
  show "cl_index_stats ?c = Inr st \<Longrightarrow> engine_stats rt (no_engine n) = Inr st"
    by (auto simp: http_shard_client_def internal_index_stats_def dest: http_read_Inr)
  show "cl_is_ready ?c = Inr True \<Longrightarrow> en_state (no_engine n) = READY"
    by (auto simp: http_shard_client_def http_is_ready_def node_ready_def api_ready_def serve_def engine_get_status_def Let_def
        split: delivery.splits if_splits)
  show "cl_node_status ?c = Inr status \<Longrightarrow>
      ns_ready status = (en_state (no_engine n) = READY) \<and> ns_generation status = en_generation (no_engine n)"
    by (auto simp: http_shard_client_def http_node_status_def internal_node_status_def ebind_Inr_iff engine_get_status_def
        node_status.truncate_def Let_def dest!: http_read_Inr)
  show "cl_corpus_stats ?c terms = Inl e \<Longrightarrow> is_ClusterError e"
    by (rule http_read_Inl) (auto simp: http_shard_client_def internal_corpus_stats_def dest: engine_refuses_simply)
  show "cl_index_stats ?c = Inl e \<Longrightarrow> is_ClusterError e"
    by (rule http_read_Inl) (auto simp: http_shard_client_def internal_index_stats_def dest: engine_refuses_simply)
qed

end
