(* ===== verification/Replication.thy ===== *)
theory Replication
  imports Node
begin

text \<open>
  \<open>app/cluster/replication.py\<close>: the primary's write path, the link between nodes and the replica's
  synchroniser, with the endpoints of \<open>app/api/internal.py\<close> that reach them. The state is one logical
  shard: its primary, its replicas, and what the network does to the requests between them, one entry per
  request (an empty schedule delivers everything). Quantifying over the schedule covers every pattern of
  lost requests and lost answers.
\<close>

section \<open>One logical shard\<close>

record 'f shard_group =
  gr_primary :: "'f node"
  gr_replicas :: "'f node list"
  gr_net :: "delivery list"

definition on_primary :: "('f node, 'a) st \<Rightarrow> ('f shard_group, 'a) st" where
  "on_primary m gr = (case m (gr_primary gr) of (r, n) \<Rightarrow> (r, gr\<lparr>gr_primary := n\<rparr>))"

definition on_replica :: "nat \<Rightarrow> ('f node, 'a) st \<Rightarrow> ('f shard_group, 'a) st" where
  "on_replica i m gr = (case m (gr_replicas gr ! i) of (r, n) \<Rightarrow> (r, gr\<lparr>gr_replicas := (gr_replicas gr)[i := n]\<rparr>))"

definition next_delivery :: "('f shard_group, delivery) st" where
  "next_delivery gr = (Inr (if gr_net gr = [] then Delivered else hd (gr_net gr)), gr\<lparr>gr_net := tl (gr_net gr)\<rparr>)"

section \<open>The link to another node\<close>

definition link_apply_put :: "'f runtime \<Rightarrow> (pystr \<Rightarrow> pystr option) \<Rightarrow> document \<Rightarrow> int \<Rightarrow> delivery \<Rightarrow> ('f node, unit) st" where
  "link_apply_put rt path_id doc g dl =
     sbind (link_request dl (routed path_id (document_id doc) (\<lambda>d. replicate_document rt d (doc_text doc) g)))
       (\<lambda>_. slift (Inr ()))"

definition link_apply_delete :: "(pystr \<Rightarrow> pystr option) \<Rightarrow> pystr \<Rightarrow> int \<Rightarrow> delivery \<Rightarrow> ('f node, unit) st" where
  "link_apply_delete path_id d g dl =
     sbind (link_request dl (routed path_id d (\<lambda>d. replicate_delete d g))) (\<lambda>_. slift (Inr ()))"

definition link_generation :: "delivery \<Rightarrow> ('f node, int) st" where
  "link_generation dl =
     sbind (link_request dl internal_node_status) (\<lambda>response. slift (ebind (json_body response) (\<lambda>s. Inr (ns_generation s))))"

definition link_export :: "unicode \<Rightarrow> delivery \<Rightarrow> ('f node, document list \<times> int) st" where
  "link_export ud dl =
     sbind (link_request dl export_documents) (\<lambda>response. slift (ebind (json_body response) (\<lambda>(entries, g).
       ebind (emap (\<lambda>entry. mk_document ud (document_id entry) (doc_text entry)) entries) (\<lambda>docs. Inr (docs, g)))))"

section \<open>The primary's write path\<close>

text \<open>\<open>_replicate\<close>: one replica after the other; any exception fails the write.\<close>

definition replicate_one :: "(delivery \<Rightarrow> ('f node, unit) st) \<Rightarrow> nat \<Rightarrow> ('f shard_group, unit) st" where
  "replicate_one apply_to i =
     sbind next_delivery (\<lambda>dl gr. case on_replica i (apply_to dl) gr of
         (Inl _, gr') \<Rightarrow> (Inl ReplicationError, gr') | (Inr u, gr') \<Rightarrow> (Inr u, gr'))"

definition replicate_to_all :: "(delivery \<Rightarrow> ('f node, unit) st) \<Rightarrow> ('f shard_group, unit) st" where
  "replicate_to_all apply_to gr = sfold (replicate_one apply_to) [0..<length (gr_replicas gr)] gr"

definition replicator_index_document :: "'f runtime \<Rightarrow> (pystr \<Rightarrow> pystr option) \<Rightarrow> document \<Rightarrow> ('f shard_group, bool) st" where
  "replicator_index_document rt path_id doc =
     sbind (on_primary (on_engine (engine_index_document rt doc)))
       (\<lambda>created. sbind (sgets (\<lambda>gr. en_generation (no_engine (gr_primary gr))))
       (\<lambda>g. sbind (replicate_to_all (link_apply_put rt path_id doc g))
       (\<lambda>_. slift (Inr created))))"

definition replicator_delete_document :: "(pystr \<Rightarrow> pystr option) \<Rightarrow> pystr \<Rightarrow> ('f shard_group, unit) st" where
  "replicator_delete_document path_id d =
     sbind (on_primary (on_engine (engine_delete_document d)))
       (\<lambda>_. sbind (sgets (\<lambda>gr. en_generation (no_engine (gr_primary gr))))
       (\<lambda>g. replicate_to_all (link_apply_delete path_id d g)))"

text \<open>The endpoints a coordinator writes through, on the primary.\<close>

definition internal_index_document ::
    "'f runtime \<Rightarrow> (pystr \<Rightarrow> pystr option) \<Rightarrow> pystr \<Rightarrow> pystr \<Rightarrow> 'f shard_group \<Rightarrow> index_document_response response \<times> 'f shard_group" where
  "internal_index_document rt path_id d t =
     serve (\<lambda>r. if idr_created r then 201 else 200)
       (sbind (on_primary require_primary)
         (\<lambda>_. sbind (slift (mk_document (rt_unicode rt) d t))
         (\<lambda>doc. sbind (replicator_index_document rt path_id doc)
         (\<lambda>created. slift (Inr \<lparr>idr_document_id = d, idr_created = created\<rparr>)))))"

definition internal_delete_document ::
    "(pystr \<Rightarrow> pystr option) \<Rightarrow> pystr \<Rightarrow> 'f shard_group \<Rightarrow> unit response \<times> 'f shard_group" where
  "internal_delete_document path_id d =
     serve (\<lambda>_. 204) (sbind (on_primary require_primary) (\<lambda>_. replicator_delete_document path_id d))"

section \<open>The replica's synchroniser\<close>

record sync_outcome =
  so_synchronized :: bool
  so_detail :: pystr
  so_local_generation :: int
  so_primary_generation :: "int option"

definition replica_generation :: "nat \<Rightarrow> ('f shard_group, int) st" where
  "replica_generation i = sgets (\<lambda>gr. en_generation (no_engine (gr_replicas gr ! i)))"

definition sync_failed :: "nat \<Rightarrow> pystr \<Rightarrow> int \<Rightarrow> int option \<Rightarrow> ('f shard_group, sync_outcome) st" where
  "sync_failed i detail here remote =
     sbind (on_replica i (on_engine (engine_mark_out_of_sync detail)))
       (\<lambda>_. slift (Inr \<lparr>so_synchronized = False, so_detail = detail, so_local_generation = here, so_primary_generation = remote\<rparr>))"

definition resynchronize_from :: "'f::linorder runtime \<Rightarrow> nat \<Rightarrow> int \<Rightarrow> int option \<Rightarrow> ('f shard_group, sync_outcome) st" where
  "resynchronize_from rt i here remote =
     sbind (on_replica i (on_engine (engine_mark_recovering (ustr ''resynchronizing from generation '' @ py_str_int here))))
       (\<lambda>_. sbind next_delivery
       (\<lambda>dl gr. case on_primary (link_export (rt_unicode rt) dl) gr of
            (Inl _, gr1) \<Rightarrow> sync_failed i (ustr ''resynchronization failed: could not read the primary's corpus'') here remote gr1
          | (Inr (docs, g), gr1) \<Rightarrow>
              (case on_replica i (on_engine (engine_resynchronize rt docs g)) gr1 of
                 (Inl _, gr2) \<Rightarrow> sync_failed i (ustr ''resynchronization failed while rebuilding derived state'') here remote gr2
               | (Inr _, gr2) \<Rightarrow>
                   (Inr \<lparr>so_synchronized = True, so_detail = ustr ''resynchronized to generation '' @ py_str_int g,
                         so_local_generation = g, so_primary_generation = Some g\<rparr>, gr2))))"

definition synchronizer_resynchronize :: "'f::linorder runtime \<Rightarrow> nat \<Rightarrow> ('f shard_group, sync_outcome) st" where
  "synchronizer_resynchronize rt i = sbind (replica_generation i) (\<lambda>here. resynchronize_from rt i here None)"

definition synchronizer_synchronize :: "'f::linorder runtime \<Rightarrow> nat \<Rightarrow> ('f shard_group, sync_outcome) st" where
  "synchronizer_synchronize rt i =
     sbind (on_replica i (on_engine (engine_mark_recovering (ustr ''verifying synchronization with the primary''))))
       (\<lambda>_. sbind (replica_generation i)
       (\<lambda>here. sbind next_delivery
       (\<lambda>dl gr. case on_primary (link_generation dl) gr of
            (Inl _, gr1) \<Rightarrow>
              (let detail = ustr ''primary unreachable, synchronization unverified''
               in sbind (on_replica i (on_engine (engine_mark_recovering detail)))
                    (\<lambda>_. slift (Inr \<lparr>so_synchronized = False, so_detail = detail, so_local_generation = here, so_primary_generation = None\<rparr>)) gr1)
          | (Inr remote, gr1) \<Rightarrow>
              if here = remote
              then sbind (on_replica i (on_engine engine_mark_ready))
                     (\<lambda>_. slift (Inr \<lparr>so_synchronized = True, so_detail = ustr ''synchronized with the primary'',
                        so_local_generation = here, so_primary_generation = Some remote\<rparr>)) gr1
              else if remote < here
              then sync_failed i (ustr ''ahead of the primary: local '' @ py_str_int here @ ustr '', primary '' @ py_str_int remote)
                     here (Some remote) gr1
              else resynchronize_from rt i here (Some remote) gr1)))"

definition internal_resynchronize :: "'f::linorder runtime \<Rightarrow> nat \<Rightarrow> 'f shard_group \<Rightarrow> replication_response response \<times> 'f shard_group" where
  "internal_resynchronize rt i =
     serve (\<lambda>_. 200)
       (sbind (on_replica i require_replica)
         (\<lambda>_. sbind (synchronizer_resynchronize rt i)
         (\<lambda>outcome. slift (if \<not> so_synchronized outcome then Inl (HTTPException 503)
            else Inr \<lparr>rp_outcome = ustr ''resynchronized'', rp_generation = so_local_generation outcome\<rparr>))))"

text \<open>Startup of a replica: recover from its own database, then check against the primary. A failure to
  recover aborts startup.\<close>

definition replica_startup :: "'f::linorder runtime \<Rightarrow> nat \<Rightarrow> ('f shard_group, sync_outcome) st" where
  "replica_startup rt i =
     sbind (on_replica i (on_engine (engine_initialize rt))) (\<lambda>_. synchronizer_synchronize rt i)"

end
