(* ===== verification/Coordinator.thy ===== *)
theory Coordinator
  imports Node
begin

text \<open>
  \<open>app/cluster/coordinator.py\<close>: routing of writes to primaries, the two-round lexical search, semantic and
  hybrid search, and the reports on the cluster. A fan-out awaits every shard and then looks at the
  outcomes in shard order, so it is a map over the shards; the operation lock is what lets each client
  stand for one state of its copy during an operation.
\<close>

section \<open>State\<close>

record ('f, 'w) coordinator =
  co_router :: shard_router
  co_topology :: "('f, 'w) shard_client cluster_topology"
  co_embedder :: "'f embedder option"

definition mk_coordinator ::
    "shard_router \<Rightarrow> ('f, 'w) shard_client cluster_topology \<Rightarrow> 'f embedder option \<Rightarrow> ('f, 'w) coordinator res" where
  "mk_coordinator router topology embedder =
     (if ct_shard_count topology \<noteq> ro_shard_count router then Inl ValueError
      else Inr \<lparr>co_router = router, co_topology = topology, co_embedder = embedder\<rparr>)"

definition co_semantic_identity :: "('f, 'w) coordinator \<Rightarrow> semantic_identity option" where
  "co_semantic_identity co = map_option em_identity (co_embedder co)"

section \<open>Internals\<close>

text \<open>\<open>_gather\<close>: all results, or the numbers of the shards that failed.\<close>

fun gather_outcomes :: "nat \<Rightarrow> 'a res list \<Rightarrow> 'a list \<times> nat list" where
  "gather_outcomes shard [] = ([], [])"
| "gather_outcomes shard (outcome # rest) =
     (case gather_outcomes (shard + 1) rest of (results, failed) \<Rightarrow>
        (case outcome of Inl _ \<Rightarrow> (results, shard # failed) | Inr a \<Rightarrow> (a # results, failed)))"

definition gather :: "'a res list \<Rightarrow> 'a list res" where
  "gather outcomes =
     (case gather_outcomes 0 outcomes of (results, failed) \<Rightarrow>
        if failed \<noteq> [] then Inl (DistributedSearchError failed) else Inr results)"

text \<open>The loop over a shard's copies, primary first, until one answers.\<close>

fun from_any_copy :: "int \<Rightarrow> ('c \<Rightarrow> 'a res) \<Rightarrow> 'c list \<Rightarrow> 'a res" where
  "from_any_copy shard ask [] = Inl (ShardCopiesExhaustedError (nat shard))"
| "from_any_copy shard ask (c # cs) =
     (case ask c of Inr a \<Rightarrow> Inr a
      | Inl e \<Rightarrow> if is_ClusterError e then from_any_copy shard ask cs else Inl e)"

definition stats_from_any_copy ::
    "('f, 'w) shard_client shard_copies \<Rightarrow> pystr list \<Rightarrow> (('f, 'w) shard_client \<times> corpus_stats) res" where
  "stats_from_any_copy copies terms =
     from_any_copy (sc_shard_id copies) (\<lambda>c. ebind (cl_corpus_stats c terms) (\<lambda>s. Inr (c, s))) (serving_order copies)"

definition index_stats_from_any_copy :: "('f, 'w) shard_client shard_copies \<Rightarrow> 'f index_stats res" where
  "index_stats_from_any_copy copies =
     from_any_copy (sc_shard_id copies) cl_index_stats (serving_order copies)"

definition semantic_from_any_copy ::
    "('f, 'w) shard_client shard_copies \<Rightarrow> 'f ndarray \<Rightarrow> int \<Rightarrow> semantic_identity \<Rightarrow> 'f search_results res" where
  "semantic_from_any_copy copies vector limit identity =
     from_any_copy (sc_shard_id copies) (\<lambda>c. cl_semantic_search c vector limit identity) (serving_order copies)"

definition select_and_collect ::
    "('f, 'w) coordinator \<Rightarrow> pystr list \<Rightarrow> (('f, 'w) shard_client \<times> corpus_stats) list res" where
  "select_and_collect co terms =
     gather (map (\<lambda>copies. stats_from_any_copy copies terms) (ct_shards (co_topology co)))"

definition fan_out_search ::
    "pystr \<Rightarrow> int \<Rightarrow> corpus_stats \<Rightarrow> ('f, 'w) shard_client list \<Rightarrow> 'f search_results list res" where
  "fan_out_search query limit stats pinned = gather (map (\<lambda>c. cl_search c query limit stats) pinned)"

definition merge_results :: "'f::linorder search_results list \<Rightarrow> int \<Rightarrow> 'f search_results" where
  "merge_results shard_results limit =
     (let candidates = sort_key (\<lambda>hit. rank_key (sr_score hit) (sr_document_id hit)) (concat (map srs_results shard_results))
      in \<lparr>srs_total = sum_list (map srs_total shard_results), srs_results = py_take limit candidates\<rparr>)"

section \<open>Mutation\<close>

definition coordinator_index_document :: "('f, 'w) coordinator \<Rightarrow> document \<Rightarrow> ('w, bool) st" where
  "coordinator_index_document co doc =
     sbind (slift (shard_for (co_router co) (document_id doc)))
       (\<lambda>shard. sbind (slift (primary_for (co_topology co) shard))
       (\<lambda>primary. cl_put_document primary doc))"

definition coordinator_delete_document :: "('f, 'w) coordinator \<Rightarrow> pystr \<Rightarrow> ('w, unit) st" where
  "coordinator_delete_document co d =
     sbind (slift (shard_for (co_router co) d))
       (\<lambda>shard. sbind (slift (primary_for (co_topology co) shard))
       (\<lambda>primary. cl_delete_document primary d))"

section \<open>Queries\<close>

definition empty_results :: "'f search_results" where
  "empty_results = \<lparr>srs_total = 0, srs_results = []\<rparr>"

definition coordinator_search_locked ::
    "('f::linorder, 'w) coordinator \<Rightarrow> pystr \<Rightarrow> pystr list \<Rightarrow> int \<Rightarrow> 'f search_results res" where
  "coordinator_search_locked co query unique_terms limit =
     ebind (select_and_collect co unique_terms) (\<lambda>selection.
       let stats = merge_corpus_stats (map snd selection)
       in if cs_document_count stats = 0 then Inr empty_results
          else ebind (fan_out_search query limit stats (map fst selection)) (\<lambda>shard_results.
            Inr (merge_results shard_results limit)))"

definition coordinator_search ::
    "unicode \<Rightarrow> ('f::linorder, 'w) coordinator \<Rightarrow> pystr \<Rightarrow> int \<Rightarrow> 'f search_results res" where
  "coordinator_search ud co query limit =
     (let terms = analyze ud query
      in if terms = [] then Inr empty_results
         else coordinator_search_locked co query (sorted_list_of_set (set terms)) limit)"

definition coordinator_semantic_locked ::
    "('f::linorder, 'w) coordinator \<Rightarrow> 'f ndarray \<Rightarrow> int \<Rightarrow> semantic_identity \<Rightarrow> 'f search_results res" where
  "coordinator_semantic_locked co vector limit identity =
     ebind (gather (map (\<lambda>copies. semantic_from_any_copy copies vector limit identity) (ct_shards (co_topology co))))
       (\<lambda>shard_results. Inr (merge_results shard_results limit))"

definition coordinator_semantic_search ::
    "('f::linorder, 'w) coordinator \<Rightarrow> pystr \<Rightarrow> int \<Rightarrow> 'f search_results res" where
  "coordinator_semantic_search co query limit =
     (case co_embedder co of None \<Rightarrow> Inl SemanticDisabledError
      | Some e \<Rightarrow> ebind (em_embed_query e query) (\<lambda>vector.
          coordinator_semantic_locked co vector limit (em_identity e)))"

definition coordinator_hybrid_search ::
    "'f::linorder runtime \<Rightarrow> ('f, 'w) coordinator \<Rightarrow> pystr \<Rightarrow> int \<Rightarrow> fusion_config option \<Rightarrow> 'f hybrid_results res" where
  "coordinator_hybrid_search rt co query limit config =
     (let settings = (case config of Some c \<Rightarrow> c | None \<Rightarrow> default_fusion_config);
          terms = analyze (rt_unicode rt) query
      in if terms = [] then Inr \<lparr>hr_total = 0, hr_results = []\<rparr>
         else case co_embedder co of None \<Rightarrow> Inl SemanticDisabledError
         | Some e \<Rightarrow> ebind (em_embed_query e query) (\<lambda>vector.
             let depth = candidate_depth settings limit
             in ebind (coordinator_search_locked co query (sorted_list_of_set (set terms)) depth) (\<lambda>lexical.
                ebind (coordinator_semantic_locked co vector depth (em_identity e)) (\<lambda>semantic.
                reciprocal_rank_fusion (rt_float rt) lexical semantic limit (Some settings)))))"

section \<open>Reports\<close>

record 'f shard_index_stats =
  sx_shard_id :: int
  sx_document_count :: int
  sx_unique_term_count :: int
  sx_average_document_length :: 'f

record 'f cluster_stats =
  ck_document_count :: int
  ck_average_document_length :: 'f
  ck_shard_count :: int
  ck_shards :: "'f shard_index_stats list"

definition shard_index_stats_of :: "int \<times> 'f index_stats \<Rightarrow> 'f shard_index_stats" where
  "shard_index_stats_of p = (case p of (shard, s) \<Rightarrow>
     \<lparr>sx_shard_id = shard, sx_document_count = is_document_count s, sx_unique_term_count = is_unique_term_count s,
      sx_average_document_length = is_average_document_length s\<rparr>)"

definition coordinator_index_stats ::
    "'f::linorder runtime \<Rightarrow> ('f, 'w) coordinator \<Rightarrow> 'f cluster_stats res" where
  "coordinator_index_stats rt co =
     ebind (gather (map index_stats_from_any_copy (ct_shards (co_topology co)))) (\<lambda>per_shard.
       let document_count = sum_list (map is_document_count per_shard);
           total_tokens = sum_list (map is_total_token_count per_shard);
           fo = rt_float rt
       in Inr \<lparr>ck_document_count = document_count,
               ck_average_document_length =
                 (if document_count \<noteq> 0 then f_rat fo (of_int total_tokens / of_int document_count) else f_rat fo 0),
               ck_shard_count = ro_shard_count (co_router co),
               ck_shards = map shard_index_stats_of (py_enumerate 0 per_shard)\<rparr>)"

record cluster_readiness =
  cr_ready :: bool
  cr_ready_shards :: "nat list"
  cr_unready_shards :: "nat list"

fun shard_has_serving_copy :: "('f, 'w) shard_client list \<Rightarrow> bool res" where
  "shard_has_serving_copy [] = Inr False"
| "shard_has_serving_copy (c # cs) =
     (case cl_is_ready c of Inr True \<Rightarrow> Inr True | Inr False \<Rightarrow> shard_has_serving_copy cs
      | Inl e \<Rightarrow> if is_ClusterError e then shard_has_serving_copy cs else Inl e)"

definition coordinator_readiness :: "('f, 'w) coordinator \<Rightarrow> cluster_readiness" where
  "coordinator_readiness co =
     (let outcomes = map (\<lambda>copies. shard_has_serving_copy (serving_order copies)) (ct_shards (co_topology co));
          ready = filter (\<lambda>i. outcomes ! i = Inr True) [0..<length outcomes];
          unready = filter (\<lambda>i. outcomes ! i \<noteq> Inr True) [0..<length outcomes]
      in \<lparr>cr_ready = (unready = []), cr_ready_shards = ready, cr_unready_shards = unready\<rparr>)"

record copy_status =
  cp_role :: pystr
  cp_reachable :: bool
  cp_node_id :: pystr
  cp_state :: pystr
  cp_ready :: bool
  cp_generation :: "int option"

record shard_health =
  sh_shard_id :: int
  sh_copies :: "copy_status list"
  sh_search_available :: bool
  sh_write_available :: bool

record cluster_health =
  ch_shard_count :: int
  ch_replication_factor :: int
  ch_search_available :: bool
  ch_write_available :: bool
  ch_shards :: "shard_health list"

definition copy_status_of :: "pystr \<Rightarrow> node_status res \<Rightarrow> copy_status" where
  "copy_status_of role outcome =
     (case outcome of
        Inr s \<Rightarrow> \<lparr>cp_role = role, cp_reachable = True, cp_node_id = ns_node_id s, cp_state = ns_state s,
                  cp_ready = ns_ready s, cp_generation = Some (ns_generation s)\<rparr>
      | Inl _ \<Rightarrow> \<lparr>cp_role = role, cp_reachable = False, cp_node_id = [], cp_state = ustr ''unreachable'',
                  cp_ready = False, cp_generation = None\<rparr>)"

definition shard_health_of :: "('f, 'w) shard_client shard_copies \<Rightarrow> shard_health" where
  "shard_health_of copies =
     (let roles = ustr ''primary'' # replicate (length (sc_replicas copies)) (ustr ''replica'');
          statuses = map2 copy_status_of roles (map cl_node_status (serving_order copies))
      in \<lparr>sh_shard_id = sc_shard_id copies, sh_copies = statuses,
          sh_search_available = list_ex cp_ready statuses,
          sh_write_available = cp_ready (hd statuses)\<rparr>)"

definition coordinator_cluster_status :: "('f, 'w) coordinator \<Rightarrow> cluster_health" where
  "coordinator_cluster_status co =
     (let shards = map shard_health_of (ct_shards (co_topology co))
      in \<lparr>ch_shard_count = ro_shard_count (co_router co),
          ch_replication_factor = ct_replication_factor (co_topology co),
          ch_search_available = list_all sh_search_available shards,
          ch_write_available = list_all sh_write_available shards, ch_shards = shards\<rparr>)"

end
