(* ===== verification/Coordinator_Search.thy ===== *)
theory Coordinator_Search
  imports Coordinator
begin

text \<open>
  Distributed search is single-node search: the fan-out and merge lemmas, and the coordinator's guarantees
  proved once over the transport contract.
\<close>

section \<open>Fan-outs\<close>

lemma gather_outcomes_failed:
  "snd (gather_outcomes n outcomes) = map ((+) n) (filter (\<lambda>i. isl (outcomes ! i)) [0..<length outcomes])"
proof (induction outcomes arbitrary: n)
  case (Cons outcome outcomes)
  have upt: "[0..<length (outcome # outcomes)] = 0 # map Suc [0..<length outcomes]"
    by (simp del: upt_Suc add: upt_conv_Cons map_Suc_upt)
  have "filter (\<lambda>i. isl ((outcome # outcomes) ! i)) [0..<length (outcome # outcomes)]
      = (if isl outcome then [0] else []) @ map Suc (filter (\<lambda>i. isl (outcomes ! i)) [0..<length outcomes])"
    unfolding upt by (simp add: filter_map comp_def)
  then show ?case
    using Cons.IH [of "n + 1"] by (auto simp: comp_def simp del: upt_Suc split: sum.splits prod.splits)
qed simp

lemma gather_outcomes_results:
  "snd (gather_outcomes n outcomes) = [] \<Longrightarrow> outcomes = map Inr (fst (gather_outcomes n outcomes))"
proof (induction outcomes arbitrary: n)
  case (Cons outcome outcomes)
  obtain rs fs where g: "gather_outcomes (n + 1) outcomes = (rs, fs)" by fastforce
  from Cons.prems g obtain a where a: "outcome = Inr a" "fs = []" by (auto split: sum.splits)
  from Cons.IH [of "n + 1"] g a(2) have "outcomes = map Inr rs" by simp
  then show ?case using g a(1) by simp
qed simp

lemma map_plus_zero [simp]: "map ((+) (0 :: nat)) xs = xs"
  by (simp add: map_idI)

lemma gather_Inr: "gather outcomes = Inr xs \<Longrightarrow> outcomes = map Inr xs"
  using gather_outcomes_results [of 0 outcomes] by (auto simp: gather_def split: prod.splits if_splits)

lemma gather_map_Inr [simp]: "gather (map Inr xs) = Inr xs"
proof (cases "gather (map Inr xs)")
  case (Inl e)
  have "filter (\<lambda>i. isl (map Inr xs ! i)) [0..<length xs] = []" by (simp add: filter_empty_conv)
  then have "snd (gather_outcomes 0 (map Inr xs)) = []" using gather_outcomes_failed [of 0 "map Inr xs"] by simp
  with Inl show ?thesis by (auto simp: gather_def split: prod.splits)
next
  case (Inr ys)
  from gather_Inr [OF this] have "xs = ys" by (auto simp: inj_def dest: map_injective)
  with Inr show ?thesis by simp
qed

lemma gather_Inl:
  "gather outcomes = Inl e \<Longrightarrow>
     e = DistributedSearchError (filter (\<lambda>i. isl (outcomes ! i)) [0..<length outcomes])
     \<and> (\<exists>i < length outcomes. isl (outcomes ! i))"
  using gather_outcomes_failed [of 0 outcomes]
  by (cases "gather_outcomes 0 outcomes") (auto simp: gather_def filter_empty_conv split: if_splits)

lemma from_any_copy_Inr:
  "from_any_copy shard ask cs = Inr a \<Longrightarrow> \<exists>c\<in>set cs. ask c = Inr a"
  by (induction cs) (auto split: sum.splits if_splits)

lemma from_any_copy_skips:
  "\<forall>c\<in>set pre. \<exists>e. ask c = Inl e \<and> is_ClusterError e \<Longrightarrow> from_any_copy shard ask (pre @ cs) = from_any_copy shard ask cs"
  by (induction pre) auto

lemma list_all2_selection:
  assumes "\<And>x. x \<in> set xs \<Longrightarrow> \<exists>y. Q x y"
  shows "\<exists>ys. list_all2 Q xs ys"
  using assms
proof (induction xs)
  case (Cons x xs)
  then obtain y ys where "Q x y" "list_all2 Q xs ys" by (meson list.set_intros)
  then show ?case by blast
qed (auto intro: exI [of _ "[]"])

section \<open>Merging pages\<close>

lemma map_of_concat_union:
  "dict_ok (concat xss) \<Longrightarrow> map_of (concat xss) = union_corpus (map map_of xss)"
proof (induction xss)
  case (Cons xs xss)
  have "dom (map_of xs) \<inter> dom (map_of (concat xss)) = {}" using Cons.prems by (simp add: dom_map_of_conv_image_fst)
  then have "map_of (concat xss) ++ map_of xs = map_of xs ++ map_of (concat xss)" by (metis map_add_comm)
  then show ?case using Cons by simp
qed simp

lemma dict_ok_concat:
  assumes "disjoint_corpora (map map_of xss)" "\<And>xs. xs \<in> set xss \<Longrightarrow> dict_ok xs"
  shows "dict_ok (concat xss)"
  using assms
proof (induction xss)
  case (Cons xs xss)
  then have ok: "dict_ok (concat xss)" by simp
  have "dom (map_of xs) \<inter> dom (map_of (concat xss)) = {}" using Cons.prems(1) map_of_concat_union [OF ok] by simp
  then show ?case using Cons.prems(2) ok by (auto simp: dom_map_of_conv_image_fst)
qed simp

lemma disjoint_corpora_sub:
  assumes "disjoint_corpora (map fst ps)" "\<And>C S. (C, S) \<in> set ps \<Longrightarrow> dom S \<subseteq> dom C"
  shows "disjoint_corpora (map snd ps)"
  using assms
proof (induction ps)
  case (Cons p ps)
  obtain C S where p: "p = (C, S)" by (cases p)
  have "dom S \<subseteq> dom C" using Cons.prems(2) p by simp
  moreover have "dom (union_corpus (map snd ps)) \<subseteq> dom (union_corpus (map fst ps))"
  proof
    fix d assume "d \<in> dom (union_corpus (map snd ps))"
    then have "d \<in> (\<Union>q\<in>set ps. dom (snd q))" by (simp add: dom_union_corpus)
    then obtain q where q: "q \<in> set ps" "d \<in> dom (snd q)" by blast
    then have "d \<in> dom (fst q)" using Cons.prems(2) [of "fst q" "snd q"] by auto
    with q(1) show "d \<in> dom (union_corpus (map fst ps))" by (simp only: dom_union_corpus) auto
  qed
  moreover have "dom C \<inter> dom (union_corpus (map fst ps)) = {}" "disjoint_corpora (map fst ps)"
    using Cons.prems(1) p by simp_all
  moreover have "disjoint_corpora (map snd ps)" using Cons.IH Cons.prems p by simp
  ultimately show ?case unfolding p by simp blast
qed simp

lemma hits_of_cong: "(\<And>d s. (d, s) \<in> set xs \<Longrightarrow> C d = C' d) \<Longrightarrow> hits_of C xs = hits_of C' xs"
  by (auto simp: hits_of_def)

lemma hits_of_concat: "hits_of C (concat xss) = concat (map (hits_of C) xss)"
  by (induction xss) (auto simp: hits_of_def)

lemma take_hits: "take k (hits_of C xs) = hits_of C (take k xs)"
  by (simp add: hits_of_def take_map)

lemma sort_hits: "sort_key (\<lambda>h. rank_key (sr_score h) (sr_document_id h)) (hits_of C xs) = hits_of C (sort_key by_rank xs)"
proof -
  let ?g = "\<lambda>(d, s). \<lparr>sr_document_id = d, sr_score = s, sr_text = the (C d)\<rparr>"
  let ?f = "\<lambda>h. rank_key (sr_score h) (sr_document_id h)"
  have key: "(\<lambda>x. ?f (?g x)) = by_rank" by (auto simp: by_rank_def fun_eq_iff)
  show ?thesis unfolding hits_of_def by (rule map_sort_key [of ?g ?f xs, unfolded key, symmetric])
qed

lemma card_union_corpus:
  "disjoint_corpora Ms \<Longrightarrow> \<forall>M\<in>set Ms. finite (dom M) \<Longrightarrow> int (card (dom (union_corpus Ms))) = sum_list (map (\<lambda>M. int (card (dom M))) Ms)"
proof (induction Ms)
  case (Cons M Ms)
  have "finite (dom M)" "finite (dom (union_corpus Ms))" using Cons.prems(2) by (auto simp: dom_union_corpus)
  then have "card (dom M \<union> dom (union_corpus Ms)) = card (dom M) + card (dom (union_corpus Ms))"
    using Cons.prems(1) by (intro card_Un_disjoint) auto
  then show ?case using Cons by (simp add: Un_commute)
qed simp

lemma merge_pages:
  assumes dis: "disjoint_corpora (map fst ps)"
    and sub: "\<And>C S. (C, S) \<in> set ps \<Longrightarrow> dom S \<subseteq> dom C \<and> finite (dom C)" and l: "0 \<le> limit"
  shows "merge_results (map (\<lambda>(C, S). ranked_page C S limit) ps) limit
    = ranked_page (union_corpus (map fst ps)) (union_corpus (map snd ps)) limit"
proof -
  let ?U = "union_corpus (map fst ps)" and ?k = "nat limit"
  let ?xss = "map (\<lambda>(C, S). ranking S) ps"
  have fin: "finite (dom S)" if "(C, S) \<in> set ps" for C S using sub [OF that] finite_subset by blast
  have maps: "map map_of ?xss = map snd ps" using fin by (auto simp: ranking_dict)
  have dS: "disjoint_corpora (map snd ps)" using disjoint_corpora_sub [OF dis] sub by blast
  have ok: "dict_ok (concat ?xss)"
  proof (rule dict_ok_concat)
    show "disjoint_corpora (map map_of ?xss)" by (simp only: maps dS)
    show "dict_ok xs" if "xs \<in> set ?xss" for xs using that fin by (auto simp: ranking_dict)
  qed
  have S: "map_of (concat ?xss) = union_corpus (map snd ps)" by (rule map_of_concat_union [OF ok, unfolded maps])
  have "hits_of C (take ?k (ranking S)) = hits_of ?U (take ?k (ranking S))" if p: "(C, S) \<in> set ps" for C S
  proof (rule hits_of_cong)
    fix d s assume "(d, s) \<in> set (take ?k (ranking S))"
    then have "d \<in> dom S" using fst_take_ranking [OF fin [OF p], of ?k] by force
    then obtain t where "C d = Some t" using sub [OF p] by blast
    then show "C d = ?U d" using union_corpus_lookup [OF dis] p by force
  qed
  then have "map srs_results (map (\<lambda>(C, S). ranked_page C S limit) ps) = map (hits_of ?U) (map (take ?k) ?xss)"
    by (auto simp: ranked_page_def)
  then have "concat (map srs_results (map (\<lambda>(C, S). ranked_page C S limit) ps)) = hits_of ?U (concat (map (take ?k) ?xss))"
    by (simp only: hits_of_concat)
  moreover have "take ?k (sort_key by_rank (concat (map (take ?k) ?xss))) = take ?k (ranking (union_corpus (map snd ps)))"
  proof -
    have "map (\<lambda>xs. take ?k (sort_key by_rank xs)) ?xss = map (take ?k) ?xss" using fin by (auto simp: ranking_dict)
    with merge_rankings [OF ok, of ?k] show ?thesis by (simp only: S)
  qed
  ultimately have "srs_results (merge_results (map (\<lambda>(C, S). ranked_page C S limit) ps) limit) =
      hits_of ?U (take ?k (ranking (union_corpus (map snd ps))))"
    using l by (simp add: merge_results_def sort_hits take_hits del: map_map)
  moreover have "int (card (dom (union_corpus (map snd ps)))) = sum_list (map srs_total (map (\<lambda>(C, S). ranked_page C S limit) ps))"
    using card_union_corpus [OF dS] fin by (force simp: ranked_page_def comp_def case_prod_unfold)
  ultimately show ?thesis by (simp add: merge_results_def ranked_page_def Let_def)
qed

section \<open>Statistics of a union of corpora\<close>

lemma stats_describe_terms: "set terms = set terms' \<Longrightarrow> stats_describe ud C terms s = stats_describe ud C terms' s"
  by (simp add: stats_describe_def)

lemma merge_describes:
  assumes parts: "list_all2 (\<lambda>C p. stats_describe ud C terms p \<and> dict_ok (cs_document_frequencies p)) Cs parts"
    and dis: "disjoint_corpora Cs" and fin: "\<forall>C\<in>set Cs. finite (dom C)"
  shows "stats_describe ud (union_corpus Cs) terms (merge_corpus_stats parts)"
proof -
  have "\<forall>p\<in>set parts. dict_ok (cs_document_frequencies p)"
    using parts by (auto simp: list_all2_conv_all_nth in_set_conv_nth)
  note sums = merge_corpus_stats_sums [OF this] and shards = sum_shards [OF dis fin]
  have "map cs_document_count parts = map (\<lambda>C. \<Sum>d \<in> {d \<in> dom C. True}. 1) Cs"
    by (rule sym, rule list_all2_map_eq [OF parts]) (simp add: stats_describe_def)
  then have "cs_document_count (merge_corpus_stats parts) = int (card (dom (union_corpus Cs)))"
    using sums(1) shards [where P = "\<lambda>_. True" and h = "\<lambda>_. 1"] by simp
  moreover have "map cs_total_document_length parts = map (\<lambda>C. \<Sum>d \<in> {d \<in> dom C. True}. int (length (analyze ud (the (C d))))) Cs"
    by (rule sym, rule list_all2_map_eq [OF parts]) (simp add: stats_describe_def)
  then have "cs_total_document_length (merge_corpus_stats parts) = (\<Sum>d\<in>dom (union_corpus Cs). int (length (analyze ud (the (union_corpus Cs d)))))"
    using sums(2) shards [where P = "\<lambda>_. True" and h = "\<lambda>t. int (length (analyze ud t))"] by simp
  moreover have "cs_document_frequency (merge_corpus_stats parts) t =
      (if t \<in> set terms then int (card {d \<in> dom (union_corpus Cs). t \<in> set (analyze ud (the (union_corpus Cs d)))}) else 0)" for t
  proof -
    have "map (\<lambda>p. cs_document_frequency p t) parts =
        map (\<lambda>C. if t \<in> set terms then \<Sum>d \<in> {d \<in> dom C. t \<in> set (analyze ud (the (C d)))}. 1 else 0) Cs"
      by (rule sym, rule list_all2_map_eq [OF parts]) (simp add: stats_describe_def)
    then show ?thesis
      using sums(3) [of t] shards [where P = "\<lambda>w. t \<in> set (analyze ud w)" and h = "\<lambda>_. 1"] by (simp add: map_replicate_const sum_list_replicate)
  qed
  ultimately show ?thesis by (simp add: stats_describe_def)
qed

lemma describes_ok:
  assumes "stats_describe ud C terms s" "finite (dom C)"
  shows "stats_ok s"
proof -
  have "card {d \<in> dom C. t \<in> set (analyze ud (the (C d)))} \<le> card (dom C)" for t
    by (rule card_mono [OF assms(2)]) auto
  then show ?thesis using assms(1) by (simp add: stats_describe_def stats_ok_def sum_nonneg)
qed

lemma lexical_scores_empty [simp]: "lexical_scores rt params stats terms (\<lambda>x. None) = Map.empty"
  by (rule ext) (simp add: lexical_scores_def)

lemma ranked_page_empty [simp]: "ranked_page C (\<lambda>x. None) limit = empty_results"
  by (simp add: ranked_page_def empty_results_def hits_of_def ranking_def)

text \<open>Scores that are computed document by document.\<close>

lemma pointwise_union:
  assumes F: "\<And>C d. F C d = Option.bind (C d) (g d)" and "disjoint_corpora Cs"
  shows "union_corpus (map F Cs) = F (union_corpus Cs)"
  using assms(2)
proof (induction Cs)
  case Nil
  show ?case by (simp add: F fun_eq_iff)
next
  case (Cons C Cs)
  have "(F C ++ F (union_corpus Cs)) d = F (C ++ union_corpus Cs) d" for d
  proof (cases "union_corpus Cs d")
    case None
    then show ?thesis by (simp add: F map_add_def)
  next
    case (Some t)
    then have "C d = None" using Cons.prems by (auto simp: disjoint_iff domIff)
    with Some show ?thesis by (simp add: F map_add_def split: option.split)
  qed
  then have "F C ++ F (union_corpus Cs) = F (C ++ union_corpus Cs)" by (rule ext)
  then show ?case using Cons by simp
qed

lemma merge_scored:
  assumes F: "\<And>C d. F C d = Option.bind (C d) (g d)" and dis: "disjoint_corpora Cs"
    and fin: "\<forall>C\<in>set Cs. finite (dom C)" and l: "0 \<le> limit"
  shows "merge_results (map (\<lambda>C. ranked_page C (F C) limit) Cs) limit = ranked_page (union_corpus Cs) (F (union_corpus Cs)) limit"
proof -
  let ?ps = "map (\<lambda>C. (C, F C)) Cs"
  have ps: "map snd ?ps = map F Cs" "map fst ?ps = Cs" by (simp_all add: comp_def)
  have sub: "dom (F C) \<subseteq> dom C" for C by (auto simp: F bind_eq_Some_conv)
  have "merge_results (map (\<lambda>(C, S). ranked_page C S limit) ?ps) limit
      = ranked_page (union_corpus (map fst ?ps)) (union_corpus (map snd ?ps)) limit"
  proof (rule merge_pages)
    show "disjoint_corpora (map fst ?ps)" by (simp only: ps dis)
    show "dom S \<subseteq> dom C \<and> finite (dom C)" if q: "(C, S) \<in> set ?ps" for C S
    proof -
      from q have C: "C \<in> set Cs" "S = F C" by auto
      show ?thesis unfolding C(2) using sub fin C(1) by blast
    qed
  qed (rule l)
  moreover have "map (\<lambda>(C, S). ranked_page C S limit) ?ps = map (\<lambda>C. ranked_page C (F C) limit) Cs" by simp
  moreover have "union_corpus (map F Cs) = F (union_corpus Cs)" by (rule pointwise_union [OF _ dis]) (rule F)
  ultimately show ?thesis by (simp only: ps)
qed

lemma lexical_scores_bind:
  "lexical_scores rt params stats terms C d =
     Option.bind (C d) (\<lambda>t. doc_score (rt_float rt) params stats terms (analyze (rt_unicode rt) t))"
  by (simp add: lexical_scores_def)

lemma similarity_union: "union_corpus (map (similarity np q) Vs) = similarity np q (union_corpus Vs)"
proof (induction Vs)
  case Nil
  show ?case by (simp add: similarity_def fun_eq_iff)
next
  case (Cons V Vs)
  have "similarity np q (V ++ W) = similarity np q V ++ similarity np q W" for W
    by (rule ext) (simp add: similarity_def map_add_def split: option.split)
  then show ?case using Cons by simp
qed

section \<open>Selected copies\<close>

text \<open>The corpus of a copy, and shards that share no document, whichever of their copies serve.\<close>

abbreviation copy_corpus :: "'net \<times> 'f node \<Rightarrow> pystr \<rightharpoonup> pystr" where
  "copy_corpus p \<equiv> engine_corpus (no_engine (snd p))"

abbreviation copy_vectors :: "'net \<times> 'f node \<Rightarrow> pystr \<rightharpoonup> 'f list" where
  "copy_vectors p \<equiv> stored_vectors (no_engine (snd p))"

definition disjoint_shards :: "('net \<times> 'f node) list list \<Rightarrow> bool" where
  "disjoint_shards cs \<longleftrightarrow> (\<forall>i < length cs. \<forall>j < length cs. i \<noteq> j \<longrightarrow>
     (\<forall>p\<in>set (cs ! i). \<forall>q\<in>set (cs ! j). dom (copy_corpus p) \<inter> dom (copy_corpus q) = {}))"

definition selected :: "('net \<times> 'f node) list \<Rightarrow> ('net \<times> 'f node) list list \<Rightarrow> bool" where
  "selected sel cs \<longleftrightarrow> list_all2 (\<lambda>p copies. p \<in> set copies \<and> en_state (no_engine (snd p)) = READY) sel cs"

lemma selected_disjoint:
  assumes "selected sel cs" "disjoint_shards cs"
  shows "disjoint_corpora (map copy_corpus sel)"
  using assms
proof (induction sel arbitrary: cs)
  case (Cons p sel)
  then obtain copies cs' where cs: "cs = copies # cs'" "p \<in> set copies" "selected sel cs'"
    by (auto simp: selected_def list_all2_Cons1)
  have "disjoint_shards cs'"
    using Cons.prems(2) unfolding disjoint_shards_def cs(1) by (metis Suc_less_eq length_Cons nat.inject nth_Cons_Suc)
  moreover have "dom (copy_corpus p) \<inter> dom (copy_corpus q) = {}" if q: "q \<in> set sel" for q
  proof -
    from q cs(3) obtain j where "j < length cs'" "q \<in> set (cs' ! j)"
      by (auto simp: selected_def list_all2_conv_all_nth in_set_conv_nth)
    then show ?thesis
      using Cons.prems(2) cs unfolding disjoint_shards_def
      by (metis Suc_less_eq length_Cons nat.distinct(1) nth_Cons_0 nth_Cons_Suc zero_less_Suc)
  qed
  ultimately show ?case using Cons.IH [OF cs(3)] by (auto simp: dom_union_corpus)
qed (simp add: selected_def)

definition copies_ok :: "'f runtime \<Rightarrow> 'f bm25_params \<Rightarrow> ('net \<times> 'f node) list list \<Rightarrow> bool" where
  "copies_ok rt params cs \<longleftrightarrow>
     (\<forall>copies\<in>set cs. \<forall>p\<in>set copies. engine_inv rt (no_engine (snd p)) \<and> en_scorer (no_engine (snd p)) = params)"

lemma selected_consistent:
  assumes "selected sel cs" "copies_ok rt params cs" "p \<in> set sel"
  shows "engine_consistent rt (no_engine (snd p))" "en_scorer (no_engine (snd p)) = params" "en_state (no_engine (snd p)) = READY"
proof -
  from assms(1,3) obtain copies where "copies \<in> set cs" "p \<in> set copies" and ready: "en_state (no_engine (snd p)) = READY"
    by (auto simp: selected_def list_all2_conv_all_nth in_set_conv_nth) (metis nth_mem)
  then have "engine_inv rt (no_engine (snd p))" "en_scorer (no_engine (snd p)) = params" using assms(2) by (auto simp: copies_ok_def)
  with ready show "engine_consistent rt (no_engine (snd p))" "en_scorer (no_engine (snd p)) = params" "en_state (no_engine (snd p)) = READY"
    by (auto dest: engine_invD(3))
qed

text \<open>The statistics the coordinator sums describe the union of the selected corpora.\<close>

lemma selected_stats:
  assumes sel: "selected sel cs" and ok: "copies_ok rt params cs" and dis: "disjoint_shards cs"
    and parts: "parts = map (\<lambda>p. index_corpus_stats (en_index (no_engine (snd p))) (sorted_list_of_set (set terms))) sel"
  shows "stats_describe (rt_unicode rt) (union_corpus (map copy_corpus sel)) terms (merge_corpus_stats parts)"
    "stats_ok (merge_corpus_stats parts)" "finite (dom (union_corpus (map copy_corpus sel)))"
proof -
  let ?Cs = "map copy_corpus sel" and ?ut = "sorted_list_of_set (set terms)"
  note cons = selected_consistent [OF sel ok]
  have fin: "\<forall>C\<in>set ?Cs. finite (dom C)" using cons(1) engine_corpus_finite by auto
  have "stats_describe (rt_unicode rt) (union_corpus ?Cs) ?ut (merge_corpus_stats parts)"
  proof (rule merge_describes [OF _ selected_disjoint [OF sel dis] fin])
    show "list_all2 (\<lambda>C p. stats_describe (rt_unicode rt) C ?ut p \<and> dict_ok (cs_document_frequencies p)) ?Cs parts"
      unfolding parts using consistent_stats [OF cons(1)]
      by (simp add: list_all2_map1 list_all2_map2 list_all2_same index_corpus_stats_simps)
  qed
  then show d: "stats_describe (rt_unicode rt) (union_corpus ?Cs) terms (merge_corpus_stats parts)"
    by (simp add: stats_describe_terms [of ?ut terms])
  show finU: "finite (dom (union_corpus ?Cs))" using fin by (auto simp: dom_union_corpus)
  show "stats_ok (merge_corpus_stats parts)" by (rule describes_ok [OF d finU])
qed

text \<open>The clients a coordinator has, shard by shard and primary first, are clients of the nodes \<open>cs\<close>.\<close>

definition serves :: "('net \<Rightarrow> 'f node \<Rightarrow> ('f, 'w) shard_client) \<Rightarrow> ('f, 'w) coordinator \<Rightarrow> ('net \<times> 'f node) list list \<Rightarrow> bool" where
  "serves client co cs \<longleftrightarrow> map serving_order (ct_shards (co_topology co)) = map (map (\<lambda>(net, n). client net n)) cs"

context shard_transport
begin

lemma selection_from_copies:
  assumes serves: "serves client co cs"
    and out: "gather (map (\<lambda>copies. from_any_copy (sc_shard_id copies) ask (serving_order copies)) (ct_shards (co_topology co))) = Inr results"
    and ready: "\<And>net n a. ask (client net n) = Inr a \<Longrightarrow> en_state (no_engine n) = READY"
  shows "\<exists>sel. selected sel cs \<and> list_all2 (\<lambda>p a. ask (client (fst p) (snd p)) = Inr a) sel results"
proof -
  let ?shards = "ct_shards (co_topology co)"
  note out = gather_Inr [OF out]
  have len: "length results = length cs" "length ?shards = length cs"
    using arg_cong [OF out, of length] arg_cong [OF serves [unfolded serves_def], of length] by simp_all
  have "\<exists>p\<in>set (cs ! i). ask (client (fst p) (snd p)) = Inr (results ! i)" if i: "i < length cs" for i
  proof -
    have "from_any_copy (sc_shard_id (?shards ! i)) ask (serving_order (?shards ! i)) = Inr (results ! i)"
      using arg_cong [OF out, of "\<lambda>xs. xs ! i"] i len by simp
    moreover have "serving_order (?shards ! i) = map (\<lambda>(net, n). client net n) (cs ! i)"
      using arg_cong [OF serves [unfolded serves_def], of "\<lambda>xs. xs ! i"] i len by simp
    ultimately have "\<exists>c\<in>set (map (\<lambda>(net, n). client net n) (cs ! i)). ask c = Inr (results ! i)"
      by (metis from_any_copy_Inr)
    then show ?thesis by (auto simp: case_prod_unfold)
  qed
  then obtain f where f: "\<And>i. i < length cs \<Longrightarrow> f i \<in> set (cs ! i) \<and> ask (client (fst (f i)) (snd (f i))) = Inr (results ! i)"
    by metis
  then have "selected (map f [0..<length cs]) cs" using ready by (auto simp: selected_def list_all2_conv_all_nth)
  moreover have "list_all2 (\<lambda>p a. ask (client (fst p) (snd p)) = Inr a) (map f [0..<length cs]) results"
    using f len by (auto simp: list_all2_conv_all_nth)
  ultimately show ?thesis by blast
qed

lemma selection_exists:
  assumes "serves client co cs" "select_and_collect co terms = Inr selection"
  shows "\<exists>sel. selected sel cs \<and> map fst selection = map (\<lambda>(net, n). client net n) sel
    \<and> map snd selection = map (\<lambda>p. index_corpus_stats (en_index (no_engine (snd p))) terms) sel"
proof -
  let ?ask = "\<lambda>c. ebind (cl_corpus_stats c terms) (\<lambda>s. Inr (c, s))"
  have a: "en_state (no_engine n) = READY \<and> a = (client net n, index_corpus_stats (en_index (no_engine n)) terms)"
    if "?ask (client net n) = Inr a" for net n a
    using that stats_ready by (auto simp: ebind_Inr_iff)
  from selection_from_copies [OF assms(1) assms(2) [unfolded select_and_collect_def stats_from_any_copy_def]] a
  obtain sel where sel: "selected sel cs" "list_all2 (\<lambda>p a. ?ask (client (fst p) (snd p)) = Inr a) sel selection" by blast
  have "list_all2 (\<lambda>p a. a = (client (fst p) (snd p), index_corpus_stats (en_index (no_engine (snd p))) terms)) sel selection"
    by (rule list_all2_mono [OF sel(2)]) (use a in blast)
  then have "map fst selection = map (\<lambda>(net, n). client net n) sel
    \<and> map snd selection = map (\<lambda>p. index_corpus_stats (en_index (no_engine (snd p))) terms) sel"
    by (induction rule: list_all2_induct) auto
  with sel(1) show ?thesis by blast
qed

lemma fan_out_pages:
  assumes sel: "selected sel cs" and ok: "copies_ok rt params cs" and ar: "bm25_arithmetic (rt_float rt) params" and l: "0 \<le> limit"
    and sok: "stats_ok stats" and rs: "fan_out_search query limit stats (map (\<lambda>(net, n). client net n) sel) = Inr rs"
  shows "rs = map (\<lambda>C. ranked_page C (lexical_scores rt params stats (analyze (rt_unicode rt) query) C) limit) (map copy_corpus sel)"
proof -
  let ?terms = "analyze (rt_unicode rt) query"
  from gather_Inr [OF rs [unfolded fan_out_search_def]]
  have out: "map (\<lambda>c. cl_search c query limit stats) (map (\<lambda>(net, n). client net n) sel) = map Inr rs" .
  have len: "length rs = length sel" using arg_cong [OF out, of length] by (simp only: length_map)
  have "rs ! i = ranked_page (copy_corpus (sel ! i)) (lexical_scores rt params stats ?terms (copy_corpus (sel ! i))) limit"
    if i: "i < length sel" for i
  proof -
    let ?e = "no_engine (snd (sel ! i))"
    note c = selected_consistent [OF sel ok nth_mem [OF i]]
    have "cl_search (client (fst (sel ! i)) (snd (sel ! i))) query limit stats = Inr (rs ! i)"
      using arg_cong [OF out, of "\<lambda>xs. xs ! i"] i len by (simp add: case_prod_unfold)
    from search_answer [OF this] have "search_locked rt ?e ?terms limit (Some stats) = Inr (rs ! i)"
      using c(3) by (simp add: engine_search_def require_operational_def)
    then show ?thesis
      using search_locked_page [where given = "Some stats" and stats = stats and terms = ?terms and rt = rt and en = ?e and limit = limit] ar c l sok by simp
  qed
  then show ?thesis using len by (intro nth_equalityI) auto
qed

lemma search_matches:
  assumes serves: "serves client co cs" and ok: "copies_ok rt params cs" and ar: "bm25_arithmetic (rt_float rt) params"
    and dis: "disjoint_shards cs" and l: "0 \<le> limit"
    and res: "coordinator_search_locked co query (sorted_list_of_set (set (analyze (rt_unicode rt) query))) limit = Inr r"
  shows "\<exists>sel stats. selected sel cs
    \<and> stats_describe (rt_unicode rt) (union_corpus (map copy_corpus sel)) (analyze (rt_unicode rt) query) stats
    \<and> r = ranked_page (union_corpus (map copy_corpus sel))
        (lexical_scores rt params stats (analyze (rt_unicode rt) query) (union_corpus (map copy_corpus sel))) limit"
proof -
  let ?terms = "analyze (rt_unicode rt) query"
  let ?ut = "sorted_list_of_set (set ?terms)"
  from res obtain selection where s: "select_and_collect co ?ut = Inr selection"
    by (auto simp: coordinator_search_locked_def ebind_Inr_iff)
  from selection_exists [OF serves s] obtain sel where sel: "selected sel cs"
    and clients: "map fst selection = map (\<lambda>(net, n). client net n) sel"
    and parts: "map snd selection = map (\<lambda>p. index_corpus_stats (en_index (no_engine (snd p))) ?ut) sel" by blast
  let ?Cs = "map copy_corpus sel" and ?stats = "merge_corpus_stats (map snd selection)"
  let ?U = "union_corpus ?Cs"
  note cons = selected_consistent [OF sel ok]
  have dC: "disjoint_corpora ?Cs" by (rule selected_disjoint [OF sel dis])
  have fin: "\<forall>C\<in>set ?Cs. finite (dom C)" using cons(1) engine_corpus_finite by auto
  note st = selected_stats [OF sel ok dis parts]
  note d = st(1) and sok = st(2) and finU = st(3)
  have "r = ranked_page ?U (lexical_scores rt params ?stats ?terms ?U) limit"
  proof (cases "cs_document_count ?stats = 0")
    case True
    then have "dom ?U = {}" using d finU by (simp add: stats_describe_def)
    then have U: "?U = Map.empty" by simp
    then show ?thesis using res s True
      by (simp add: coordinator_search_locked_def Let_def)
  next
    case False
    with res s obtain rs where rs: "fan_out_search query limit ?stats (map fst selection) = Inr rs" "r = merge_results rs limit"
      by (auto simp: coordinator_search_locked_def Let_def ebind_Inr_iff)
    have pages: "rs = map (\<lambda>C. ranked_page C (lexical_scores rt params ?stats ?terms C) limit) ?Cs"
      by (rule fan_out_pages [OF sel ok ar l sok rs(1) [unfolded clients]])
    show ?thesis unfolding rs(2) pages by (rule merge_scored [OF _ dC fin l]) (rule lexical_scores_bind)
  qed
  with sel d show ?thesis by blast
qed

lemma semantic_matches:
  assumes serves: "serves client co cs" and ok: "copies_ok rt params cs" and dis: "disjoint_shards cs" and l: "1 \<le> limit"
    and q: "vec_ok (rt_numpy rt) (si_dimension identity) (nd_float32 (rt_numpy rt) vector)"
    and res: "coordinator_semantic_locked co vector limit identity = Inr r"
  shows "\<exists>sel. selected sel cs
    \<and> list_all (\<lambda>p. engine_semantic_identity (no_engine (snd p)) = Some identity \<and> dom (copy_vectors p) = dom (copy_corpus p)) sel
    \<and> r = ranked_page (union_corpus (map copy_corpus sel))
        (similarity (rt_numpy rt) (vec_val (rt_numpy rt) (nd_float32 (rt_numpy rt) vector)) (union_corpus (map copy_vectors sel))) limit"
proof -
  let ?np = "rt_numpy rt"
  let ?v = "nd_float32 ?np vector"
  let ?S = "similarity ?np (vec_val ?np ?v)"
  let ?ask = "\<lambda>c. cl_semantic_search c vector limit identity"
  from res obtain rs where rs: "gather (map (\<lambda>copies. from_any_copy (sc_shard_id copies) ?ask (serving_order copies)) (ct_shards (co_topology co))) = Inr rs"
      "r = merge_results rs limit"
    by (auto simp: coordinator_semantic_locked_def semantic_from_any_copy_def ebind_Inr_iff)
  from selection_from_copies [OF serves rs(1)] semantic_ready obtain sel
    where sel: "selected sel cs" "list_all2 (\<lambda>p a. ?ask (client (fst p) (snd p)) = Inr a) sel rs" by blast
  let ?ps = "map (\<lambda>p. (copy_corpus p, ?S (copy_vectors p))) sel"
  note cons = selected_consistent [OF sel(1) ok]
  have page: "a = ranked_page (copy_corpus p) (?S (copy_vectors p)) limit \<and> engine_semantic_identity (no_engine (snd p)) = Some identity
      \<and> dom (copy_vectors p) = dom (copy_corpus p)"
    if p: "p \<in> set sel" and a: "?ask (client (fst p) (snd p)) = Inr a" for p a
  proof -
    let ?e = "no_engine (snd p)"
    note c = cons [OF p]
    from semantic_answer [OF a] c(3) obtain e where e: "en_embedder ?e = Some e" "em_identity e = identity"
        "semantic_search_locked rt ?e ?v limit = Inr a"
      by (auto simp: engine_semantic_identity_def engine_semantic_search_def require_operational_def)
    from semantic_page [OF c(1) e(1) _ l, of ?v] engine_vectors(2) [OF c(1) e(1)] q e show ?thesis
      by (simp add: engine_semantic_identity_def)
  qed
  have at: "?ask (client (fst (sel ! i)) (snd (sel ! i))) = Inr (rs ! i)" if "i < length sel" for i
    using list_all2_nthD [OF sel(2) that] .
  have good: "list_all (\<lambda>p. engine_semantic_identity (no_engine (snd p)) = Some identity \<and> dom (copy_vectors p) = dom (copy_corpus p)) sel"
    using page [OF nth_mem at] by (simp add: list_all_length)
  have "rs = map (\<lambda>(C, S). ranked_page C S limit) ?ps"
  proof (rule nth_equalityI)
    show "length rs = length (map (\<lambda>(C, S). ranked_page C S limit) ?ps)" using list_all2_lengthD [OF sel(2)] by simp
    fix i assume "i < length rs"
    then have i: "i < length sel" using list_all2_lengthD [OF sel(2)] by simp
    then show "rs ! i = map (\<lambda>(C, S). ranked_page C S limit) ?ps ! i" using page [OF nth_mem [OF i] at [OF i]] by simp
  qed
  moreover have "merge_results (map (\<lambda>(C, S). ranked_page C S limit) ?ps) limit
      = ranked_page (union_corpus (map fst ?ps)) (union_corpus (map snd ?ps)) limit"
  proof (rule merge_pages)
    show "disjoint_corpora (map fst ?ps)" using selected_disjoint [OF sel(1) dis] by (simp add: comp_def)
    show "dom S \<subseteq> dom C \<and> finite (dom C)" if "(C, S) \<in> set ?ps" for C S
    proof -
      from that obtain p where p: "p \<in> set sel" "C = copy_corpus p" "S = ?S (copy_vectors p)" by auto
      show ?thesis using good p cons(1) [OF p(1)] engine_corpus_finite by (auto simp: list_all_iff similarity_dom)
    qed
  qed (use l in simp)
  moreover have "union_corpus (map snd ?ps) = ?S (union_corpus (map copy_vectors sel))"
    using similarity_union [of ?np "vec_val ?np ?v" "map copy_vectors sel"] by (simp add: comp_def)
  ultimately have "r = ranked_page (union_corpus (map copy_corpus sel)) (?S (union_corpus (map copy_vectors sel))) limit"
    by (simp add: rs(2) comp_def)
  with sel(1) good show ?thesis by blast
qed

end

end
