(* ===== verification/Cluster_Queries.thy ===== *)
theory Cluster_Queries
  imports Coordinator_Search
begin

text \<open>
  What the coordinator promises, over its HTTP clients: a distributed search that returns, returns what one
  node holding the union of the selected copies would; it fails with the numbers of the shards that failed;
  and it succeeds whenever every shard has a reachable copy that is ready.
\<close>

section \<open>A small cluster\<close>

text \<open>A copy that holds one document, and two shards of one copy each.\<close>

definition engine_with :: "pystr \<Rightarrow> pystr \<Rightarrow> real engine" where
  "engine_with d t = snd (engine_index_document real_runtime \<lparr>document_id = d, doc_text = t\<rparr> ready_engine)"

lemma engine_with_facts:
  assumes "valid_id ascii_unicode d"
  shows "engine_inv real_runtime (engine_with d t)" "en_state (engine_with d t) = READY"
    "en_scorer (engine_with d t) = default_bm25_params real_ops" "engine_corpus (engine_with d t) = [d \<mapsto> t]"
    "calm (en_store (engine_with d t))" "en_embedder (engine_with d t) = None"
proof -
  let ?doc = "\<lparr>document_id = d, doc_text = t\<rparr>"
  have v: "valid_id (rt_unicode real_runtime) (document_id ?doc)" using assms by (simp add: real_runtime_def)
  have none: "case en_embedder ready_engine of None \<Rightarrow> True | Some e \<Rightarrow> embedder_works (rt_numpy real_runtime) e"
    by (simp add: ready_engine_facts)
  note w = index_document_works [OF ready_engine_facts(1-3) none, of ?doc]
  show "engine_inv real_runtime (engine_with d t)" "en_state (engine_with d t) = READY"
    "en_scorer (engine_with d t) = default_bm25_params real_ops" "engine_corpus (engine_with d t) = [d \<mapsto> t]"
    "en_embedder (engine_with d t) = None"
    using index_document_cases [OF ready_engine_facts(1) v] w(1)
    by (auto simp: engine_with_def mutation_outcome_def ready_engine_facts)
  show "calm (en_store (engine_with d t))" using w(2) by (simp add: engine_with_def)
qed

definition shard_node :: "pystr \<Rightarrow> pystr \<Rightarrow> real node" where
  "shard_node d t = \<lparr>no_engine = engine_with d t,
     no_settings = default_settings\<lparr>se_node_role := Shard, se_replica_role := Some Primary\<rparr>\<rparr>"

definition small_copies :: "((shard_method \<Rightarrow> delivery) \<times> real node) list list" where
  "small_copies = [[(\<lambda>_. Timed_out False, shard_node (ustr ''a'') (ustr ''x y'')), (\<lambda>_. Delivered, shard_node (ustr ''a'') (ustr ''x y''))],
     [(\<lambda>_. Delivered, shard_node (ustr ''b'') (ustr ''x''))]]"

definition no_put :: "pystr \<Rightarrow> pystr \<Rightarrow> unit \<Rightarrow> index_document_response response \<times> unit" where
  "no_put d t w = (Response 404 None, w)"

definition no_delete :: "pystr \<Rightarrow> unit \<Rightarrow> unit response \<times> unit" where
  "no_delete d w = (Response 404 None, w)"

abbreviation read_client :: "(shard_method \<Rightarrow> delivery) \<Rightarrow> real node \<Rightarrow> (real, unit) shard_client" where
  "read_client net \<equiv> http_shard_client real_runtime Some net no_put no_delete"

fun small_shards :: "int \<Rightarrow> ((shard_method \<Rightarrow> delivery) \<times> real node) list list \<Rightarrow> (real, unit) shard_client shard_copies list" where
  "small_shards i [] = []"
| "small_shards i (copies # cs) =
     \<lparr>sc_shard_id = i, sc_primary = (\<lambda>(net, n). read_client net n) (hd copies),
      sc_replicas = map (\<lambda>(net, n). read_client net n) (tl copies)\<rparr> # small_shards (i + 1) cs"

definition small_cluster :: "(real, unit) coordinator" where
  "small_cluster = \<lparr>co_router = \<lparr>ro_shard_count = 2\<rparr>, co_topology = \<lparr>ct_shards = small_shards 0 small_copies\<rparr>, co_embedder = None\<rparr>"

lemma small_serves: "serves read_client small_cluster small_copies"
  by (simp add: serves_def small_cluster_def small_copies_def serving_order_def)

lemma valid_b: "valid_id ascii_unicode (ustr ''b'')"
  by code_simp

lemma small_ok: "copies_ok real_runtime (default_bm25_params real_ops) small_copies"
  using engine_with_facts [OF valid_a] engine_with_facts [OF valid_b]
  by (simp add: copies_ok_def small_copies_def shard_node_def)

lemma ab: "ustr ''a'' \<noteq> ustr ''b''" by code_simp

lemma small_disjoint: "disjoint_shards small_copies"
  using engine_with_facts(4) [OF valid_a] engine_with_facts(4) [OF valid_b] ab
  by (auto simp: disjoint_shards_def small_copies_def shard_node_def less_Suc_eq numeral_2_eq_2)

lemma real_arithmetic: "bm25_arithmetic (rt_float real_runtime) (default_bm25_params real_ops)"
  using exact.bm25_arithmetic_axioms by (simp add: real_runtime_def)

section \<open>Availability\<close>

text \<open>A shard that can serve: after copies that cannot, one that is ready and reached in both rounds.\<close>

definition answers :: "shard_method set \<Rightarrow> (shard_method \<Rightarrow> delivery) \<times> 'f node \<Rightarrow> bool" where
  "answers ms p \<longleftrightarrow> en_state (no_engine (snd p)) = READY \<and> (\<forall>m\<in>ms. fst p m = Delivered)"

definition shard_serves :: "((shard_method \<Rightarrow> delivery) \<times> 'f node) list \<Rightarrow> bool" where
  "shard_serves copies \<longleftrightarrow> (case dropWhile (\<lambda>p. \<not> answers {CorpusStats} p) copies of [] \<Rightarrow> False | p # _ \<Rightarrow> answers {CorpusStats, Search} p)"

lemma stats_of_client:
  "cl_corpus_stats (http_shard_client rt path_id net put del n) terms =
     (if answers {CorpusStats} (net, n) then Inr (index_corpus_stats (en_index (no_engine n)) terms)
      else Inl (case net CorpusStats of Timed_out _ \<Rightarrow> ShardTimeoutError | _ \<Rightarrow> ShardUnavailableError))"
  by (cases "net CorpusStats"; cases "en_state (no_engine n) = READY")
    (simp_all add: http_shard_client_def http_read_def http_request_def internal_corpus_stats_def serve_def
      engine_corpus_stats_def require_operational_def json_body_def answers_def)

lemma search_of_client:
  assumes "answers {Search} (net, n)" "1 \<le> limit" "limit \<le> max_limit" "search_locked rt (no_engine n) (analyze (rt_unicode rt) query) limit (Some stats) = Inr r"
  shows "cl_search (http_shard_client rt path_id net put del n) query limit stats = Inr r"
  using assms
  by (simp add: http_shard_client_def http_read_def http_request_def internal_search_def serve_def sbind_def st_defs
      engine_search_def require_operational_def json_body_def answers_def check_limit_def)

text \<open>The copy the coordinator settles on.\<close>

definition serving_copy :: "((shard_method \<Rightarrow> delivery) \<times> 'f node) list \<Rightarrow> (shard_method \<Rightarrow> delivery) \<times> 'f node" where
  "serving_copy copies = hd (dropWhile (\<lambda>p. \<not> answers {CorpusStats} p) copies)"

lemma serving_copy_in:
  assumes "list_ex (answers {CorpusStats}) copies"
  shows "serving_copy copies \<in> set copies" "answers {CorpusStats} (serving_copy copies)"
proof -
  from assms obtain p ps where d: "dropWhile (\<lambda>p. \<not> answers {CorpusStats} p) copies = p # ps"
    by (cases "dropWhile (\<lambda>p. \<not> answers {CorpusStats} p) copies") (auto simp: dropWhile_eq_Nil_conv list_ex_iff)
  then show "serving_copy copies \<in> set copies" by (metis serving_copy_def list.sel(1) list.set_intros(1) set_dropWhileD)
  show "answers {CorpusStats} (serving_copy copies)" using hd_dropWhile [of "\<lambda>p. \<not> answers {CorpusStats} p" copies] d
    by (simp add: serving_copy_def)
qed

lemma answers_both: "answers {CorpusStats, Search} p \<longleftrightarrow> answers {CorpusStats} p \<and> answers {Search} p"
  by (auto simp: answers_def)

lemma shard_serves_iff:
  "shard_serves copies \<longleftrightarrow> list_ex (answers {CorpusStats}) copies \<and> answers {Search} (serving_copy copies)"
proof (cases "dropWhile (\<lambda>p. \<not> answers {CorpusStats} p) copies")
  case Nil
  have "\<not> shard_serves copies" unfolding shard_serves_def Nil by simp
  moreover have "\<not> list_ex (answers {CorpusStats}) copies" using Nil by (simp add: dropWhile_eq_Nil_conv list_ex_iff)
  ultimately show ?thesis by simp
next
  case (Cons p ps)
  then have "p \<in> set copies" by (metis list.set_intros(1) set_dropWhileD)
  moreover have "answers {CorpusStats} p" using hd_dropWhile [of "\<lambda>p. \<not> answers {CorpusStats} p" copies] Cons by simp
  ultimately show ?thesis using Cons by (auto simp: shard_serves_def serving_copy_def answers_both list_ex_iff)
qed

lemma stats_from_serving_copy:
  assumes "list_ex (answers {CorpusStats}) copies"
  shows "from_any_copy shard (\<lambda>c. ebind (cl_corpus_stats c terms) (\<lambda>s. Inr (c, s)))
      (map (\<lambda>(net, n). http_shard_client rt path_id net put del n) copies)
    = Inr (case serving_copy copies of (net, n) \<Rightarrow>
        (http_shard_client rt path_id net put del n, index_corpus_stats (en_index (no_engine n)) terms))"
  using assms
proof (induction copies)
  case (Cons p copies)
  obtain net n where p: "p = (net, n)" by (cases p)
  show ?case
  proof (cases "answers {CorpusStats} p")
    case True
    then show ?thesis by (simp add: p serving_copy_def stats_of_client)
  next
    case False
    then have "list_ex (answers {CorpusStats}) copies" "serving_copy (p # copies) = serving_copy copies"
      using Cons.prems by (simp_all add: serving_copy_def)
    then show ?thesis using Cons.IH False by (simp add: p stats_of_client split: delivery.split)
  qed
qed simp

lemma search_unanswered:
  assumes "\<not> answers {Search} (net, n)"
  shows "\<exists>e. cl_search (http_shard_client rt path_id net put del n) query limit stats = Inl e"
  using assms
  by (cases "net Search"; cases "en_state (no_engine n) = READY")
    (auto simp: http_shard_client_def http_read_def http_request_def internal_search_def serve_def sbind_def st_defs
      engine_search_def require_operational_def json_body_def answers_def check_limit_def)

text \<open>
  The two rounds of a search, when every shard has a copy that answers the first. The first such copy of each
  shard is pinned; the second round asks exactly those copies, unless all of them are empty.
\<close>

lemma search_rounds:
  assumes serves: "serves (\<lambda>net. http_shard_client rt path_id net put del) co cs" and ok: "copies_ok rt params cs"
    and ar: "bm25_arithmetic (rt_float rt) params" and dis: "disjoint_shards cs" and l: "1 \<le> limit" "limit \<le> max_limit"
    and up: "list_all (list_ex (answers {CorpusStats})) cs" and terms: "analyze (rt_unicode rt) query \<noteq> []"
  obtains outs where "coordinator_search (rt_unicode rt) co query limit =
      (if list_all (\<lambda>copies. dom (copy_corpus (serving_copy copies)) = {}) cs then Inr empty_results
       else ebind (gather outs) (\<lambda>rs. Inr (merge_results rs limit)))"
    "length outs = length cs" "\<And>i. i < length cs \<Longrightarrow> isl (outs ! i) \<longleftrightarrow> \<not> answers {Search} (serving_copy (cs ! i))"
proof -
  let ?terms = "analyze (rt_unicode rt) query"
  let ?ut = "sorted_list_of_set (set ?terms)"
  let ?client = "\<lambda>p. case p of (net, n) \<Rightarrow> http_shard_client rt path_id net put del n"
  let ?sel = "map serving_copy cs"
  let ?selection = "map (\<lambda>p. (?client p, index_corpus_stats (en_index (no_engine (snd p))) ?ut)) ?sel"
  let ?shards = "ct_shards (co_topology co)"
  have len: "length ?shards = length cs" using arg_cong [OF serves [unfolded serves_def], of length] by simp
  have order: "serving_order (?shards ! i) = map ?client (cs ! i)" if "i < length cs" for i
    using arg_cong [OF serves [unfolded serves_def], of "\<lambda>xs. xs ! i"] that len by simp
  have "list_all2 (\<lambda>p copies. p \<in> set copies \<and> en_state (no_engine (snd p)) = READY) (map serving_copy cs) cs"
    using up serving_copy_in by (simp add: list_all2_map1 list_all2_same answers_def list_all_iff) blast
  then have sel: "selected ?sel cs" by (simp only: selected_def)
  have "map (\<lambda>copies. stats_from_any_copy copies ?ut) ?shards = map Inr ?selection"
    using len order up by (intro nth_equalityI) (simp_all add: stats_from_any_copy_def stats_from_serving_copy list_all_length split: prod.split)
  then have s: "select_and_collect co ?ut = Inr ?selection" unfolding select_and_collect_def by (simp only: gather_map_Inr)
  let ?stats = "merge_corpus_stats (map snd ?selection)"
  let ?outs = "map (\<lambda>c. cl_search c query limit ?stats) (map fst ?selection)"
  have parts: "map snd ?selection = map (\<lambda>p. index_corpus_stats (en_index (no_engine (snd p))) ?ut) ?sel" by simp
  note st = selected_stats [OF sel ok dis parts]
  have "cs_document_count ?stats = 0 \<longleftrightarrow> dom (union_corpus (map copy_corpus ?sel)) = {}"
    using st(1,3) by (simp add: stats_describe_def)
  also have "\<dots> \<longleftrightarrow> list_all (\<lambda>copies. dom (copy_corpus (serving_copy copies)) = {}) cs"
    by (auto simp: dom_union_corpus list_all_iff)
  finally have empty: "cs_document_count ?stats = 0 \<longleftrightarrow> list_all (\<lambda>copies. dom (copy_corpus (serving_copy copies)) = {}) cs" .
  have "isl (?outs ! i) \<longleftrightarrow> \<not> answers {Search} (serving_copy (cs ! i))" if i: "i < length cs" for i
  proof -
    let ?p = "serving_copy (cs ! i)"
    have p: "?p \<in> set ?sel" using i by simp
    note c = selected_consistent [OF sel ok p]
    have out: "?outs ! i = cl_search (http_shard_client rt path_id (fst ?p) put del (snd ?p)) query limit ?stats"
      using i by (simp add: case_prod_unfold)
    obtain r where "search_locked rt (no_engine (snd ?p)) ?terms limit (Some ?stats) = Inr r"
      using search_locked_page [where given = "Some ?stats" and stats = ?stats and rt = rt and en = "no_engine (snd ?p)" and limit = limit
          and terms = ?terms] ar c st(2) l(1) by simp
    then show ?thesis unfolding out
      using search_of_client [of "fst ?p" "snd ?p" limit rt query ?stats r path_id put del] l
        search_unanswered [of "fst ?p" "snd ?p" rt path_id put del query limit ?stats] by (cases "answers {Search} ?p") auto
  qed
  then show thesis
    using that [of ?outs] s terms empty
    by (simp add: coordinator_search_def coordinator_search_locked_def fan_out_search_def Let_def)
qed

lemma gather_some: "list_all (\<lambda>x. \<not> isl x) outs \<Longrightarrow> \<exists>xs. gather outs = Inr xs"
  using gather_Inl by (cases "gather outs") (auto simp: list_all_length)

lemma gather_all_or_names:
  assumes "length outs = n" "\<And>i. i < n \<Longrightarrow> isl (outs ! i) \<longleftrightarrow> P i"
  shows "if \<exists>i<n. P i then gather outs = Inl (DistributedSearchError (filter P [0..<n])) else \<exists>xs. gather outs = Inr xs"
proof (cases "\<exists>i<n. P i")
  case True
  then obtain i where i: "i < length outs" "isl (outs ! i)" using assms by auto
  have "gather outs \<noteq> Inr xs" for xs
  proof
    assume "gather outs = Inr xs"
    note m = gather_Inr [OF this]
    have "length xs = length outs" using arg_cong [OF m, of length] by simp
    then have "outs ! i = Inr (xs ! i)" using arg_cong [OF m, of "\<lambda>ys. ys ! i"] i(1) by simp
    with i(2) show False by simp
  qed
  then obtain e where e: "gather outs = Inl e" by (cases "gather outs") auto
  have "filter (\<lambda>i. isl (outs ! i)) [0..<length outs] = filter P [0..<n]"
    by (rule filter_cong) (use assms in auto)
  with gather_Inl [OF e] e True show ?thesis by simp
next
  case False
  then have "list_all (\<lambda>x. \<not> isl x) outs" using assms by (simp add: list_all_length)
  then show ?thesis unfolding if_not_P [OF False] by (rule gather_some)
qed

lemma search_available:
  assumes serves: "serves (\<lambda>net. http_shard_client rt path_id net put del) co cs" and ok: "copies_ok rt params cs"
    and ar: "bm25_arithmetic (rt_float rt) params" and dis: "disjoint_shards cs" and l: "1 \<le> limit" "limit \<le> max_limit"
    and up: "\<forall>copies\<in>set cs. shard_serves copies"
  shows "\<exists>r. coordinator_search (rt_unicode rt) co query limit = Inr r"
proof (cases "analyze (rt_unicode rt) query = []")
  case True
  then show ?thesis by (simp add: coordinator_search_def)
next
  case False
  have u: "list_all (list_ex (answers {CorpusStats})) cs" using up by (simp add: list_all_iff shard_serves_iff)
  from search_rounds [OF serves ok ar dis l u False] obtain outs where
    o: "coordinator_search (rt_unicode rt) co query limit =
        (if list_all (\<lambda>copies. dom (copy_corpus (serving_copy copies)) = {}) cs then Inr empty_results
         else ebind (gather outs) (\<lambda>rs. Inr (merge_results rs limit)))"
      "length outs = length cs" "\<And>i. i < length cs \<Longrightarrow> isl (outs ! i) \<longleftrightarrow> \<not> answers {Search} (serving_copy (cs ! i))" by blast
  have "list_all (\<lambda>x. \<not> isl x) outs" using o(2,3) up by (simp add: list_all_length shard_serves_iff)
  from gather_some [OF this] o(1) show ?thesis by auto
qed

lemma dead_shard:
  "isl (from_any_copy shard (\<lambda>c. ebind (cl_corpus_stats c terms) (\<lambda>s. Inr (c, s)))
     (map (\<lambda>(net, n). http_shard_client rt path_id net put del n) copies)) \<longleftrightarrow> list_all (\<lambda>p. \<not> answers {CorpusStats} p) copies"
proof (induction copies)
  case (Cons p copies)
  obtain net n where p: "p = (net, n)" by (cases p)
  show ?case
    using Cons.IH by (cases "answers {CorpusStats} (net, n)") (simp_all add: p stats_of_client split: delivery.split)
qed simp

lemma gather_fails: "gather outcomes = Inl e \<Longrightarrow> \<exists>failed. e = DistributedSearchError failed \<and> failed \<noteq> []"
  by (auto simp: gather_def split: prod.splits if_splits)

lemma search_outcome:
  assumes "coordinator_search_locked co query terms limit = Inl e"
  shows "\<exists>failed. e = DistributedSearchError failed \<and> failed \<noteq> []"
proof (cases "select_and_collect co terms")
  case (Inl e')
  then show ?thesis using assms gather_fails by (simp add: coordinator_search_locked_def select_and_collect_def)
next
  case (Inr selection)
  then have "fan_out_search query limit (merge_corpus_stats (map snd selection)) (map fst selection) = Inl e"
    using assms by (auto simp: coordinator_search_locked_def Let_def ebind_Inl_iff split: if_splits)
  then show ?thesis using gather_fails by (simp add: fan_out_search_def)
qed

section \<open>Reports\<close>

lemma serving_copy_report:
  "shard_has_serving_copy (map (\<lambda>(net, n). http_shard_client rt path_id net put del n) copies) = Inr (list_ex (answers {IsReady}) copies)"
proof (induction copies)
  case (Cons p copies)
  obtain net n where p: "p = (net, n)" by (cases p)
  have "cl_is_ready (http_shard_client rt path_id net put del n) = Inr (answers {IsReady} (net, n))"
    by (cases "net IsReady"; cases "en_state (no_engine n) = READY")
      (simp_all add: http_shard_client_def http_is_ready_def node_ready_def api_ready_def serve_def engine_get_status_def answers_def Let_def)
  then show ?case using Cons by (cases "answers {IsReady} (net, n)") (simp_all add: p)
qed simp

text \<open>What the status of a shard says of a copy: what the copy is, if its node answers.\<close>

definition copy_report :: "pystr \<Rightarrow> (shard_method \<Rightarrow> delivery) \<times> 'f node \<Rightarrow> copy_status" where
  "copy_report role p =
     (if fst p NodeStatus = Delivered
      then \<lparr>cp_role = role, cp_reachable = True, cp_node_id = node_name (no_settings (snd p)),
            cp_state = node_state_str (en_state (no_engine (snd p))), cp_ready = (en_state (no_engine (snd p)) = READY),
            cp_generation = Some (en_generation (no_engine (snd p)))\<rparr>
      else \<lparr>cp_role = role, cp_reachable = False, cp_node_id = [], cp_state = ustr ''unreachable'', cp_ready = False, cp_generation = None\<rparr>)"

abbreviation copy_roles :: "'a list \<Rightarrow> pystr list" where
  "copy_roles copies \<equiv> ustr ''primary'' # replicate (length copies - 1) (ustr ''replica'')"

lemma copy_report_ready: "cp_ready (copy_report role p) = answers {NodeStatus} p"
  by (simp add: copy_report_def answers_def)

lemma status_of_client:
  "copy_status_of role (cl_node_status (http_shard_client rt path_id net put del n)) = copy_report role (net, n)"
  by (cases "net NodeStatus")
    (simp_all add: http_shard_client_def http_node_status_def http_read_def http_request_def internal_node_status_def serve_def
      json_body_def engine_get_status_def copy_status_of_def copy_report_def node_status.truncate_def Let_def)

lemma status_of_clients:
  "length roles = length copies \<Longrightarrow>
   map2 copy_status_of roles (map cl_node_status (map (\<lambda>(net, n). http_shard_client rt path_id net put del n) copies)) = map2 copy_report roles copies"
proof (induction roles copies rule: list_induct2)
  case (Cons role roles p copies)
  then show ?case by (cases p) (simp add: status_of_client)
qed simp

lemma ready_of_reports: "length roles = length copies \<Longrightarrow> map cp_ready (map2 copy_report roles copies) = map (answers {NodeStatus}) copies"
  by (induction roles copies rule: list_induct2) (simp_all add: copy_report_ready)

lemma shard_health_exact:
  assumes "serving_order s = map (\<lambda>(net, n). http_shard_client rt path_id net put del n) copies"
  shows "shard_health_of s = \<lparr>sh_shard_id = sc_shard_id s, sh_copies = map2 copy_report (copy_roles copies) copies,
    sh_search_available = list_ex (answers {NodeStatus}) copies, sh_write_available = answers {NodeStatus} (hd copies)\<rparr>"
proof -
  have n: "length copies = Suc (length (sc_replicas s))" using arg_cong [OF assms, of length] by (simp add: serving_order_def)
  let ?st = "map2 copy_report (copy_roles copies) copies"
  have len: "length (copy_roles copies) = length copies" using n by simp
  note m = ready_of_reports [OF len]
  have "list_ex cp_ready ?st = list_ex (\<lambda>b. b) (map cp_ready ?st)" by (simp only: list_ex_iff set_map bex_simps)
  then have any: "list_ex cp_ready ?st = list_ex (answers {NodeStatus}) copies" unfolding m by (simp add: list_ex_iff)
  have "?st \<noteq> []" "copies \<noteq> []" using n by (cases copies; simp)+
  then have "cp_ready (hd ?st) = answers {NodeStatus} (hd copies)" using m by (metis hd_map)
  then show ?thesis
    unfolding shard_health_of_def Let_def assms using any status_of_clients [OF len, of rt path_id put del] n by simp
qed

section \<open>Properties\<close>

text \<open>Distributed search is single-node search: when the shards hold disjoint documents, a search that
  returns used one \<open>READY\<close> copy of every shard, and what it returns is exactly what a single node holding
  the union of their documents returns, scores, order, texts and total included.\<close>

theorem distributed_search_exact:
  assumes "serves (\<lambda>net. http_shard_client rt path_id net put del) co cs" "copies_ok rt params cs"
    and "bm25_arithmetic (rt_float rt) params" "disjoint_shards cs" "0 \<le> limit"
    and "analyze (rt_unicode rt) query \<noteq> []" "coordinator_search (rt_unicode rt) co query limit = Inr r"
  shows "\<exists>sel. selected sel cs \<and> (\<forall>en. engine_inv rt en \<longrightarrow> en_state en = READY \<longrightarrow> en_scorer en = params
    \<longrightarrow> engine_corpus en = union_corpus (map copy_corpus sel) \<longrightarrow> engine_search rt en query limit None = Inr r)"
proof -
  have "coordinator_search_locked co query (sorted_list_of_set (set (analyze (rt_unicode rt) query))) limit = Inr r"
    using assms(6,7) by (simp add: coordinator_search_def)
  from http.search_matches [OF assms(1-5) this] obtain sel stats where sel: "selected sel cs"
    and d: "stats_describe (rt_unicode rt) (union_corpus (map copy_corpus sel)) (analyze (rt_unicode rt) query) stats"
    and r: "r = ranked_page (union_corpus (map copy_corpus sel))
        (lexical_scores rt params stats (analyze (rt_unicode rt) query) (union_corpus (map copy_corpus sel))) limit" by blast
  have "engine_search rt en query limit None = Inr r"
    if "engine_inv rt en" "en_state en = READY" "en_scorer en = params" "engine_corpus en = union_corpus (map copy_corpus sel)" for en
    using engine_search_page [OF that(1,2) _ assms(5), of query stats] that(3,4) d r assms(3) by simp
  with sel show ?thesis by blast
qed

theorem distributed_search_exact_witness:
  "\<exists>r sel. coordinator_search ascii_unicode small_cluster (ustr ''x'') 10 = Inr r \<and> selected sel small_copies
     \<and> (\<forall>en. engine_inv real_runtime en \<longrightarrow> en_state en = READY \<longrightarrow> en_scorer en = default_bm25_params real_ops
          \<longrightarrow> engine_corpus en = union_corpus (map copy_corpus sel) \<longrightarrow> engine_search real_runtime en (ustr ''x'') 10 None = Inr r)"
proof -
  have u: "rt_unicode real_runtime = ascii_unicode" by (simp add: real_runtime_def)
  have "shard_serves copies" if "copies \<in> set small_copies" for copies
    using that engine_with_facts(2) [OF valid_a] engine_with_facts(2) [OF valid_b]
    by (auto simp: small_copies_def shard_serves_def answers_def shard_node_def)
  then obtain r where r: "coordinator_search (rt_unicode real_runtime) small_cluster (ustr ''x'') 10 = Inr r"
    using search_available [OF small_serves small_ok real_arithmetic small_disjoint, of 10 "ustr ''x''"] by (auto simp: max_limit_def)
  have "analyze (rt_unicode real_runtime) (ustr ''x'') \<noteq> []" unfolding u by code_simp
  from distributed_search_exact [OF small_serves small_ok real_arithmetic small_disjoint _ this r] r show ?thesis
    by (simp add: u)
qed

text \<open>C16. All or nothing, in both rounds: a search whose query has terms fails with exactly the shards that lose it,
  or returns. If some shard has no copy that is \<open>READY\<close> and answers the statistics request, the error names
  exactly the shards of which that is true. Otherwise the first copy that answered is pinned in every shard;
  if all of those are empty the result is empty, and if some of them does not answer the search
  request, the error names exactly the shards of which that is true, whatever their other copies would do. In
  every other case the search returns.\<close>

theorem distributed_search_all_or_nothing:
  assumes "serves (\<lambda>net. http_shard_client rt path_id net put del) co cs" "copies_ok rt params cs"
    and "bm25_arithmetic (rt_float rt) params" "disjoint_shards cs" "1 \<le> limit" "limit \<le> max_limit"
    and "analyze (rt_unicode rt) query \<noteq> []"
  shows "if \<exists>i<length cs. \<not> list_ex (answers {CorpusStats}) (cs ! i)
    then coordinator_search (rt_unicode rt) co query limit =
      Inl (DistributedSearchError (filter (\<lambda>i. \<not> list_ex (answers {CorpusStats}) (cs ! i)) [0..<length cs]))
    else if list_all (\<lambda>copies. copy_corpus (serving_copy copies) = Map.empty) cs
    then coordinator_search (rt_unicode rt) co query limit = Inr empty_results
    else if \<exists>i<length cs. \<not> answers {Search} (serving_copy (cs ! i))
    then coordinator_search (rt_unicode rt) co query limit =
      Inl (DistributedSearchError (filter (\<lambda>i. \<not> answers {Search} (serving_copy (cs ! i))) [0..<length cs]))
    else \<exists>r. coordinator_search (rt_unicode rt) co query limit = Inr r"
proof (cases "list_all (list_ex (answers {CorpusStats})) cs")
  case False
  let ?outs = "map (\<lambda>copies. stats_from_any_copy copies (sorted_list_of_set (set (analyze (rt_unicode rt) query)))) (ct_shards (co_topology co))"
  let ?P = "\<lambda>i. \<not> list_ex (answers {CorpusStats}) (cs ! i)"
  have len: "length ?outs = length cs" using arg_cong [OF assms(1) [unfolded serves_def], of length] by simp
  have dead: "isl (?outs ! i) \<longleftrightarrow> ?P i" if i: "i < length cs" for i
  proof -
    have "serving_order (ct_shards (co_topology co) ! i) = map (\<lambda>(net, n). http_shard_client rt path_id net put del n) (cs ! i)"
      using arg_cong [OF assms(1) [unfolded serves_def], of "\<lambda>xs. xs ! i"] i len by simp
    then show ?thesis using i len by (simp add: stats_from_any_copy_def dead_shard list_all_iff list_ex_iff)
  qed
  from False have "\<exists>i<length cs. ?P i" by (auto simp: list_all_length)
  with gather_all_or_names [OF len dead] show ?thesis
    using assms(7) by (simp add: coordinator_search_def coordinator_search_locked_def select_and_collect_def)
next
  case True
  from search_rounds [OF assms(1-6) True assms(7)] obtain outs where
    o: "coordinator_search (rt_unicode rt) co query limit =
        (if list_all (\<lambda>copies. dom (copy_corpus (serving_copy copies)) = {}) cs then Inr empty_results
         else ebind (gather outs) (\<lambda>rs. Inr (merge_results rs limit)))"
      "length outs = length cs" "\<And>i. i < length cs \<Longrightarrow> isl (outs ! i) \<longleftrightarrow> \<not> answers {Search} (serving_copy (cs ! i))" by blast
  note g = gather_all_or_names [OF o(2,3)]
  have "\<not> (\<exists>i<length cs. \<not> list_ex (answers {CorpusStats}) (cs ! i))" using True by (simp add: list_all_length)
  moreover have "(list_all (\<lambda>copies. dom (copy_corpus (serving_copy copies)) = {}) cs) = (list_all (\<lambda>copies. copy_corpus (serving_copy copies) = Map.empty) cs)"
    by simp
  ultimately show ?thesis using g unfolding o(1) by (simp only: if_False) (auto split: if_splits)
qed

text \<open>A shard whose second copy is never asked again once the first one was pinned.\<close>

definition pinned_copies :: "((shard_method \<Rightarrow> delivery) \<times> real node) list list" where
  "pinned_copies = [[(\<lambda>m. if m = Search then Timed_out False else Delivered, shard_node (ustr ''a'') (ustr ''x y'')),
       (\<lambda>_. Delivered, shard_node (ustr ''a'') (ustr ''x y''))],
     [(\<lambda>_. Delivered, shard_node (ustr ''b'') (ustr ''x''))]]"

theorem distributed_search_all_or_nothing_witness:
  "coordinator_search ascii_unicode (small_cluster\<lparr>co_topology := \<lparr>ct_shards = small_shards 0 pinned_copies\<rparr>\<rparr>) (ustr ''x'') 10
     = Inl (DistributedSearchError [0])"
proof -
  let ?co = "small_cluster\<lparr>co_topology := \<lparr>ct_shards = small_shards 0 pinned_copies\<rparr>\<rparr>"
  have u: "rt_unicode real_runtime = ascii_unicode" by (simp add: real_runtime_def)
  have s: "serves read_client ?co pinned_copies" by (simp add: serves_def serving_order_def pinned_copies_def)
  note a = engine_with_facts [OF valid_a] and b = engine_with_facts [OF valid_b]
  have ok: "copies_ok real_runtime (default_bm25_params real_ops) pinned_copies"
    using a b by (simp add: copies_ok_def pinned_copies_def shard_node_def)
  have d: "disjoint_shards pinned_copies"
    using a(4) b(4) ab by (auto simp: disjoint_shards_def pinned_copies_def shard_node_def less_Suc_eq numeral_2_eq_2)
  have "analyze (rt_unicode real_runtime) (ustr ''x'') \<noteq> []" unfolding u by code_simp
  moreover have "(1::int) \<le> 10" "10 \<le> max_limit" by (simp_all add: max_limit_def)
  ultimately have t: "if \<exists>i<length pinned_copies. \<not> list_ex (answers {CorpusStats}) (pinned_copies ! i)
    then coordinator_search (rt_unicode real_runtime) ?co (ustr ''x'') 10 =
      Inl (DistributedSearchError (filter (\<lambda>i. \<not> list_ex (answers {CorpusStats}) (pinned_copies ! i)) [0..<length pinned_copies]))
    else if list_all (\<lambda>copies. copy_corpus (serving_copy copies) = Map.empty) pinned_copies
    then coordinator_search (rt_unicode real_runtime) ?co (ustr ''x'') 10 = Inr empty_results
    else if \<exists>i<length pinned_copies. \<not> answers {Search} (serving_copy (pinned_copies ! i))
    then coordinator_search (rt_unicode real_runtime) ?co (ustr ''x'') 10 =
      Inl (DistributedSearchError (filter (\<lambda>i. \<not> answers {Search} (serving_copy (pinned_copies ! i))) [0..<length pinned_copies]))
    else \<exists>r. coordinator_search (rt_unicode real_runtime) ?co (ustr ''x'') 10 = Inr r"
    by (intro distributed_search_all_or_nothing [OF s ok real_arithmetic d])
  have r: "answers {CorpusStats} (\<lambda>m. if m = Search then Timed_out False else Delivered, shard_node (ustr ''a'') (ustr ''x y''))"
    "answers {CorpusStats} (\<lambda>_. Delivered, shard_node (ustr ''b'') (ustr ''x''))"
    "\<not> answers {Search} (\<lambda>m. if m = Search then Timed_out False else Delivered, shard_node (ustr ''a'') (ustr ''x y''))"
    "answers {Search} (\<lambda>_. Delivered, shard_node (ustr ''b'') (ustr ''x''))"
    using a(2) b(2) by (simp_all add: answers_def shard_node_def)
  have p: "list_ex (answers {CorpusStats}) (pinned_copies ! i) \<and> (answers {Search} (serving_copy (pinned_copies ! i)) \<longleftrightarrow> i \<noteq> 0)"
    if "i < length pinned_copies" for i
    using that r by (auto simp: pinned_copies_def serving_copy_def less_Suc_eq numeral_2_eq_2)
  have len: "length pinned_copies = 2" by (simp add: pinned_copies_def)
  have ne: "\<not> list_all (\<lambda>copies. copy_corpus (serving_copy copies) = Map.empty) pinned_copies"
    using r a(4) [of "ustr ''x y''"] by (simp add: pinned_copies_def serving_copy_def shard_node_def)
  have one: "filter (\<lambda>i. \<not> answers {Search} (serving_copy (pinned_copies ! i))) [0..<length pinned_copies] = [0]"
    using p by (simp add: len upt_rec)
  have lost: "\<exists>i<length pinned_copies. \<not> answers {Search} (serving_copy (pinned_copies ! i))" using p by (intro exI [of _ 0]) (simp add: len)
  have first: "\<not> (\<exists>i<length pinned_copies. \<not> list_ex (answers {CorpusStats}) (pinned_copies ! i))" using p by blast
  show ?thesis using t unfolding if_not_P [OF first] if_not_P [OF ne] if_P [OF lost] one u .
qed



text \<open>C20. The coordinator reports exactly what it can reach. Readiness: a shard counts as ready if some copy answers
  its readiness probe and is \<open>READY\<close>, as unready otherwise, and the cluster is ready if every shard is. Status: one entry per
  shard, in order, and in it one per copy, primary first, with the node's name, state, readiness and generation
  if the node answers and as unreachable otherwise; search is reported available in a shard if some copy
  answers and is \<open>READY\<close>, writing if its primary does (which says nothing of its replicas, on which a
  write also depends), and for the cluster if it is for every shard.\<close>

theorem cluster_reports_exact:
  assumes "serves (\<lambda>net. http_shard_client rt path_id net put del) co cs"
  shows "cr_ready (coordinator_readiness co) = list_all (list_ex (answers {IsReady})) cs
    \<and> cr_ready_shards (coordinator_readiness co) = filter (\<lambda>i. list_ex (answers {IsReady}) (cs ! i)) [0..<length cs]
    \<and> cr_unready_shards (coordinator_readiness co) = filter (\<lambda>i. \<not> list_ex (answers {IsReady}) (cs ! i)) [0..<length cs]
    \<and> ch_search_available (coordinator_cluster_status co) = list_all (list_ex (answers {NodeStatus})) cs
    \<and> ch_write_available (coordinator_cluster_status co) = list_all (\<lambda>copies. answers {NodeStatus} (hd copies)) cs
    \<and> map sh_copies (ch_shards (coordinator_cluster_status co)) = map (\<lambda>copies. map2 copy_report (copy_roles copies) copies) cs
    \<and> map sh_search_available (ch_shards (coordinator_cluster_status co)) = map (list_ex (answers {NodeStatus})) cs
    \<and> map sh_write_available (ch_shards (coordinator_cluster_status co)) = map (\<lambda>copies. answers {NodeStatus} (hd copies)) cs"
proof -
  let ?shards = "ct_shards (co_topology co)"
  have len: "length ?shards = length cs" using arg_cong [OF assms [unfolded serves_def], of length] by simp
  have order: "serving_order (?shards ! i) = map (\<lambda>(net, n). http_shard_client rt path_id net put del n) (cs ! i)" if "i < length cs" for i
    using arg_cong [OF assms [unfolded serves_def], of "\<lambda>xs. xs ! i"] that len by simp
  let ?outs = "map (\<lambda>copies. shard_has_serving_copy (serving_order copies)) ?shards"
  have out: "?outs ! i = Inr (list_ex (answers {IsReady}) (cs ! i))" if "i < length cs" for i
    using that len order by (simp add: serving_copy_report)
  have f: "filter (\<lambda>i. P (?outs ! i)) [0..<length ?outs] = filter (\<lambda>i. P (Inr (list_ex (answers {IsReady}) (cs ! i)))) [0..<length cs]" for P
    unfolding length_map len by (rule filter_cong) (simp_all add: out del: nth_map)
  have 1: "cr_unready_shards (coordinator_readiness co) = filter (\<lambda>i. \<not> list_ex (answers {IsReady}) (cs ! i)) [0..<length cs]"
    using f [of "\<lambda>x. x \<noteq> Inr True"] by (simp add: coordinator_readiness_def Let_def)
  have 2: "cr_ready_shards (coordinator_readiness co) = filter (\<lambda>i. list_ex (answers {IsReady}) (cs ! i)) [0..<length cs]"
    using f [of "\<lambda>x. x = Inr True"] by (simp add: coordinator_readiness_def Let_def)
  have "cr_ready (coordinator_readiness co) = (cr_unready_shards (coordinator_readiness co) = [])"
    by (simp add: coordinator_readiness_def Let_def)
  then have 3: "cr_ready (coordinator_readiness co) = list_all (list_ex (answers {IsReady})) cs"
    unfolding 1 by (auto simp: filter_empty_conv list_all_length)
  have sh: "ch_shards (coordinator_cluster_status co) = map2 (\<lambda>s copies. \<lparr>sh_shard_id = sc_shard_id s,
      sh_copies = map2 copy_report (copy_roles copies) copies, sh_search_available = list_ex (answers {NodeStatus}) copies,
      sh_write_available = answers {NodeStatus} (hd copies)\<rparr>) ?shards cs"
    using len by (intro nth_equalityI) (simp_all add: coordinator_cluster_status_def Let_def shard_health_exact [OF order])
  have proj: "map f (map2 (\<lambda>s copies. R s copies) ?shards cs) = map g cs" if "\<And>s copies. f (R s copies) = g copies" for f R and g :: "_ \<Rightarrow> 'y"
    using len that by (intro nth_equalityI) simp_all
  have 4: "map sh_copies (ch_shards (coordinator_cluster_status co)) = map (\<lambda>copies. map2 copy_report (copy_roles copies) copies) cs"
    "map sh_search_available (ch_shards (coordinator_cluster_status co)) = map (list_ex (answers {NodeStatus})) cs"
    "map sh_write_available (ch_shards (coordinator_cluster_status co)) = map (\<lambda>copies. answers {NodeStatus} (hd copies)) cs"
    unfolding sh by (rule proj, simp)+
  have all: "ch_search_available (coordinator_cluster_status co) = list_all (\<lambda>b. b) (map sh_search_available (ch_shards (coordinator_cluster_status co)))"
    "ch_write_available (coordinator_cluster_status co) = list_all (\<lambda>b. b) (map sh_write_available (ch_shards (coordinator_cluster_status co)))"
    by (simp_all add: coordinator_cluster_status_def Let_def list_all_iff)
  have "ch_search_available (coordinator_cluster_status co) = list_all (list_ex (answers {NodeStatus})) cs"
    "ch_write_available (coordinator_cluster_status co) = list_all (\<lambda>copies. answers {NodeStatus} (hd copies)) cs"
    unfolding all 4 by (simp_all add: list_all_iff)
  with 1 2 3 4 show ?thesis by blast
qed

theorem cluster_reports_exact_witness:
  "cr_ready (coordinator_readiness small_cluster) \<and> \<not> ch_write_available (coordinator_cluster_status small_cluster)
   \<and> map (map cp_reachable) (map sh_copies (ch_shards (coordinator_cluster_status small_cluster))) = [[False, True], [True]]"
  using cluster_reports_exact [OF small_serves] engine_with_facts(2) [OF valid_a] engine_with_facts(2) [OF valid_b]
  by (simp add: small_copies_def answers_def shard_node_def copy_report_def)

text \<open>C18. Distributed semantic search is exact: when the shards hold disjoint documents, a semantic search that
  returns used one \<open>READY\<close> copy of every shard, each in the coordinator's embedding space and each with a vector
  for every document it holds, and returns the page of the union of their documents ranked by the inner
  product of the vectors these copies store with the vector the coordinator sent: scores, order, texts and
  total are those of a single node that holds these documents with these vectors.\<close>

theorem distributed_semantic_exact:
  assumes "serves (\<lambda>net. http_shard_client rt path_id net put del) co cs" "copies_ok rt params cs" "disjoint_shards cs" "1 \<le> limit"
    and "co_embedder co = Some own" "em_embed_query own query = Inr vector"
    and "vec_ok (rt_numpy rt) (si_dimension (em_identity own)) (nd_float32 (rt_numpy rt) vector)"
    and "coordinator_semantic_search co query limit = Inr r"
  shows "\<exists>sel. selected sel cs
    \<and> list_all (\<lambda>p. engine_semantic_identity (no_engine (snd p)) = Some (em_identity own) \<and> dom (copy_vectors p) = dom (copy_corpus p)) sel
    \<and> r = ranked_page (union_corpus (map copy_corpus sel))
        (similarity (rt_numpy rt) (vec_val (rt_numpy rt) (nd_float32 (rt_numpy rt) vector)) (union_corpus (map copy_vectors sel))) limit
    \<and> (\<forall>en. engine_inv rt en \<longrightarrow> en_state en = READY \<longrightarrow> engine_semantic_identity en = Some (em_identity own)
        \<longrightarrow> engine_corpus en = union_corpus (map copy_corpus sel) \<longrightarrow> stored_vectors en = union_corpus (map copy_vectors sel)
        \<longrightarrow> engine_semantic_search rt en (nd_float32 (rt_numpy rt) vector) limit = Inr r)"
proof -
  have "coordinator_semantic_locked co vector limit (em_identity own) = Inr r"
    using assms(5,6,8) by (simp add: coordinator_semantic_search_def)
  from http.semantic_matches [OF assms(1-4) assms(7) this] obtain sel where sel: "selected sel cs"
    "list_all (\<lambda>p. engine_semantic_identity (no_engine (snd p)) = Some (em_identity own) \<and> dom (copy_vectors p) = dom (copy_corpus p)) sel"
    and r: "r = ranked_page (union_corpus (map copy_corpus sel))
        (similarity (rt_numpy rt) (vec_val (rt_numpy rt) (nd_float32 (rt_numpy rt) vector)) (union_corpus (map copy_vectors sel))) limit" by blast
  have "engine_semantic_search rt en (nd_float32 (rt_numpy rt) vector) limit = Inr r"
    if "engine_inv rt en" "en_state en = READY" "engine_semantic_identity en = Some (em_identity own)"
      "engine_corpus en = union_corpus (map copy_corpus sel)" "stored_vectors en = union_corpus (map copy_vectors sel)" for en
  proof -
    from that(3) obtain e where e: "en_embedder en = Some e" "em_identity e = em_identity own"
      by (auto simp: engine_semantic_identity_def)
    from semantic_page [OF engine_invD(3) [OF that(1,2)] e(1) _ assms(4), of "nd_float32 (rt_numpy rt) vector"] assms(7) e(2) that r
    show ?thesis by (simp add: engine_semantic_search_def require_operational_def)
  qed
  with sel r show ?thesis by blast
qed

text \<open>Two shards with embedders, of one document each.\<close>

definition unit_node :: "pystr \<Rightarrow> pystr \<Rightarrow> real node" where
  "unit_node d t = \<lparr>no_engine = unit_engine_with \<lparr>document_id = d, doc_text = t\<rparr>,
     no_settings = default_settings\<lparr>se_node_role := Shard, se_replica_role := Some Primary\<rparr>\<rparr>"

definition unit_copies :: "((shard_method \<Rightarrow> delivery) \<times> real node) list list" where
  "unit_copies = [[(\<lambda>_. Delivered, unit_node (ustr ''a'') (ustr ''x''))], [(\<lambda>_. Delivered, unit_node (ustr ''b'') (ustr ''y''))]]"

definition unit_cluster :: "(real, unit) coordinator" where
  "unit_cluster = \<lparr>co_router = \<lparr>ro_shard_count = 2\<rparr>, co_topology = \<lparr>ct_shards = small_shards 0 unit_copies\<rparr>, co_embedder = Some unit_embedder\<rparr>"

lemma unit_client_answers:
  assumes "valid_id ascii_unicode d"
  shows "\<exists>r. cl_semantic_search (read_client (\<lambda>_. Delivered) (unit_node d t)) (nd_vec [1]) 3 (em_identity unit_embedder) = Inr r"
proof -
  let ?doc = "\<lparr>document_id = d, doc_text = t\<rparr>" and ?v = "nd_float32 (rt_numpy real_runtime) (nd_vec [1])"
  have "valid_id ascii_unicode (document_id ?doc)" using assms by simp
  note u = unit_engine_with_facts [OF this]
  have v: "vec_ok (rt_numpy real_runtime) (si_dimension (em_identity unit_embedder)) ?v"
    by (simp add: vec_ok_def nd_vec_def unit_embedder_def real_runtime_def real_numpy_def nd_float32_def)
  from semantic_page [OF engine_invD(3) [OF u(1,2)] u(3) v, of 3]
  obtain r where "engine_semantic_search real_runtime (unit_engine_with ?doc) ?v 3 = Inr r"
    by (simp add: engine_semantic_search_def require_operational_def u(2))
  then show ?thesis
    by (simp add: http_shard_client_def http_semantic_search_def http_read_def http_request_def internal_semantic_search_def
        serve_def sbind_def st_defs check_limit_def max_limit_def json_body_def unit_node_def engine_semantic_identity_def u(3)
        is_compatible_with_def nd_vec_def)
qed

theorem distributed_semantic_exact_witness:
  "coordinator_semantic_search unit_cluster (ustr ''x'') 3 =
     Inr (ranked_page (union_corpus [[ustr ''a'' \<mapsto> ustr ''x''], [ustr ''b'' \<mapsto> ustr ''y'']])
       (similarity real_numpy [1] (union_corpus [[ustr ''a'' \<mapsto> [1]], [ustr ''b'' \<mapsto> [1]]])) 3)"
proof -
  let ?v = "nd_float32 (rt_numpy real_runtime) (nd_vec [1])"
  have v: "vec_ok (rt_numpy real_runtime) (si_dimension (em_identity unit_embedder)) ?v" "vec_val (rt_numpy real_runtime) ?v = [1]"
    by (simp_all add: vec_ok_def vec_val_def nd_vec_def unit_embedder_def real_runtime_def real_numpy_def nd_float32_def)
  have val: "valid_id ascii_unicode (document_id \<lparr>document_id = ustr ''a'', doc_text = ustr ''x''\<rparr>)"
    "valid_id ascii_unicode (document_id \<lparr>document_id = ustr ''b'', doc_text = ustr ''y''\<rparr>)" using valid_a valid_b by simp_all
  note a = unit_engine_with_facts [OF val(1)] and b = unit_engine_with_facts [OF val(2)]
  have q: "co_embedder unit_cluster = Some unit_embedder" "em_embed_query unit_embedder (ustr ''x'') = Inr (nd_vec [1])"
    by (simp_all add: unit_cluster_def unit_embedder_def)
  from unit_client_answers [OF valid_a, of "ustr ''x''"] unit_client_answers [OF valid_b, of "ustr ''y''"] obtain r1 r2 where
    "cl_semantic_search (read_client (\<lambda>_. Delivered) (unit_node (ustr ''a'') (ustr ''x''))) (nd_vec [1]) 3 (em_identity unit_embedder) = Inr r1"
    "cl_semantic_search (read_client (\<lambda>_. Delivered) (unit_node (ustr ''b'') (ustr ''y''))) (nd_vec [1]) 3 (em_identity unit_embedder) = Inr r2" by blast
  then have run: "coordinator_semantic_search unit_cluster (ustr ''x'') 3 = Inr (merge_results [r1, r2] 3)"
    by (simp add: coordinator_semantic_search_def coordinator_semantic_locked_def q semantic_from_any_copy_def serving_order_def
        gather_def, simp add: unit_cluster_def unit_copies_def)
  have ok: "copies_ok real_runtime (en_scorer unit_engine) unit_copies"
    using a b by (simp add: copies_ok_def unit_copies_def unit_node_def)
  have s: "serves read_client unit_cluster unit_copies"
    by (simp add: serves_def unit_cluster_def unit_copies_def serving_order_def)
  have d: "disjoint_shards unit_copies"
    using a(4) b(4) ab by (auto simp: disjoint_shards_def unit_copies_def unit_node_def less_Suc_eq numeral_2_eq_2)
  from distributed_semantic_exact [OF s ok d _ q v(1) run] obtain sel where sel: "selected sel unit_copies"
    and r: "merge_results [r1, r2] 3 = ranked_page (union_corpus (map copy_corpus sel))
        (similarity (rt_numpy real_runtime) [1] (union_corpus (map copy_vectors sel))) 3" by (auto simp: v(2))
  from sel have "sel = [(\<lambda>_. Delivered, unit_node (ustr ''a'') (ustr ''x'')), (\<lambda>_. Delivered, unit_node (ustr ''b'') (ustr ''y''))]"
    by (auto simp: selected_def unit_copies_def list_all2_Cons2)
  then show ?thesis using run r a(4,5) b(4,5) by (simp add: unit_node_def real_runtime_def)
qed

lemma token_corpus_union:
  assumes "disjoint_corpora Cs"
  shows "union_corpus (map (token_corpus ud) Cs) = token_corpus ud (union_corpus Cs)" and "disjoint_corpora (map (token_corpus ud) Cs)"
proof -
  have "token_corpus ud C d = Option.bind (C d) (\<lambda>t. Some (analyze ud t))" for C d
    by (cases "C d") (simp_all add: token_corpus_def)
  from pointwise_union [of "token_corpus ud", OF this assms] show "union_corpus (map (token_corpus ud) Cs) = token_corpus ud (union_corpus Cs)" .
  have "disjoint_corpora (map snd (map (\<lambda>C. (C, token_corpus ud C)) Cs))"
    by (rule disjoint_corpora_sub) (use assms in \<open>auto simp: comp_def token_corpus_def\<close>)
  then show "disjoint_corpora (map (token_corpus ud) Cs)" by (simp add: comp_def)
qed

lemma selected_sums:
  assumes "selected sel cs" "copies_ok rt params cs" "disjoint_shards cs"
    and "index_repr ix (token_corpus (rt_unicode rt) (union_corpus (map copy_corpus sel)))"
  shows "(\<Sum>p\<leftarrow>sel. index_document_count (en_index (no_engine (snd p)))) = index_document_count ix"
    and "(\<Sum>p\<leftarrow>sel. ix_total_length (en_index (no_engine (snd p)))) = ix_total_length ix"
proof -
  let ?ixs = "map (\<lambda>p. en_index (no_engine (snd p))) sel" and ?Ms = "map (token_corpus (rt_unicode rt)) (map copy_corpus sel)"
  have "list_all2 index_repr ?ixs ?Ms"
    using selected_consistent(1) [OF assms(1,2)]
    by (auto simp: list_all2_map1 list_all2_map2 list_all2_same engine_consistent_def derived_repr_def)
  note sums = shard_stats_sum(1,2) [OF this]
  note U = token_corpus_union [OF selected_disjoint [OF assms(1,3)], of "rt_unicode rt"]
  show "(\<Sum>p\<leftarrow>sel. index_document_count (en_index (no_engine (snd p)))) = index_document_count ix"
    and "(\<Sum>p\<leftarrow>sel. ix_total_length (en_index (no_engine (snd p)))) = ix_total_length ix"
    using sums [OF U(2), of ix] assms(4) U(1) by (simp_all add: comp_def)
qed

lemma engine_stats_answer:
  "engine_stats rt en = Inr s \<Longrightarrow> en_state en = READY \<and> s = index_get_stats (rt_float rt) (en_index en)"
  by (auto simp: engine_stats_def require_operational_def split: if_splits)

lemma length_py_enumerate: "length (py_enumerate n xs) = length xs"
  by (induction xs arbitrary: n) simp_all

lemma cluster_stats_selection:
  assumes "serves (\<lambda>net. http_shard_client rt path_id net put del) co cs" "coordinator_index_stats rt co = Inr st"
  obtains sel where "selected sel cs" "gather (map index_stats_from_any_copy (ct_shards (co_topology co)))
      = Inr (map (\<lambda>p. index_get_stats (rt_float rt) (en_index (no_engine (snd p)))) sel)"
proof -
  from assms(2) obtain per where per: "gather (map index_stats_from_any_copy (ct_shards (co_topology co))) = Inr per"
    by (auto simp: coordinator_index_stats_def ebind_Inr_iff)
  have ready: "en_state (no_engine n) = READY \<and> a = index_get_stats (rt_float rt) (en_index (no_engine n))"
    if "cl_index_stats (http_shard_client rt path_id net put del n) = Inr a" for net n a
    using http.index_stats_answer [OF that] engine_stats_answer by blast
  from http.selection_from_copies [OF assms(1) per [unfolded index_stats_from_any_copy_def]] ready
  obtain sel where sel: "selected sel cs"
    and a: "list_all2 (\<lambda>p a. cl_index_stats (http_shard_client rt path_id (fst p) put del (snd p)) = Inr a) sel per" by blast
  have "list_all2 (\<lambda>p a. a = index_get_stats (rt_float rt) (en_index (no_engine (snd p)))) sel per"
    by (rule list_all2_mono [OF a]) (use ready in blast)
  then have "per = map (\<lambda>p. index_get_stats (rt_float rt) (en_index (no_engine (snd p)))) sel"
    by (induction rule: list_all2_induct) simp_all
  with that sel per show thesis by simp
qed

text \<open>C19. Cluster statistics are those of one node: the reported document count and average length are those
  of a single node holding the union of one \<open>READY\<close> copy per shard, and there is one entry per shard, in order.\<close>

theorem cluster_stats_exact:
  assumes "serves (\<lambda>net. http_shard_client rt path_id net put del) co cs" "copies_ok rt params cs" "disjoint_shards cs"
    and "coordinator_index_stats rt co = Inr st"
  shows "\<exists>sel. selected sel cs \<and> length (ck_shards st) = length cs
    \<and> (\<forall>en s. engine_inv rt en \<longrightarrow> engine_corpus en = union_corpus (map copy_corpus sel) \<longrightarrow> engine_stats rt en = Inr s
         \<longrightarrow> ck_document_count st = is_document_count s \<and> ck_average_document_length st = is_average_document_length s)"
proof -
  from cluster_stats_selection [OF assms(1,4)] obtain sel where sel: "selected sel cs"
    and per: "gather (map index_stats_from_any_copy (ct_shards (co_topology co)))
      = Inr (map (\<lambda>p. index_get_stats (rt_float rt) (en_index (no_engine (snd p)))) sel)" .
  have "ck_document_count st = is_document_count s \<and> ck_average_document_length st = is_average_document_length s"
    if "engine_inv rt en" "engine_corpus en = union_corpus (map copy_corpus sel)" "engine_stats rt en = Inr s" for en s
  proof -
    have "engine_consistent rt en" and s: "s = index_get_stats (rt_float rt) (en_index en)"
      using engine_stats_answer [OF that(3)] engine_invD(3) [OF that(1)] by auto
    then have "index_repr (en_index en) (token_corpus (rt_unicode rt) (union_corpus (map copy_corpus sel)))"
      using that(2) by (simp add: engine_consistent_def derived_repr_def)
    note sums = selected_sums [OF sel assms(2,3) this]
    have st: "ck_document_count st = index_document_count (en_index en)"
      "ck_average_document_length st = (if index_document_count (en_index en) \<noteq> 0
         then f_rat (rt_float rt) (of_int (ix_total_length (en_index en)) / of_int (index_document_count (en_index en))) else f_rat (rt_float rt) 0)"
      using assms(4) per sums by (auto simp: coordinator_index_stats_def index_get_stats_def Let_def comp_def)
    have "index_document_count (en_index en) = 0 \<longleftrightarrow> ix_document_lengths (en_index en) = []" by (simp add: index_document_count_def)
    then show ?thesis using st by (simp add: s index_get_stats_def index_average_document_length_def)
  qed
  moreover have "length (ck_shards st) = length cs"
    using assms(4) per sel by (auto simp: coordinator_index_stats_def Let_def selected_def length_py_enumerate dest: list_all2_lengthD)
  ultimately show ?thesis using sel by blast
qed

lemma small_stats: "\<exists>st. coordinator_index_stats real_runtime small_cluster = Inr st"
  using engine_with_facts(2) [OF valid_a] engine_with_facts(2) [OF valid_b]
  by (simp add: coordinator_index_stats_def small_cluster_def small_copies_def index_stats_from_any_copy_def serving_order_def
      gather_def http_shard_client_def http_read_def http_request_def internal_index_stats_def serve_def engine_stats_def
      require_operational_def json_body_def shard_node_def Let_def)

theorem cluster_stats_exact_witness:
  "\<exists>st sel. coordinator_index_stats real_runtime small_cluster = Inr st \<and> selected sel small_copies \<and> length (ck_shards st) = 2"
  using small_stats cluster_stats_exact [OF small_serves small_ok small_disjoint] by (fastforce simp: small_copies_def)

end
