(* ===== verification/Replicated_Writes.thy ===== *)
theory Replicated_Writes
  imports Replication Cluster_Queries
begin

text \<open>
  The write path of a shard: a write that is acknowledged was applied by every copy, and a write that some
  replica does not apply is not acknowledged, though it is durable on the primary.
\<close>

section \<open>Exceptions of a replica\<close>

text \<open>A node whose embedder raises errors of its own, not \<open>HTTPException\<close>s.\<close>

definition node_ok :: "'f runtime \<Rightarrow> 'f node \<Rightarrow> bool" where
  "node_ok rt n \<longleftrightarrow> engine_inv rt (no_engine n)
     \<and> (\<forall>e texts k. en_embedder (no_engine n) = Some e \<longrightarrow> em_embed_documents e texts \<noteq> Inl (HTTPException k))"

lemma embed_document_exn:
  assumes "embed_document embedder t = Inl e" "\<forall>em texts k. embedder = Some em \<longrightarrow> em_embed_documents em texts \<noteq> Inl (HTTPException k)"
  shows "e \<noteq> HTTPException k"
proof -
  have "nd_first a = Inl x \<Longrightarrow> x = IndexError" for a :: "'a ndarray" and x by (auto simp: nd_first_def split: list.splits if_splits)
  then show ?thesis using assms by (auto simp: embed_document_def ebind_Inl_iff split: option.splits)
qed

lemma classify_exn: "classify_generation g en = (Inl e, en') \<Longrightarrow> e = EngineNotReadyError"
  by (auto simp: classify_generation_def require_operational_def sbind_def slift_def split: if_splits)

lemma degrade_exn: "degrade_on_failure reason m en = (Inl e, en') \<Longrightarrow> e = EngineNotReadyError"
  by (auto simp: degrade_on_failure_def split: prod.splits sum.splits)

lemma apply_put_exn:
  assumes ok: "node_ok rt n" and v: "valid_id (rt_unicode rt) (document_id doc)"
    and run: "engine_apply_replicated_put rt doc g (no_engine n) = (Inl e, en')"
  shows "e \<noteq> HTTPException k"
proof -
  let ?en = "no_engine n"
  have "store_ok (rt_unicode rt) (en_store ?en)" using ok by (simp add: node_ok_def engine_inv_def)
  from on_store_put_cases [OF this v, of g] have store: "e = StorageError" if "on_store (store_put doc g) ?en = (Inl e, en'')" for e en''
    using that by auto
  have cls: "en1 = ?en" if "classify_generation g ?en = (Inr APPLIED, en1)" for en1
    using that by (auto simp: classify_generation_def require_operational_def sbind_def slift_def split: if_splits)
  show ?thesis
  proof (cases "classify_generation g ?en")
    case (Pair r en1)
    show ?thesis
    proof (cases "r = Inr APPLIED")
      case True
      with Pair cls have c: "classify_generation g ?en = (Inr APPLIED, ?en)" by auto
      show ?thesis
      proof (cases "embed_document (en_embedder ?en) (doc_text doc)")
        case (Inl x)
        then have "e = x" using run c by (simp add: engine_apply_replicated_put_def sbind_def)
        with embed_document_exn [OF Inl] ok show ?thesis by (simp add: node_ok_def)
      next
        case (Inr vector)
        then show ?thesis using run c store
          by (cases "on_store (store_put doc g) ?en"; cases "fst (on_store (store_put doc g) ?en)")
            (auto simp: engine_apply_replicated_put_def sbind_def st_defs split: prod.splits sum.splits dest!: degrade_exn)
      qed
    next
      case False
      then show ?thesis using run Pair classify_exn [of g ?en]
        by (cases r) (auto simp: engine_apply_replicated_put_def sbind_def slift_def)
    qed
  qed
qed

lemma apply_delete_exn:
  assumes ok: "node_ok rt n" and run: "engine_apply_replicated_delete d g (no_engine n) = (Inl e, en')"
  shows "e \<noteq> HTTPException k"
proof -
  let ?en = "no_engine n"
  have "store_ok (rt_unicode rt) (en_store ?en)" using ok by (simp add: node_ok_def engine_inv_def)
  from on_store_delete_cases [OF this, of d g] have store: "e = StorageError" if "on_store (store_delete d g) ?en = (Inl e, en'')" for e en''
    using that by auto
  have cls: "en1 = ?en" if "classify_generation g ?en = (Inr APPLIED, en1)" for en1
    using that by (auto simp: classify_generation_def require_operational_def sbind_def slift_def split: if_splits)
  show ?thesis
  proof (cases "classify_generation g ?en")
    case (Pair r en1)
    then show ?thesis using run classify_exn [of g ?en] store cls
      by (cases r; cases "on_store (store_delete d g) ?en"; cases "fst (on_store (store_delete d g) ?en)")
        (auto simp: engine_apply_replicated_delete_def sbind_def st_defs split: prod.splits sum.splits if_splits dest!: degrade_exn)
  qed
qed

section \<open>Requests to a replica\<close>

text \<open>
  What one engine sees of a replicated mutation that the primary counts as done: it was the next
  generation and the copy, ready before and after, has its effect \<open>f\<close>; or the copy had it already.
\<close>

definition mutation_done :: "((pystr \<rightharpoonup> pystr) \<Rightarrow> pystr \<rightharpoonup> pystr) \<Rightarrow> int \<Rightarrow> 'f engine \<Rightarrow> 'f engine \<Rightarrow> bool" where
  "mutation_done f g en en' \<longleftrightarrow>
     g = en_generation en + 1 \<and> en_state en = READY \<and> en_state en' = READY \<and> engine_corpus en' = f (engine_corpus en) \<and> en_generation en' = g
     \<or> g \<le> en_generation en \<and> en_state en' = en_state en \<and> engine_corpus en' = engine_corpus en \<and> en_generation en' = en_generation en"

lemma routed_Some [simp]: "path_id d = Some d' \<Longrightarrow> routed path_id d handler s = handler d' s"
  by (simp add: routed_def)

lemma answered_mutation:
  assumes h: "handler n = serve (\<lambda>_. 200) (sbind require_replica (\<lambda>_. sbind (check_generation g) (\<lambda>_. sbind (on_engine m) replication_response_for))) n"
    and cases: "m (no_engine n) = (r, en')" "replicated_outcome (engine_corpus (no_engine n)) (en_generation (no_engine n)) (f (engine_corpus (no_engine n))) g
        (en_state (no_engine n)) (engine_corpus en') (en_generation en') (en_state en') r"
    and exn: "\<And>e k. r = Inl e \<Longrightarrow> e \<noteq> HTTPException k"
    and run: "link_request dl handler n = (Inr response, n')"
  shows "mutation_done f g (no_engine n) (no_engine n') \<and> n' = n\<lparr>no_engine := en'\<rparr> \<and> \<not> has_replicator n \<and> 1 \<le> g"
proof -
  have ans: "handler n = (response, n')" "rs_status response < 400" "dl = Delivered"
    using run by (cases dl; cases "handler n"; auto simp: link_request_def split: if_splits)+
  then have role: "\<not> has_replicator n" and g: "1 \<le> g"
    using h by (auto simp: serve_def require_replica_def check_generation_def sbind_def split: if_splits)
  have "error_status e \<ge> 400" if "r = Inl e" for e using exn [OF that] by (intro error_status_range) auto
  then obtain outcome where o: "r = Inr outcome" "outcome \<noteq> GAP" "n' = n\<lparr>no_engine := en'\<rparr>"
    using h ans role g cases(1)
    by (cases r) (auto simp: serve_def require_replica_def check_generation_def sbind_def on_engine_def replication_response_for_def split: if_splits)
  then show ?thesis using cases(2) role g by (cases outcome) (auto simp: replicated_outcome_def mutation_done_def)
qed

abbreviation put_effect :: "document \<Rightarrow> (pystr \<rightharpoonup> pystr) \<Rightarrow> pystr \<rightharpoonup> pystr" where
  "put_effect doc C \<equiv> C(document_id doc \<mapsto> doc_text doc)"

abbreviation delete_effect :: "pystr \<Rightarrow> (pystr \<rightharpoonup> pystr) \<Rightarrow> pystr \<rightharpoonup> pystr" where
  "delete_effect d C \<equiv> C(d := None)"

lemma link_put_done:
  assumes ok: "node_ok rt n" and v: "valid_id (rt_unicode rt) (document_id doc)" and p: "path_id (document_id doc) = Some (document_id doc)"
    and run: "link_apply_put rt path_id doc g dl n = (Inr (), n')"
  shows "mutation_done (put_effect doc) g (no_engine n) (no_engine n') \<and> node_ok rt n' \<and> no_settings n' = no_settings n"
proof -
  let ?handler = "routed path_id (document_id doc) (\<lambda>d. replicate_document rt d (doc_text doc) g)"
  from run obtain response where run': "link_request dl ?handler n = (Inr response, n')"
    by (auto simp: link_apply_put_def sbind_def slift_def split: prod.splits sum.splits)
  have inv: "engine_inv rt (no_engine n)" using ok by (simp add: node_ok_def)
  from apply_replicated_put_cases [OF inv v, of g] obtain r en' where
    c: "engine_apply_replicated_put rt doc g (no_engine n) = (r, en')" "engine_inv rt en'" "en_embedder en' = en_embedder (no_engine n)"
      "replicated_outcome (engine_corpus (no_engine n)) (en_generation (no_engine n)) (put_effect doc (engine_corpus (no_engine n))) g
        (en_state (no_engine n)) (engine_corpus en') (en_generation en') (en_state en') r" by blast
  have doc: "mk_document (rt_unicode rt) (document_id doc) (doc_text doc) = Inr doc" using v by simp
  have h: "?handler n = serve (\<lambda>_. 200) (sbind require_replica (\<lambda>_. sbind (check_generation g)
      (\<lambda>_. sbind (on_engine (engine_apply_replicated_put rt doc g)) replication_response_for))) n"
    by (simp add: p replicate_document_def doc slift_def sbind_def serve_def split: prod.split sum.split)
  have exn: "e \<noteq> HTTPException k" if "r = Inl e" for e k using apply_put_exn [OF ok v] c(1) that by blast
  from answered_mutation [where f = "put_effect doc", OF h c(1,4) exn run'] show ?thesis using c(2,3) ok by (auto simp: node_ok_def)
qed

lemma link_delete_done:
  assumes ok: "node_ok rt n" and p: "path_id d = Some d" and run: "link_apply_delete path_id d g dl n = (Inr (), n')"
  shows "mutation_done (delete_effect d) g (no_engine n) (no_engine n') \<and> node_ok rt n' \<and> no_settings n' = no_settings n"
proof -
  let ?handler = "routed path_id d (\<lambda>d. replicate_delete d g)"
  from run obtain response where run': "link_request dl ?handler n = (Inr response, n')"
    by (auto simp: link_apply_delete_def sbind_def slift_def split: prod.splits sum.splits)
  have inv: "engine_inv rt (no_engine n)" using ok by (simp add: node_ok_def)
  from apply_replicated_delete_cases [OF inv, of d g] obtain r en' where
    c: "engine_apply_replicated_delete d g (no_engine n) = (r, en')" "engine_inv rt en'" "en_embedder en' = en_embedder (no_engine n)"
      "replicated_outcome (engine_corpus (no_engine n)) (en_generation (no_engine n)) (delete_effect d (engine_corpus (no_engine n))) g
        (en_state (no_engine n)) (engine_corpus en') (en_generation en') (en_state en') r" by blast
  have h: "?handler n = serve (\<lambda>_. 200) (sbind require_replica (\<lambda>_. sbind (check_generation g)
      (\<lambda>_. sbind (on_engine (engine_apply_replicated_delete d g)) replication_response_for))) n"
    by (simp add: p replicate_delete_def)
  have exn: "e \<noteq> HTTPException k" if "r = Inl e" for e k using apply_delete_exn [OF ok] c(1) that by blast
  from answered_mutation [where f = "delete_effect d", OF h c(1,4) exn run'] show ?thesis using c(2,3) ok by (auto simp: node_ok_def)
qed

section \<open>Fan-out of the primary\<close>

lemma replicate_one_done:
  assumes "replicate_one ap i gr = (Inr u, gr')"
  obtains dl n where "ap dl (gr_replicas gr ! i) = (Inr u, n)" "gr_replicas gr' = (gr_replicas gr)[i := n]" "gr_primary gr' = gr_primary gr"
proof -
  let ?dl = "if gr_net gr = [] then Delivered else hd (gr_net gr)"
  show thesis
    using assms that by (cases "ap ?dl (gr_replicas gr ! i)")
      (auto simp: replicate_one_def next_delivery_def on_replica_def sbind_def split: sum.splits)
qed

lemma replicate_fold_done:
  assumes "sfold (replicate_one ap) is gr = (Inr (), gr')" "distinct is" "set is \<subseteq> {..<length (gr_replicas gr)}"
  shows "gr_primary gr' = gr_primary gr \<and> length (gr_replicas gr') = length (gr_replicas gr)
    \<and> (\<forall>i\<in>set is. \<exists>dl. ap dl (gr_replicas gr ! i) = (Inr (), gr_replicas gr' ! i))
    \<and> (\<forall>i. i \<notin> set is \<longrightarrow> gr_replicas gr' ! i = gr_replicas gr ! i)"
  using assms
proof (induction "is" arbitrary: gr)
  case (Cons i "is")
  from Cons.prems(1) obtain gr1 where one: "replicate_one ap i gr = (Inr (), gr1)" and rest: "sfold (replicate_one ap) is gr1 = (Inr (), gr')"
    by (auto simp: sbind_def split: prod.splits sum.splits)
  from replicate_one_done [OF one] obtain dl n where
    n: "ap dl (gr_replicas gr ! i) = (Inr (), n)" "gr_replicas gr1 = (gr_replicas gr)[i := n]" "gr_primary gr1 = gr_primary gr" .
  from Cons.IH [OF rest] Cons.prems n(2)
  have ih: "gr_primary gr' = gr_primary gr1 \<and> length (gr_replicas gr') = length (gr_replicas gr1)
    \<and> (\<forall>i\<in>set is. \<exists>dl. ap dl (gr_replicas gr1 ! i) = (Inr (), gr_replicas gr' ! i))
    \<and> (\<forall>i. i \<notin> set is \<longrightarrow> gr_replicas gr' ! i = gr_replicas gr1 ! i)" by simp
  have i: "i < length (gr_replicas gr)" "i \<notin> set is" using Cons.prems by auto
  have "\<exists>dl. ap dl (gr_replicas gr ! j) = (Inr (), gr_replicas gr' ! j)" if "j \<in> set (i # is)" for j
  proof (cases "j = i")
    case True
    then show ?thesis using n ih i by auto
  next
    case False
    then have "j \<in> set is" "gr_replicas gr1 ! j = gr_replicas gr ! j" using that n(2) by auto
    then show ?thesis using ih by metis
  qed
  then show ?case using ih n i by auto
qed simp

lemma replicate_all_done:
  assumes "replicate_to_all ap gr = (Inr (), gr')"
  shows "gr_primary gr' = gr_primary gr" "length (gr_replicas gr') = length (gr_replicas gr)"
    "i < length (gr_replicas gr) \<Longrightarrow> \<exists>dl. ap dl (gr_replicas gr ! i) = (Inr (), gr_replicas gr' ! i)"
  using replicate_fold_done [OF assms [unfolded replicate_to_all_def]] by (auto simp: atLeast0LessThan)

lemma replicate_all_exn: "replicate_to_all ap gr = (Inl e, gr') \<Longrightarrow> e = ReplicationError \<and> gr_primary gr' = gr_primary gr"
proof -
  have one: "e = ReplicationError" if "replicate_one ap i gr = (Inl e, gr')" for i gr gr' e
    using that by (auto simp: replicate_one_def next_delivery_def on_replica_def sbind_def split: prod.splits sum.splits)
  have prim: "gr_primary (snd (replicate_one ap i gr)) = gr_primary gr" for i gr
    by (auto simp: replicate_one_def next_delivery_def on_replica_def sbind_def split: prod.splits sum.splits)
  have "sfold (replicate_one ap) is gr = (Inl e, gr') \<Longrightarrow> e = ReplicationError \<and> gr_primary gr' = gr_primary gr" for "is"
  proof (induction "is" arbitrary: gr)
    case (Cons i "is")
    show ?case
    proof (cases "replicate_one ap i gr")
      case (Pair r gr1)
      then show ?thesis using Cons one prim [of i gr] by (cases r) (auto simp: sbind_def)
    qed
  qed simp
  then show "replicate_to_all ap gr = (Inl e, gr') \<Longrightarrow> e = ReplicationError \<and> gr_primary gr' = gr_primary gr"
    by (simp add: replicate_to_all_def)
qed

section \<open>Acknowledged writes\<close>

text \<open>A shard whose copies are sound and whose replicas are not ahead of the primary.\<close>

definition group_ok :: "'f runtime \<Rightarrow> 'f shard_group \<Rightarrow> bool" where
  "group_ok rt gr \<longleftrightarrow> node_ok rt (gr_primary gr) \<and> list_all (node_ok rt) (gr_replicas gr)
     \<and> list_all (\<lambda>n. en_generation (no_engine n) \<le> en_generation (no_engine (gr_primary gr))) (gr_replicas gr)"

text \<open>Every copy was ready at generation \<open>g\<close> and is ready at the next one, with the effect \<open>f\<close>.\<close>

definition advanced :: "((pystr \<rightharpoonup> pystr) \<Rightarrow> pystr \<rightharpoonup> pystr) \<Rightarrow> int \<Rightarrow> 'f node \<Rightarrow> 'f node \<Rightarrow> bool" where
  "advanced f g n n' \<longleftrightarrow> en_state (no_engine n) = READY \<and> en_generation (no_engine n) = g
     \<and> en_state (no_engine n') = READY \<and> en_generation (no_engine n') = g + 1
     \<and> engine_corpus (no_engine n') = f (engine_corpus (no_engine n))"

definition write_on_every_copy :: "((pystr \<rightharpoonup> pystr) \<Rightarrow> pystr \<rightharpoonup> pystr) \<Rightarrow> 'f shard_group \<Rightarrow> 'f shard_group \<Rightarrow> bool" where
  "write_on_every_copy f gr gr' \<longleftrightarrow>
     (let g = en_generation (no_engine (gr_primary gr))
      in advanced f g (gr_primary gr) (gr_primary gr') \<and> list_all2 (advanced f g) (gr_replicas gr) (gr_replicas gr'))"

lemma write_all_lemma:
  assumes ok: "group_ok rt gr" and p: "advanced f (en_generation (no_engine (gr_primary gr))) (gr_primary gr) p'"
    and rep: "replicate_to_all ap (gr\<lparr>gr_primary := p'\<rparr>) = (Inr (), gr')"
    and dn: "\<And>n n' dl. node_ok rt n \<Longrightarrow> ap dl n = (Inr (), n') \<Longrightarrow>
        mutation_done f (en_generation (no_engine (gr_primary gr)) + 1) (no_engine n) (no_engine n')"
  shows "write_on_every_copy f gr gr'"
proof -
  let ?g = "en_generation (no_engine (gr_primary gr))"
  note r = replicate_all_done [OF rep]
  have "advanced f ?g (gr_replicas gr ! i) (gr_replicas gr' ! i)" if i: "i < length (gr_replicas gr)" for i
  proof -
    have n: "node_ok rt (gr_replicas gr ! i)" "en_generation (no_engine (gr_replicas gr ! i)) \<le> ?g"
      using ok i by (auto simp: group_ok_def list_all_length)
    from r(3) i obtain dl where "ap dl (gr_replicas gr ! i) = (Inr (), gr_replicas gr' ! i)" by auto
    from dn [OF n(1) this] n(2) show ?thesis by (auto simp: mutation_done_def advanced_def)
  qed
  then show ?thesis using p r(1,2) by (simp add: write_on_every_copy_def Let_def list_all2_conv_all_nth)
qed

lemma index_document_advances:
  assumes "node_ok rt n" "valid_id (rt_unicode rt) (document_id doc)" "on_engine (engine_index_document rt doc) n = (Inr created, n')"
  shows "advanced (put_effect doc) (en_generation (no_engine n)) n n'" "created = (engine_corpus (no_engine n) (document_id doc) = None)"
  using index_document_cases [of rt "no_engine n" doc] assms
  by (auto simp: node_ok_def on_engine_def mutation_outcome_def advanced_def split: prod.splits)

lemma delete_document_advances:
  assumes "node_ok rt n" "on_engine (engine_delete_document d) n = (Inr u, n')"
  shows "advanced (delete_effect d) (en_generation (no_engine n)) n n'"
  using delete_document_cases [of rt "no_engine n" d] assms
  by (auto simp: node_ok_def on_engine_def mutation_outcome_def advanced_def split: prod.splits)

lemma index_write_all:
  assumes ok: "group_ok rt gr" and v: "valid_id (rt_unicode rt) (document_id doc)" and p: "path_id (document_id doc) = Some (document_id doc)"
    and run: "replicator_index_document rt path_id doc gr = (Inr created, gr')"
  shows "write_on_every_copy (put_effect doc) gr gr' \<and> created = (engine_corpus (no_engine (gr_primary gr)) (document_id doc) = None)"
proof -
  from run obtain p' where p': "on_engine (engine_index_document rt doc) (gr_primary gr) = (Inr created, p')"
    and rep: "replicate_to_all (link_apply_put rt path_id doc (en_generation (no_engine p'))) (gr\<lparr>gr_primary := p'\<rparr>) = (Inr (), gr')"
    by (auto simp: replicator_index_document_def on_primary_def sbind_def st_defs split: prod.splits sum.splits)
  have n: "node_ok rt (gr_primary gr)" using ok by (simp add: group_ok_def)
  note adv = index_document_advances [OF n v p']
  have g: "en_generation (no_engine p') = en_generation (no_engine (gr_primary gr)) + 1" using adv(1) by (simp add: advanced_def)
  show ?thesis
    using write_all_lemma [OF ok adv(1) rep] link_put_done [where path_id = path_id, OF _ v p] adv(2) by (simp only: g)
qed

lemma delete_write_all:
  assumes ok: "group_ok rt gr" and p: "path_id d = Some d" and run: "replicator_delete_document path_id d gr = (Inr (), gr')"
  shows "write_on_every_copy (delete_effect d) gr gr'"
proof -
  from run obtain p' where p': "on_engine (engine_delete_document d) (gr_primary gr) = (Inr (), p')"
    and rep: "replicate_to_all (link_apply_delete path_id d (en_generation (no_engine p'))) (gr\<lparr>gr_primary := p'\<rparr>) = (Inr (), gr')"
    by (auto simp: replicator_delete_document_def on_primary_def sbind_def st_defs split: prod.splits sum.splits)
  have n: "node_ok rt (gr_primary gr)" using ok by (simp add: group_ok_def)
  note adv = delete_document_advances [OF n p']
  have g: "en_generation (no_engine p') = en_generation (no_engine (gr_primary gr)) + 1" using adv by (simp add: advanced_def)
  show ?thesis using write_all_lemma [OF ok adv rep] link_delete_done [where path_id = path_id, OF _ p] by (simp only: g) blast
qed

section \<open>A replica that works\<close>

lemma apply_put_works:
  assumes inv: "engine_inv rt en" and r: "en_state en = READY" and calm: "calm (en_store en)"
    and e: "case en_embedder en of None \<Rightarrow> True | Some e \<Rightarrow> embedder_works (rt_numpy rt) e"
  shows "\<exists>en'. engine_apply_replicated_put rt doc (en_generation en + 1) en = (Inr APPLIED, en')"
proof -
  let ?g = "en_generation en + 1"
  from embed_document_works [OF e] obtain vector where v: "embed_document (en_embedder en) (doc_text doc) = Inr vector"
      "case vector of None \<Rightarrow> True | Some v \<Rightarrow> \<exists>e. en_embedder en = Some e \<and> vec_ok (rt_numpy rt) (si_dimension (em_identity e)) v" by blast
  obtain b con where put: "store_put doc ?g (en_store en) = (Inr b, con)"
    using calm_put [OF calm, of doc ?g] by (cases "store_put doc ?g (en_store en)") auto
  let ?en = "en\<lparr>en_store := con\<rparr>"
  have "derived_repr rt ?en (engine_corpus en)"
    using engine_invD(3) [OF inv r] by (auto simp: engine_consistent_def intro: derived_repr_cong)
  moreover have "case vector of None \<Rightarrow> True | Some v \<Rightarrow> \<exists>e. en_embedder ?en = Some e \<and> vec_ok (rt_numpy rt) (si_dimension (em_identity e)) v"
    using v(2) by (cases vector) auto
  ultimately have "fst (apply_derived rt doc (analyze (rt_unicode rt) (doc_text doc)) vector ?en) = Inr ()" by (rule apply_derived_works)
  then obtain en' where a: "apply_derived rt doc (analyze (rt_unicode rt) (doc_text doc)) vector ?en = (Inr (), en')"
    by (cases "apply_derived rt doc (analyze (rt_unicode rt) (doc_text doc)) vector ?en") auto
  show ?thesis
    using v(1) r put a
    by (simp add: engine_apply_replicated_put_def classify_generation_def require_operational_def sbind_def st_defs on_store_def degrade_on_failure_def)
qed

definition replica_settings :: settings where
  "replica_settings = default_settings\<lparr>se_node_role := Shard, se_replica_role := Some Replica\<rparr>"

definition primary_settings :: settings where
  "primary_settings = default_settings\<lparr>se_node_role := Shard, se_replica_role := Some Primary\<rparr>"

definition small_group :: "real engine \<Rightarrow> real shard_group" where
  "small_group replica = \<lparr>gr_primary = \<lparr>no_engine = ready_engine, no_settings = primary_settings\<rparr>,
     gr_replicas = [\<lparr>no_engine = replica, no_settings = replica_settings\<rparr>], gr_net = []\<rparr>"

lemma ready_engine_generation: "en_generation ready_engine = 0"
proof -
  have "en_store ready_engine = en_store (blank_engine [])"
    using calm_initialize [of real_runtime "blank_engine []"] blank_calm by (simp add: ready_engine_def blank_engine_facts real_runtime_def)
  then have "store_content (en_store ready_engine) = (Map.empty, 0)" by (simp add: blank_engine_facts)
  then show ?thesis using ready_engine_facts(7) by (simp add: engine_consistent_def)
qed

lemma small_group_ok:
  assumes "engine_inv real_runtime replica" "en_embedder replica = None" "en_generation replica \<le> 0"
  shows "group_ok real_runtime (small_group replica)"
  using assms ready_engine_facts by (simp add: group_ok_def small_group_def node_ok_def ready_engine_generation)

lemma small_group_write:
  assumes "valid_id ascii_unicode (document_id doc)"
  shows "\<exists>gr'. replicator_index_document real_runtime Some doc (small_group ready_engine) = (Inr True, gr')"
proof -
  have none: "case en_embedder ready_engine of None \<Rightarrow> True | Some e \<Rightarrow> embedder_works (rt_numpy real_runtime) e"
    by (simp add: ready_engine_facts)
  have v: "valid_id (rt_unicode real_runtime) (document_id doc)" using assms by (simp add: real_runtime_def)
  from index_document_cases [OF ready_engine_facts(1) v] index_document_works(1) [OF ready_engine_facts(1-3) none, of doc]
  obtain en1 where 1: "engine_index_document real_runtime doc ready_engine = (Inr True, en1)" "en_generation en1 = 1"
    by (auto simp: mutation_outcome_def ready_engine_facts ready_engine_generation)
  from apply_put_works [OF ready_engine_facts(1-3) none, of doc] obtain en2 where
    2: "engine_apply_replicated_put real_runtime doc 1 ready_engine = (Inr APPLIED, en2)" by (auto simp: ready_engine_generation)
  have doc: "mk_document (rt_unicode real_runtime) (document_id doc) (doc_text doc) = Inr doc" using v by simp
  show ?thesis
    by (simp add: replicator_index_document_def small_group_def on_primary_def on_engine_def 1 sbind_def st_defs replicate_to_all_def
        replicate_one_def next_delivery_def on_replica_def link_apply_put_def link_request_def replicate_document_def serve_def
        require_replica_def has_replicator_def replica_settings_def check_generation_def doc 2 replication_response_for_def)
qed

section \<open>A replica that cannot be reached\<close>

text \<open>
  The primary asks the replicas in turn and stops at the first one that does not confirm. If the request or
  the answer of one of them is lost, the write ends there at the latest.
\<close>

lemma replicate_one_step:
  "replicate_one ap i gr =
     (let dl = (if gr_net gr = [] then Delivered else hd (gr_net gr)); r = ap dl (gr_replicas gr ! i)
      in ((case fst r of Inl _ \<Rightarrow> Inl ReplicationError | Inr u \<Rightarrow> Inr u),
          gr\<lparr>gr_net := tl (gr_net gr), gr_replicas := (gr_replicas gr)[i := snd r]\<rparr>))"
  by (simp add: replicate_one_def next_delivery_def on_replica_def sbind_def Let_def split: prod.split sum.split)

lemma replicate_fold_stops:
  assumes lost: "\<And>dl n. dl \<noteq> Delivered \<Longrightarrow> \<exists>e. fst (ap dl n) = Inl e"
  shows "k < length is \<Longrightarrow> k < length (gr_net gr) \<Longrightarrow> gr_net gr ! k \<noteq> Delivered
    \<Longrightarrow> \<exists>gr'. sfold (replicate_one ap) is gr = (Inl ReplicationError, gr') \<and> gr_primary gr' = gr_primary gr
      \<and> length (gr_replicas gr') = length (gr_replicas gr)
      \<and> (\<forall>j. j \<notin> set (take (Suc k) is) \<longrightarrow> gr_replicas gr' ! j = gr_replicas gr ! j)"
proof (induction "is" arbitrary: k gr)
  case (Cons i "is")
  obtain dl net where net: "gr_net gr = dl # net" using Cons.prems(2) by (cases "gr_net gr") auto
  obtain r n where r: "ap dl (gr_replicas gr ! i) = (r, n)" by (cases "ap dl (gr_replicas gr ! i)")
  let ?gr = "gr\<lparr>gr_net := net, gr_replicas := (gr_replicas gr)[i := n]\<rparr>"
  show ?case
  proof (cases r)
    case (Inl e)
    then show ?thesis by (simp add: replicate_one_step net r sbind_def)
  next
    case (Inr u)
    then have one: "replicate_one ap i gr = (Inr (), ?gr)" by (simp add: replicate_one_step net r)
    have "k \<noteq> 0" using lost [of dl "gr_replicas gr ! i"] Cons.prems(3) net r Inr by (cases k) auto
    then obtain k' where k: "k = Suc k'" by (cases k) auto
    from Cons.IH [of k' ?gr] Cons.prems k net obtain gr' where
      g: "sfold (replicate_one ap) is ?gr = (Inl ReplicationError, gr')" "gr_primary gr' = gr_primary gr"
        "length (gr_replicas gr') = length (gr_replicas gr)"
        "\<forall>j. j \<notin> set (take (Suc k') is) \<longrightarrow> gr_replicas gr' ! j = gr_replicas ?gr ! j" by auto
    have "sfold (replicate_one ap) (i # is) gr = (Inl ReplicationError, gr')" using one g(1) by (simp add: sbind_def)
    moreover have "gr_replicas gr' ! j = gr_replicas gr ! j" if "j \<notin> set (take (Suc k) (i # is))" for j
      using that g(4) k by simp
    ultimately show ?thesis using g(2,3) by blast
  qed
qed simp

lemma lost_links:
  assumes "dl \<noteq> Delivered"
  shows "\<exists>e. fst (link_apply_put rt path_id doc g dl n) = Inl e" "\<exists>e. fst (link_apply_delete path_id d g dl n) = Inl e"
  using assms by (cases dl; simp add: link_apply_put_def link_apply_delete_def link_request_def sbind_def)+

lemma replicate_all_stops:
  assumes "\<And>dl n. dl \<noteq> Delivered \<Longrightarrow> \<exists>e. fst (ap dl n) = Inl e"
    and "k < length (gr_replicas gr)" "k < length (gr_net gr)" "gr_net gr ! k \<noteq> Delivered"
  shows "\<exists>gr'. replicate_to_all ap gr = (Inl ReplicationError, gr') \<and> gr_primary gr' = gr_primary gr
      \<and> length (gr_replicas gr') = length (gr_replicas gr) \<and> drop (Suc k) (gr_replicas gr') = drop (Suc k) (gr_replicas gr)"
proof -
  from replicate_fold_stops [of ap, where k = k and gr = gr, OF assms(1), of "[0..<length (gr_replicas gr)]"] assms(2-) obtain gr' where
    g: "replicate_to_all ap gr = (Inl ReplicationError, gr')" "gr_primary gr' = gr_primary gr" "length (gr_replicas gr') = length (gr_replicas gr)"
      "\<forall>j. j \<notin> set (take (Suc k) [0..<length (gr_replicas gr)]) \<longrightarrow> gr_replicas gr' ! j = gr_replicas gr ! j"
    by (auto simp: replicate_to_all_def)
  have "take (Suc k) [0..<length (gr_replicas gr)] = [0..<Suc k]" using assms(2) by (simp add: take_upt)
  then have "drop (Suc k) (gr_replicas gr') = drop (Suc k) (gr_replicas gr)" using g(3,4) by (intro nth_equalityI) auto
  with g(1-3) show ?thesis by blast
qed

section \<open>Properties\<close>

text \<open>C3. Read one, write all: with replicas not ahead of their primary, a write or delete is acknowledged only
  if every copy was \<open>READY\<close> at the primary's generation and every copy, still \<open>READY\<close>, has applied it and is at
  the next generation, whatever the network did; copies that agreed before still agree.\<close>

theorem acknowledged_write_on_every_copy:
  assumes "group_ok rt gr" "valid_id (rt_unicode rt) (document_id doc)"
    and "path_id (document_id doc) = Some (document_id doc)" "path_id d = Some d"
  shows "(\<forall>created gr'. replicator_index_document rt path_id doc gr = (Inr created, gr') \<longrightarrow>
      write_on_every_copy (put_effect doc) gr gr' \<and> created = (engine_corpus (no_engine (gr_primary gr)) (document_id doc) = None))
    \<and> (\<forall>gr'. replicator_delete_document path_id d gr = (Inr (), gr') \<longrightarrow> write_on_every_copy (delete_effect d) gr gr')"
  using index_write_all [where path_id = path_id, OF assms(1-3)] delete_write_all [where path_id = path_id, OF assms(1,4)] by blast

theorem acknowledged_write_on_every_copy_witness:
  "\<exists>gr'. replicator_index_document real_runtime Some \<lparr>document_id = ustr ''a'', doc_text = ustr ''x''\<rparr> (small_group ready_engine) = (Inr True, gr')
     \<and> write_on_every_copy (put_effect \<lparr>document_id = ustr ''a'', doc_text = ustr ''x''\<rparr>) (small_group ready_engine) gr'"
proof -
  let ?doc = "\<lparr>document_id = ustr ''a'', doc_text = ustr ''x''\<rparr>"
  have v: "valid_id ascii_unicode (document_id ?doc)" using valid_a by simp
  from small_group_write [OF v] obtain gr' where
    w: "replicator_index_document real_runtime Some ?doc (small_group ready_engine) = (Inr True, gr')" by blast
  have ok: "group_ok real_runtime (small_group ready_engine)"
    by (rule small_group_ok) (simp_all add: ready_engine_facts ready_engine_generation)
  from acknowledged_write_on_every_copy [OF ok, of ?doc Some "ustr ''a''"] v w show ?thesis
    by (simp add: real_runtime_def) blast
qed

text \<open>C5. Write all or fail: if the request to some replica, or its answer, is lost, every write and every
  delete that the primary commits raises \<open>ReplicationError\<close>, and no replica behind that one is asked; the
  mutation stays durable on the primary, which stays \<open>READY\<close> one generation further.\<close>

theorem unreachable_replica_fails_writes:
  assumes "engine_inv rt (no_engine (gr_primary gr))" "valid_id (rt_unicode rt) (document_id doc)"
    and "k < length (gr_replicas gr)" "k < length (gr_net gr)" "gr_net gr ! k \<noteq> Delivered"
  shows "(\<forall>created en. engine_index_document rt doc (no_engine (gr_primary gr)) = (Inr created, en) \<longrightarrow>
      (\<exists>gr'. replicator_index_document rt path_id doc gr = (Inl ReplicationError, gr') \<and> no_engine (gr_primary gr') = en
        \<and> en_state en = READY \<and> en_generation en = en_generation (no_engine (gr_primary gr)) + 1
        \<and> engine_corpus en = (engine_corpus (no_engine (gr_primary gr)))(document_id doc \<mapsto> doc_text doc)
        \<and> length (gr_replicas gr') = length (gr_replicas gr) \<and> drop (Suc k) (gr_replicas gr') = drop (Suc k) (gr_replicas gr)))
    \<and> (\<forall>u en. engine_delete_document d (no_engine (gr_primary gr)) = (Inr u, en) \<longrightarrow>
      (\<exists>gr'. replicator_delete_document path_id d gr = (Inl ReplicationError, gr') \<and> no_engine (gr_primary gr') = en
        \<and> en_state en = READY \<and> en_generation en = en_generation (no_engine (gr_primary gr)) + 1
        \<and> engine_corpus en = (engine_corpus (no_engine (gr_primary gr)))(d := None)
        \<and> length (gr_replicas gr') = length (gr_replicas gr) \<and> drop (Suc k) (gr_replicas gr') = drop (Suc k) (gr_replicas gr)))"
proof (intro conjI allI impI)
  fix created en assume r: "engine_index_document rt doc (no_engine (gr_primary gr)) = (Inr created, en)"
  have "on_engine (engine_index_document rt doc) (gr_primary gr) = (Inr created, gr_primary gr\<lparr>no_engine := en\<rparr>)"
    by (simp add: on_engine_def r)
  then show "\<exists>gr'. replicator_index_document rt path_id doc gr = (Inl ReplicationError, gr') \<and> no_engine (gr_primary gr') = en
        \<and> en_state en = READY \<and> en_generation en = en_generation (no_engine (gr_primary gr)) + 1
        \<and> engine_corpus en = (engine_corpus (no_engine (gr_primary gr)))(document_id doc \<mapsto> doc_text doc)
        \<and> length (gr_replicas gr') = length (gr_replicas gr) \<and> drop (Suc k) (gr_replicas gr') = drop (Suc k) (gr_replicas gr)"
    using index_document_cases [OF assms(1,2)] r assms(3-5)
      replicate_all_stops [where ap = "link_apply_put rt path_id doc (en_generation en)" and k = k
        and gr = "gr\<lparr>gr_primary := gr_primary gr\<lparr>no_engine := en\<rparr>\<rparr>", OF lost_links(1)]
    by (auto simp: replicator_index_document_def on_primary_def sbind_def st_defs mutation_outcome_def)
next
  fix u en assume r: "engine_delete_document d (no_engine (gr_primary gr)) = (Inr u, en)"
  have "on_engine (engine_delete_document d) (gr_primary gr) = (Inr u, gr_primary gr\<lparr>no_engine := en\<rparr>)"
    by (simp add: on_engine_def r)
  then show "\<exists>gr'. replicator_delete_document path_id d gr = (Inl ReplicationError, gr') \<and> no_engine (gr_primary gr') = en
        \<and> en_state en = READY \<and> en_generation en = en_generation (no_engine (gr_primary gr)) + 1
        \<and> engine_corpus en = (engine_corpus (no_engine (gr_primary gr)))(d := None)
        \<and> length (gr_replicas gr') = length (gr_replicas gr) \<and> drop (Suc k) (gr_replicas gr') = drop (Suc k) (gr_replicas gr)"
    using delete_document_cases [OF assms(1), of d] r assms(3-5)
      replicate_all_stops [where ap = "link_apply_delete path_id d (en_generation en)" and k = k
        and gr = "gr\<lparr>gr_primary := gr_primary gr\<lparr>no_engine := en\<rparr>\<rparr>", OF lost_links(2)]
    by (auto simp: replicator_delete_document_def on_primary_def sbind_def st_defs mutation_outcome_def)
qed

theorem unreachable_replica_fails_writes_witness:
  "\<exists>gr' en. engine_index_document real_runtime \<lparr>document_id = ustr ''a'', doc_text = ustr ''x''\<rparr> ready_engine = (Inr True, en)
     \<and> replicator_index_document real_runtime Some \<lparr>document_id = ustr ''a'', doc_text = ustr ''x''\<rparr>
         ((small_group ready_engine)\<lparr>gr_net := [Unreachable False]\<rparr>) = (Inl ReplicationError, gr')
     \<and> no_engine (gr_primary gr') = en \<and> engine_corpus en = [ustr ''a'' \<mapsto> ustr ''x'']"
proof -
  let ?doc = "\<lparr>document_id = ustr ''a'', doc_text = ustr ''x''\<rparr>" and ?gr = "(small_group ready_engine)\<lparr>gr_net := [Unreachable False]\<rparr>"
  have none: "case en_embedder ready_engine of None \<Rightarrow> True | Some e \<Rightarrow> embedder_works (rt_numpy real_runtime) e"
    by (simp add: ready_engine_facts)
  have v: "valid_id (rt_unicode real_runtime) (document_id ?doc)" using valid_a by (simp add: real_runtime_def)
  have prim: "no_engine (gr_primary ?gr) = ready_engine" by (simp add: small_group_def)
  from index_document_cases [OF ready_engine_facts(1) v] index_document_works(1) [OF ready_engine_facts(1-3) none, of ?doc]
  obtain en where r: "engine_index_document real_runtime ?doc ready_engine = (Inr True, en)" by (auto simp: ready_engine_facts)
  have "engine_inv real_runtime (no_engine (gr_primary ?gr))" unfolding prim by (rule ready_engine_facts(1))
  from unreachable_replica_fails_writes [OF this v, of 0 Some] r show ?thesis
    by (fastforce simp: prim ready_engine_facts small_group_def)
qed

text \<open>A replica that is not \<open>READY\<close> has the same effect in the code, against the table of \<open>docs/consistency.md\<close>:
  it refuses the mutation, so the caller gets \<open>ReplicationError\<close>.\<close>

lemma unready_replica_blocks_writes:
  assumes "group_ok rt gr" "valid_id (rt_unicode rt) (document_id doc)" "path_id (document_id doc) = Some (document_id doc)"
    and "n \<in> set (gr_replicas gr)" "en_state (no_engine n) \<noteq> READY"
    and "engine_index_document rt doc (no_engine (gr_primary gr)) = (Inr created, en)"
  shows "\<exists>gr'. replicator_index_document rt path_id doc gr = (Inl ReplicationError, gr') \<and> no_engine (gr_primary gr') = en
    \<and> engine_corpus en = (engine_corpus (no_engine (gr_primary gr)))(document_id doc \<mapsto> doc_text doc)"
proof -
  let ?p = "gr_primary gr\<lparr>no_engine := en\<rparr>"
  let ?rep = "replicate_to_all (link_apply_put rt path_id doc (en_generation en)) (gr\<lparr>gr_primary := ?p\<rparr>)"
  have p: "on_engine (engine_index_document rt doc) (gr_primary gr) = (Inr created, ?p)" by (simp add: on_engine_def assms(6))
  have run: "replicator_index_document rt path_id doc gr =
      (case ?rep of (Inl e, gr') \<Rightarrow> (Inl e, gr') | (Inr _, gr') \<Rightarrow> (Inr created, gr'))"
    by (simp add: replicator_index_document_def on_primary_def p sbind_def st_defs split: prod.split sum.split)
  have "node_ok rt (gr_primary gr)" using assms(1) by (simp add: group_ok_def)
  from index_document_advances(1) [OF this assms(2) p]
  have eff: "engine_corpus en = (engine_corpus (no_engine (gr_primary gr)))(document_id doc \<mapsto> doc_text doc)" by (simp add: advanced_def)
  obtain r gr' where r: "?rep = (r, gr')" by (cases ?rep)
  show ?thesis
  proof (cases r)
    case (Inl e)
    then show ?thesis using replicate_all_exn [of _ "gr\<lparr>gr_primary := ?p\<rparr>" e gr'] r run eff by auto
  next
    case (Inr u)
    then have "replicator_index_document rt path_id doc gr = (Inr created, gr')" using r run by simp
    from index_write_all [where path_id = path_id, OF assms(1-3) this] have "list_all2 (advanced (put_effect doc) (en_generation (no_engine (gr_primary gr)))) (gr_replicas gr) (gr_replicas gr')"
      by (simp add: write_on_every_copy_def Let_def)
    then have "en_state (no_engine n) = READY"
      using assms(4) by (auto simp: list_all2_conv_all_nth in_set_conv_nth advanced_def)
    with assms(5) show ?thesis by simp
  qed
qed

end
