(* ===== verification/Ownership.thy ===== *)
theory Ownership
  imports Replicated_Writes
begin

text \<open>
  A cluster is a list of shards. Writes enter through the coordinator, which routes them by identifier:
  every copy of a shard holds only documents that are routed to it, so the shards are disjoint, which is
  what the exactness of distributed search rests on.
\<close>

section \<open>The coordinator's clients of a cluster\<close>

definition on_shard :: "nat \<Rightarrow> ('f shard_group \<Rightarrow> 'b \<times> 'f shard_group) \<Rightarrow> 'f shard_group list \<Rightarrow> 'b \<times> 'f shard_group list" where
  "on_shard i h w = (case h (w ! i) of (b, gr) \<Rightarrow> (b, w[i := gr]))"

definition cluster_client ::
    "'f::linorder runtime \<Rightarrow> (pystr \<Rightarrow> pystr option) \<Rightarrow> nat \<Rightarrow> (shard_method \<Rightarrow> delivery) \<Rightarrow> 'f node \<Rightarrow> ('f, 'f shard_group list) shard_client" where
  "cluster_client rt path_id i net n =
     http_shard_client rt path_id net (\<lambda>d t. on_shard i (internal_index_document rt path_id d t))
       (\<lambda>d. on_shard i (internal_delete_document path_id d)) n"

text \<open>A coordinator of the cluster \<open>w\<close>: its router counts the shards, and its primaries are clients of
  the shards, in order, over any network.\<close>

definition coordinates :: "'f::linorder runtime \<Rightarrow> (pystr \<Rightarrow> pystr option) \<Rightarrow> ('f, 'f shard_group list) coordinator \<Rightarrow> 'f shard_group list \<Rightarrow> bool" where
  "coordinates rt path_id co w \<longleftrightarrow> w \<noteq> [] \<and> ro_shard_count (co_router co) = int (length w) \<and> length (ct_shards (co_topology co)) = length w
     \<and> (\<forall>i < length w. \<exists>net n. sc_primary (ct_shards (co_topology co) ! i) = cluster_client rt path_id i net n)"

section \<open>What a write can change\<close>

text \<open>A property of nodes that a replicated mutation keeps, whatever its outcome, is kept by the shard.\<close>

lemma on_replica_keeps:
  assumes "list_all P (gr_replicas gr)" "\<And>n. P n \<Longrightarrow> P (snd (m n))" "i < length (gr_replicas gr)"
  shows "list_all P (gr_replicas (snd (on_replica i m gr)))"
  using assms by (cases "m (gr_replicas gr ! i)") (auto simp: on_replica_def list_all_length nth_list_update split: if_splits, metis snd_conv)

lemma replicate_keeps:
  assumes keep: "\<And>n dl. P n \<Longrightarrow> P (snd (ap dl n))" and "list_all P (gr_replicas gr)"
  shows "list_all P (gr_replicas (snd (replicate_to_all ap gr))) \<and> gr_primary (snd (replicate_to_all ap gr)) = gr_primary gr"
proof -
  have one: "list_all P (gr_replicas (snd (replicate_one ap i gr))) \<and> gr_primary (snd (replicate_one ap i gr)) = gr_primary gr
      \<and> length (gr_replicas (snd (replicate_one ap i gr))) = length (gr_replicas gr)"
    if "list_all P (gr_replicas gr)" "i < length (gr_replicas gr)" for i gr
  proof -
    let ?dl = "if gr_net gr = [] then Delivered else hd (gr_net gr)"
    let ?gr = "gr\<lparr>gr_net := tl (gr_net gr)\<rparr>"
    have "snd (replicate_one ap i gr) = snd (on_replica i (ap ?dl) ?gr)"
      by (simp add: replicate_one_def next_delivery_def sbind_def split: prod.split sum.split)
    moreover have "list_all P (gr_replicas (snd (on_replica i (ap ?dl) ?gr)))"
      using that keep by (intro on_replica_keeps) auto
    ultimately show ?thesis by (simp add: on_replica_def split: prod.split)
  qed
  have "list_all P (gr_replicas (snd (sfold (replicate_one ap) is gr))) \<and> gr_primary (snd (sfold (replicate_one ap) is gr)) = gr_primary gr"
    if "list_all P (gr_replicas gr)" "set is \<subseteq> {..<length (gr_replicas gr)}" for "is" and gr
    using that
  proof (induction "is" arbitrary: gr)
    case (Cons i "is")
    obtain r gr1 where g: "replicate_one ap i gr = (r, gr1)" by fastforce
    from one [OF Cons.prems(1), of i] Cons.prems(2) g have
      "list_all P (gr_replicas gr1)" "gr_primary gr1 = gr_primary gr" "length (gr_replicas gr1) = length (gr_replicas gr)" by auto
    with Cons g show ?case by (cases r) (auto simp: sbind_def)
  qed simp
  then show ?thesis using assms(2) by (simp add: replicate_to_all_def atLeast0LessThan)
qed

text \<open>Nodes that hold only documents satisfying \<open>Q\<close>.\<close>

definition holds_only :: "'f runtime \<Rightarrow> (pystr \<Rightarrow> bool) \<Rightarrow> 'f node \<Rightarrow> bool" where
  "holds_only rt Q n \<longleftrightarrow> node_ok rt n \<and> (\<forall>d \<in> dom (engine_corpus (no_engine n)). Q d)"

definition group_holds_only :: "'f runtime \<Rightarrow> (pystr \<Rightarrow> bool) \<Rightarrow> 'f shard_group \<Rightarrow> bool" where
  "group_holds_only rt Q gr \<longleftrightarrow> holds_only rt Q (gr_primary gr) \<and> list_all (holds_only rt Q) (gr_replicas gr)"

lemma holds_only_step:
  assumes "holds_only rt Q n" "engine_inv rt en'" "en_embedder en' = en_embedder (no_engine n)"
    "\<And>d. d \<in> dom (engine_corpus en') \<Longrightarrow> d \<in> dom (engine_corpus (no_engine n)) \<or> Q d"
  shows "holds_only rt Q (n\<lparr>no_engine := en'\<rparr>)"
  using assms(1-3) assms(4) unfolding holds_only_def node_ok_def by simp blast

lemma put_holds_only:
  assumes h: "holds_only rt Q n" and v: "valid_id (rt_unicode rt) (document_id doc)" and q: "Q (document_id doc)"
  shows "holds_only rt Q (snd (on_engine (engine_index_document rt doc) n))"
    "holds_only rt Q (snd (on_engine (engine_apply_replicated_put rt doc g) n))"
proof -
  have inv: "engine_inv rt (no_engine n)" using h by (simp add: holds_only_def node_ok_def)
  have sub: "d \<in> dom C \<or> Q d" if "C' = C \<or> C' = put_effect doc C" "d \<in> dom C'" for C C' :: "pystr \<rightharpoonup> pystr" and d
    using that q by (auto split: if_splits)
  from index_document_cases [OF inv v] obtain r en' where i: "engine_index_document rt doc (no_engine n) = (r, en')"
      "engine_inv rt en'" "en_embedder en' = en_embedder (no_engine n)"
      "engine_corpus en' = engine_corpus (no_engine n) \<or> engine_corpus en' = put_effect doc (engine_corpus (no_engine n))"
    by (fastforce simp: mutation_outcome_def split: sum.splits)
  from holds_only_step [OF h i(2,3)] sub [OF i(4)] show "holds_only rt Q (snd (on_engine (engine_index_document rt doc) n))"
    by (simp add: on_engine_def i(1))
  from apply_replicated_put_cases [OF inv v, of g] obtain r en' where a: "engine_apply_replicated_put rt doc g (no_engine n) = (r, en')"
      "engine_inv rt en'" "en_embedder en' = en_embedder (no_engine n)"
      "engine_corpus en' = engine_corpus (no_engine n) \<or> engine_corpus en' = put_effect doc (engine_corpus (no_engine n))"
    by (fastforce simp: replicated_outcome_def split: sum.splits replication_outcome.splits)
  from holds_only_step [OF h a(2,3)] sub [OF a(4)] show "holds_only rt Q (snd (on_engine (engine_apply_replicated_put rt doc g) n))"
    by (simp add: on_engine_def a(1))
qed

lemma delete_holds_only:
  assumes h: "holds_only rt Q n"
  shows "holds_only rt Q (snd (on_engine (engine_delete_document d) n))"
    "holds_only rt Q (snd (on_engine (engine_apply_replicated_delete d g) n))"
proof -
  have inv: "engine_inv rt (no_engine n)" using h by (simp add: holds_only_def node_ok_def)
  have sub: "x \<in> dom C \<or> Q x" if "C' = C \<or> C' = delete_effect d C" "x \<in> dom C'" for C C' :: "pystr \<rightharpoonup> pystr" and x
    using that by (auto split: if_splits)
  from delete_document_cases [OF inv, of d] obtain r en' where i: "engine_delete_document d (no_engine n) = (r, en')"
      "engine_inv rt en'" "en_embedder en' = en_embedder (no_engine n)"
      "engine_corpus en' = engine_corpus (no_engine n) \<or> engine_corpus en' = delete_effect d (engine_corpus (no_engine n))"
    by (fastforce simp: mutation_outcome_def split: sum.splits)
  from holds_only_step [OF h i(2,3)] sub [OF i(4)] show "holds_only rt Q (snd (on_engine (engine_delete_document d) n))"
    by (simp add: on_engine_def i(1))
  from apply_replicated_delete_cases [OF inv, of d g] obtain r en' where a: "engine_apply_replicated_delete d g (no_engine n) = (r, en')"
      "engine_inv rt en'" "en_embedder en' = en_embedder (no_engine n)"
      "engine_corpus en' = engine_corpus (no_engine n) \<or> engine_corpus en' = delete_effect d (engine_corpus (no_engine n))"
    by (fastforce simp: replicated_outcome_def split: sum.splits replication_outcome.splits)
  from holds_only_step [OF h a(2,3)] sub [OF a(4)] show "holds_only rt Q (snd (on_engine (engine_apply_replicated_delete d g) n))"
    by (simp add: on_engine_def a(1))
qed

text \<open>The same through the link: the handler runs once or not at all, and only its engine call changes the node.\<close>

lemma sbind_snd: "snd (sbind m f s) = (case m s of (Inl e, s') \<Rightarrow> s' | (Inr a, s') \<Rightarrow> snd (f a s'))"
  by (simp add: sbind_def split: prod.split sum.split)

lemma serve_snd [simp]: "snd (serve ok m s) = snd (m s)"
  by (simp add: serve_def split: prod.split sum.split)

lemma guards_snd [simp]:
  "snd (require_primary n) = n" "snd (require_replica n) = n" "snd (check_generation g n) = n" "snd (replication_response_for oc n) = n"
  by (simp_all add: require_primary_def require_replica_def check_generation_def replication_response_for_def)

lemma replicate_document_snd:
  "snd (replicate_document rt d t g n) = n \<or> (\<exists>doc. mk_document (rt_unicode rt) d t = Inr doc
     \<and> snd (replicate_document rt d t g n) = snd (on_engine (engine_apply_replicated_put rt doc g) n))"
  by (auto simp: replicate_document_def sbind_def slift_def require_replica_def check_generation_def split: prod.splits sum.splits)

lemma replicate_delete_snd:
  "snd (replicate_delete d g n) \<in> {n, snd (on_engine (engine_apply_replicated_delete d g) n)}"
  by (auto simp: replicate_delete_def sbind_def require_replica_def check_generation_def split: prod.splits sum.splits)

lemma link_put_holds_only:
  assumes h: "holds_only rt Q n" and v: "valid_id (rt_unicode rt) (document_id doc)" and q: "Q (document_id doc)"
    and p: "path_id (document_id doc) = Some (document_id doc)"
  shows "holds_only rt Q (snd (link_apply_put rt path_id doc g dl n))"
proof -
  let ?h = "routed path_id (document_id doc) (\<lambda>d. replicate_document rt d (doc_text doc) g)"
  have "snd (link_apply_put rt path_id doc g dl n) = snd (link_request dl ?h n)"
    by (simp add: link_apply_put_def sbind_def slift_def split: prod.split sum.split)
  moreover have "mk_document (rt_unicode rt) (document_id doc) (doc_text doc) = Inr doc" using v by simp
  ultimately show ?thesis
    using link_request_effect [of dl ?h n] replicate_document_snd [of rt "document_id doc" "doc_text doc" g n] put_holds_only(2) [OF h v, where g = g] h q p
    by auto
qed

lemma link_delete_holds_only:
  assumes h: "holds_only rt Q n" and p: "path_id d = Some d"
  shows "holds_only rt Q (snd (link_apply_delete path_id d g dl n))"
proof -
  let ?h = "routed path_id d (\<lambda>d. replicate_delete d g)"
  have "snd (link_apply_delete path_id d g dl n) = snd (link_request dl ?h n)"
    by (simp add: link_apply_delete_def sbind_def slift_def split: prod.split sum.split)
  then show ?thesis
    using link_request_effect [of dl ?h n] replicate_delete_snd [of d g n] delete_holds_only(2) [OF h] h p by auto
qed

lemma replicator_put_holds_only:
  assumes h: "group_holds_only rt Q gr" and v: "valid_id (rt_unicode rt) (document_id doc)" and q: "Q (document_id doc)"
    and p: "path_id (document_id doc) = Some (document_id doc)"
  shows "group_holds_only rt Q (snd (replicator_index_document rt path_id doc gr))"
proof -
  obtain r n' where n: "on_engine (engine_index_document rt doc) (gr_primary gr) = (r, n')" by fastforce
  then have p': "holds_only rt Q n'" using put_holds_only(1) [of rt Q "gr_primary gr" doc] h v q by (simp add: group_holds_only_def)
  let ?ap = "link_apply_put rt path_id doc (en_generation (no_engine n'))" and ?gr = "gr\<lparr>gr_primary := n'\<rparr>"
  have "list_all (holds_only rt Q) (gr_replicas (snd (replicate_to_all ?ap ?gr))) \<and> gr_primary (snd (replicate_to_all ?ap ?gr)) = gr_primary ?gr"
    by (rule replicate_keeps) (use h link_put_holds_only [where path_id = path_id and Q = Q, OF _ v q p] in \<open>simp_all add: group_holds_only_def\<close>)
  then show ?thesis
    using h n p' by (cases r; cases "replicate_to_all ?ap ?gr"; cases "fst (replicate_to_all ?ap ?gr)")
      (auto simp: replicator_index_document_def on_primary_def sbind_def st_defs group_holds_only_def)
qed

lemma replicator_delete_holds_only:
  assumes h: "group_holds_only rt Q gr" and p: "path_id d = Some d"
  shows "group_holds_only rt Q (snd (replicator_delete_document path_id d gr))"
proof -
  obtain r n' where n: "on_engine (engine_delete_document d) (gr_primary gr) = (r, n')" by fastforce
  then have p': "holds_only rt Q n'" using delete_holds_only(1) [of rt Q "gr_primary gr" d] h by (simp add: group_holds_only_def)
  let ?ap = "link_apply_delete path_id d (en_generation (no_engine n'))" and ?gr = "gr\<lparr>gr_primary := n'\<rparr>"
  have "list_all (holds_only rt Q) (gr_replicas (snd (replicate_to_all ?ap ?gr))) \<and> gr_primary (snd (replicate_to_all ?ap ?gr)) = gr_primary ?gr"
    by (rule replicate_keeps) (use h link_delete_holds_only [where path_id = path_id, OF _ p] in \<open>simp_all add: group_holds_only_def\<close>)
  then show ?thesis
    using h n p' by (cases r) (auto simp: replicator_delete_document_def on_primary_def sbind_def st_defs group_holds_only_def)
qed

section \<open>Ownership\<close>

text \<open>Every copy of every shard holds only documents that are routed to that shard.\<close>

definition owned :: "'f runtime \<Rightarrow> shard_router \<Rightarrow> 'f shard_group list \<Rightarrow> bool" where
  "owned rt router w \<longleftrightarrow> (\<forall>i < length w. group_holds_only rt (\<lambda>d. shard_for router d = Inr (int i)) (w ! i))"

definition owner_only :: "'f runtime \<Rightarrow> shard_router \<Rightarrow> pystr \<Rightarrow> 'f shard_group list \<Rightarrow> 'f shard_group list \<Rightarrow> bool" where
  "owner_only rt router d w w' \<longleftrightarrow> owned rt router w' \<and> length w' = length w
     \<and> (\<forall>i < length w. shard_for router d \<noteq> Inr (int i) \<longrightarrow> w' ! i = w ! i)"

lemma endpoint_put_holds_only:
  assumes "group_holds_only rt Q gr" "Q d" "path_id d = Some d"
  shows "group_holds_only rt Q (snd (internal_index_document rt path_id d t gr))"
proof (cases "mk_document (rt_unicode rt) d t")
  case (Inl e)
  then show ?thesis using assms(1)
    by (auto simp: internal_index_document_def on_primary_def sbind_snd slift_def require_primary_def split: prod.splits sum.splits if_splits)
next
  case (Inr doc)
  then have doc: "document_id doc = d" "valid_id (rt_unicode rt) (document_id doc)" by (auto simp: mk_document_Inr_iff)
  have "group_holds_only rt Q (snd (replicator_index_document rt path_id doc gr))"
    by (rule replicator_put_holds_only [OF assms(1) doc(2)]) (simp_all add: doc(1) assms)
  with assms(1) Inr show ?thesis
    by (cases "replicator_index_document rt path_id doc gr"; cases "fst (replicator_index_document rt path_id doc gr)")
      (auto simp: internal_index_document_def on_primary_def sbind_snd slift_def require_primary_def split: if_splits)
qed

lemma endpoint_delete_holds_only:
  assumes "group_holds_only rt Q gr" "path_id d = Some d"
  shows "group_holds_only rt Q (snd (internal_delete_document path_id d gr))"
  using replicator_delete_holds_only [where path_id = path_id, OF assms] assms(1)
  by (auto simp: internal_delete_document_def on_primary_def sbind_snd require_primary_def split: if_splits)

lemma on_shard_keeps:
  assumes "owned rt router w" "i < length w" "group_holds_only rt (\<lambda>d. shard_for router d = Inr (int i)) (snd (h (w ! i)))"
  shows "owned rt router (snd (on_shard i h w))"
  using assms by (cases "h (w ! i)") (auto simp: owned_def on_shard_def nth_list_update)

lemma coordinates_primary:
  assumes "coordinates rt path_id co w" "shard_for (co_router co) d = Inr s"
  obtains i net n where "s = int i" "i < length w" "primary_for (co_topology co) s = Inr (cluster_client rt path_id i net n)"
proof -
  have c: "w \<noteq> []" "ro_shard_count (co_router co) = int (length w)" "length (ct_shards (co_topology co)) = length w"
    "\<forall>i < length w. \<exists>net n. sc_primary (ct_shards (co_topology co) ! i) = cluster_client rt path_id i net n"
    using assms(1) by (auto simp: coordinates_def)
  have s: "0 \<le> s" "s < int (length w)" using assms(2) c(1,2) by (auto simp: shard_for_def ebind_Inr_iff)
  then have i: "nat s < length w" "s = int (nat s)" by auto
  from c(4) i(1) obtain net n where "sc_primary (ct_shards (co_topology co) ! nat s) = cluster_client rt path_id (nat s) net n" by blast
  then have "primary_for (co_topology co) s = Inr (cluster_client rt path_id (nat s) net n)"
    using s c(3) by (simp add: primary_for_def py_index_def)
  with that i show thesis by blast
qed

lemma http_write_keeps:
  assumes "P w" "P (snd (endpoint w))"
  shows "P (snd (http_request absent dl endpoint w))"
  using http_request_effect [of absent dl endpoint w] assms by auto

text \<open>The hypothesis on the path matters. If the path made with one identifier reads as another one, the write is
  answered as usual, and it is the other document that is stored.\<close>

lemma put_misread:
  assumes "path_id (document_id doc) = Some d'"
  shows "http_put_document path_id dl endpoint doc = http_put_document Some dl endpoint (doc\<lparr>document_id := d'\<rparr>)"
proof -
  have "routed path_id (document_id doc) (\<lambda>d. endpoint d (doc_text doc)) = routed Some d' (\<lambda>d. endpoint d (doc_text doc))"
    by (intro ext) (simp add: routed_def assms)
  then show ?thesis by (simp add: http_put_document_def)
qed

text \<open>A coordinator of two shards, the second one still recovering on its replica.\<close>

definition two_shards :: "(real, real shard_group list) coordinator" where
  "two_shards = \<lparr>co_router = \<lparr>ro_shard_count = 2\<rparr>, co_topology = \<lparr>ct_shards = map (\<lambda>i.
     \<lparr>sc_shard_id = int i, sc_primary = cluster_client real_runtime Some i (\<lambda>_. Delivered) (gr_primary (small_group ready_engine)),
      sc_replicas = []\<rparr>) [0, 1]\<rparr>, co_embedder = None\<rparr>"

lemma two_shards_owned: "owned real_runtime (co_router two_shards) [small_group ready_engine, small_group (blank_engine [])]"
proof -
  have "group_holds_only real_runtime Q (small_group ready_engine)" "group_holds_only real_runtime Q (small_group (blank_engine []))" for Q
    by (simp_all add: group_holds_only_def holds_only_def node_ok_def small_group_def ready_engine_facts blank_engine_facts)
  then show ?thesis by (simp add: owned_def less_Suc_eq)
qed

section \<open>Properties\<close>

lemma owned_copies_disjoint:
  assumes "owned rt router w" "i < length w" "j < length w" "i \<noteq> j" "n \<in> insert (gr_primary (w ! i)) (set (gr_replicas (w ! i)))"
    "m \<in> insert (gr_primary (w ! j)) (set (gr_replicas (w ! j)))"
  shows "dom (engine_corpus (no_engine n)) \<inter> dom (engine_corpus (no_engine m)) = {}"
proof -
  have holds: "shard_for router d = Inr (int i)" if "i < length w" "n \<in> insert (gr_primary (w ! i)) (set (gr_replicas (w ! i)))"
      "d \<in> dom (engine_corpus (no_engine n))" for i n d
  proof -
    have "group_holds_only rt (\<lambda>d. shard_for router d = Inr (int i)) (w ! i)" using assms(1) that(1) by (simp add: owned_def)
    then have "holds_only rt (\<lambda>d. shard_for router d = Inr (int i)) n"
      using that(2) by (auto simp: group_holds_only_def list_all_iff)
    then show ?thesis using that(3) unfolding holds_only_def by blast
  qed
  show ?thesis using holds [OF assms(2,5)] holds [OF assms(3,6)] assms(4) by fastforce
qed

lemma owner_only_on_shard:
  assumes "owned rt router w" "i < length w" "shard_for router d = Inr (int i)"
    and "group_holds_only rt (\<lambda>d. shard_for router d = Inr (int i)) (snd (h (w ! i)))"
  shows "owner_only rt router d w (snd (on_shard i h w))"
  using on_shard_keeps [where h = h, OF assms(1,2,4)] assms(3) by (auto simp: owner_only_def on_shard_def split: prod.split)

lemma routed_writes_owner_only:
  assumes "coordinates rt path_id co w" "owned rt (co_router co) w" "path_id (document_id doc) = Some (document_id doc)"
  shows "owner_only rt (co_router co) (document_id doc) w (snd (coordinator_index_document co doc w))
    \<and> owner_only rt (co_router co) (document_id doc) w (snd (coordinator_delete_document co (document_id doc) w))"
proof (cases "shard_for (co_router co) (document_id doc)")
  case (Inl e)
  then show ?thesis using assms(2)
    by (simp add: owner_only_def coordinator_index_document_def coordinator_delete_document_def sbind_snd slift_def)
next
  case (Inr s)
  let ?d = "document_id doc"
  let ?good = "owner_only rt (co_router co) ?d w"
  from coordinates_primary [OF assms(1) Inr] obtain i net n where
    i: "s = int i" "i < length w" and prim: "primary_for (co_topology co) s = Inr (cluster_client rt path_id i net n)" by blast
  have own: "group_holds_only rt (\<lambda>d. shard_for (co_router co) d = Inr (int i)) (w ! i)" using assms(2) i(2) by (simp add: owned_def)
  have q: "shard_for (co_router co) ?d = Inr (int i)" using Inr i(1) by simp
  note shard = owner_only_on_shard [OF assms(2) i(2) q]
  let ?put = "routed path_id ?d (\<lambda>d. on_shard i (internal_index_document rt path_id d (doc_text doc)))"
  let ?del = "routed path_id ?d (\<lambda>d. on_shard i (internal_delete_document path_id d))"
  have "?good w" using assms(2) by (simp add: owner_only_def)
  moreover have "?good (snd (?put w))" using shard [of "internal_index_document rt path_id ?d (doc_text doc)"]
      endpoint_put_holds_only [where path_id = path_id, OF own q assms(3)] assms(3) by simp
  moreover have "?good (snd (?del w))" using shard endpoint_delete_holds_only [where path_id = path_id, OF own assms(3)] assms(3) by simp
  moreover obtain r1 w1 where h1: "http_request False (net Put) ?put w = (r1, w1)" by fastforce
  moreover obtain r2 w2 where h2: "http_request True (net Delete) ?del w = (r2, w2)" by fastforce
  ultimately have "?good w1" "?good w2"
    using http_write_keeps [of ?good w ?put False "net Put"] http_write_keeps [of ?good w ?del True "net Delete"] by simp_all
  with h1 h2 show ?thesis
    by (cases r1; cases r2) (simp_all add: coordinator_index_document_def coordinator_delete_document_def Inr prim sbind_snd slift_def
        cluster_client_def http_shard_client_def http_put_document_def http_delete_document_def)
qed

text \<open>C4. Routing keeps the shards apart: writes and deletes through the coordinator, whatever their outcome and
  whatever the network does, leave every shard other than the owner of the document unchanged, and leave every
  copy with documents of its own shard only; and then no two shards share a document.\<close>

theorem routed_writes_keep_ownership:
  assumes "coordinates rt path_id co w" "owned rt (co_router co) w"
    and "path_id (document_id doc) = Some (document_id doc)"
  shows "(\<forall>w' \<in> {snd (coordinator_index_document co doc w), snd (coordinator_delete_document co (document_id doc) w)}.
       owned rt (co_router co) w' \<and> length w' = length w
       \<and> (\<forall>i < length w. shard_for (co_router co) (document_id doc) \<noteq> Inr (int i) \<longrightarrow> w' ! i = w ! i))
    \<and> (\<forall>i j n m. i < length w \<longrightarrow> j < length w \<longrightarrow> i \<noteq> j \<longrightarrow> n \<in> insert (gr_primary (w ! i)) (set (gr_replicas (w ! i)))
       \<longrightarrow> m \<in> insert (gr_primary (w ! j)) (set (gr_replicas (w ! j)))
       \<longrightarrow> dom (engine_corpus (no_engine n)) \<inter> dom (engine_corpus (no_engine m)) = {})"
  using routed_writes_owner_only [OF assms] owned_copies_disjoint [OF assms(2)] unfolding owner_only_def by simp

theorem routed_writes_keep_ownership_witness:
  "owned real_runtime (co_router two_shards)
     (snd (coordinator_index_document two_shards \<lparr>document_id = ustr ''a'', doc_text = ustr ''x''\<rparr>
       [small_group ready_engine, small_group (blank_engine [])]))"
proof -
  have "coordinates real_runtime Some two_shards [small_group ready_engine, small_group (blank_engine [])]"
    by (auto simp: coordinates_def two_shards_def less_Suc_eq)
  from routed_writes_keep_ownership [OF this two_shards_owned, of "\<lparr>document_id = ustr ''a'', doc_text = ustr ''x''\<rparr>"]
  show ?thesis by simp
qed

end
