(* ===== verification/Json.thy ===== *)
theory Json
  imports Routing
begin

text \<open>
  What the program uses of the standard library's \<open>json\<close>: the values it can write and \<open>json.dumps(\<cdot>, default=str)\<close>, with
  its escapes (\<open>ensure_ascii\<close>), separators and order of keys. The text of a float is a parameter. Shown: the text is
  printable ASCII on one line, and it determines the value.
\<close>

section \<open>Values and their text\<close>

text \<open>\<open>JObject s\<close> is a value of any other type, where \<open>s\<close> is what \<open>str\<close> gives for it.\<close>

datatype 'f json =
    JNull
  | JBool bool
  | JInt int
  | JFloat 'f
  | JStr pystr
  | JList "'f json list"
  | JDict "(pystr \<times> 'f json) list"
  | JObject pystr

definition hex_digit :: "nat \<Rightarrow> codepoint" where
  "hex_digit d = (if d < 10 then 48 + d else 87 + d)"

definition hex4 :: "nat \<Rightarrow> pystr" where
  "hex4 n = [hex_digit (n div 4096 mod 16), hex_digit (n div 256 mod 16), hex_digit (n div 16 mod 16), hex_digit (n mod 16)]"

definition unicode_escape :: "nat \<Rightarrow> pystr" where
  "unicode_escape n = [92, 117] @ hex4 n"

definition escape_char :: "codepoint \<Rightarrow> pystr" where
  "escape_char c =
     (if c = 34 then [92, 34]
      else if c = 92 then [92, 92]
      else if 32 \<le> c \<and> c \<le> 126 then [c]
      else if c = 10 then [92, 110]
      else if c = 13 then [92, 114]
      else if c = 9 then [92, 116]
      else if c = 12 then [92, 102]
      else if c = 8 then [92, 98]
      else if c < 0x10000 then unicode_escape c
      else unicode_escape (0xD800 + (c - 0x10000) div 1024 mod 1024) @ unicode_escape (0xDC00 + (c - 0x10000) mod 1024))"

definition dumps_str :: "pystr \<Rightarrow> pystr" where
  "dumps_str s = 34 # concat (map escape_char s) @ [34]"

fun json_dumps :: "('f \<Rightarrow> pystr) \<Rightarrow> 'f json \<Rightarrow> pystr" where
  "json_dumps repr JNull = ustr ''null''"
| "json_dumps repr (JBool b) = (if b then ustr ''true'' else ustr ''false'')"
| "json_dumps repr (JInt n) = py_str_int n"
| "json_dumps repr (JFloat x) = repr x"
| "json_dumps repr (JStr s) = dumps_str s"
| "json_dumps repr (JList xs) = ustr ''['' @ py_join (ustr '', '') (map (json_dumps repr) xs) @ ustr '']''"
| "json_dumps repr (JDict kvs) =
     ustr ''{'' @ py_join (ustr '', '') (map (\<lambda>(k, v). dumps_str k @ ustr '': '' @ json_dumps repr v) kvs) @ ustr ''}''"
| "json_dumps repr (JObject s) = dumps_str s"

text \<open>What a reader of the text can know of the value: an object of another type is its string.\<close>

fun json_read :: "'f json \<Rightarrow> 'f json" where
  "json_read (JList xs) = JList (map json_read xs)"
| "json_read (JDict kvs) = JDict (map (\<lambda>(k, v). (k, json_read v)) kvs)"
| "json_read (JObject s) = JStr s"
| "json_read v = v"

text \<open>Strings without surrogates, as in everything that came out of UTF-8.\<close>

fun json_scalar :: "'f json \<Rightarrow> bool" where
  "json_scalar (JStr s) = list_all is_scalar s"
| "json_scalar (JObject s) = list_all is_scalar s"
| "json_scalar (JList xs) = (\<forall>x\<in>set xs. json_scalar x)"
| "json_scalar (JDict kvs) = (\<forall>(k, v)\<in>set kvs. list_all is_scalar k \<and> json_scalar v)"
| "json_scalar _ = True"

text \<open>
  What \<open>float.__repr__\<close> documents: different floats have different texts, and the text is a word of printable
  characters that is not the text of an integer (\<open>1.0\<close>, \<open>1e+22\<close>, \<open>NaN\<close>, \<open>Infinity\<close>).
\<close>

definition float_text :: "('f \<Rightarrow> pystr) \<Rightarrow> bool" where
  "float_text repr \<longleftrightarrow> inj repr \<and> (\<forall>x. repr x \<noteq> [] \<and> (\<forall>c\<in>set (repr x). 32 \<le> c \<and> c \<le> 126 \<and> c \<notin> {44, 93, 125})
     \<and> hd (repr x) \<notin> {34, 91, 102, 110, 116, 123} \<and> repr x \<notin> range py_str_int)"

section \<open>One line of printable ASCII\<close>

lemma hex_digit_range: "d < 16 \<Longrightarrow> 48 \<le> hex_digit d \<and> hex_digit d \<le> 102"
  by (simp add: hex_digit_def)

lemma hex4_printable: "c \<in> set (hex4 n) \<Longrightarrow> 48 \<le> c \<and> c \<le> 102"
  using hex_digit_range by (auto simp: hex4_def)

lemma escape_printable: "c \<in> set (escape_char k) \<Longrightarrow> 32 \<le> c \<and> c \<le> 126"
  using hex4_printable by (fastforce simp: escape_char_def unicode_escape_def split: if_splits)

lemma dumps_str_printable: "c \<in> set (dumps_str s) \<Longrightarrow> 32 \<le> c \<and> c \<le> 126"
  using escape_printable by (auto simp: dumps_str_def)

lemma set_py_join: "set (py_join sep xs) \<subseteq> set sep \<union> \<Union> (set ` set xs)"
  by (induction sep xs rule: py_join.induct) auto

lemma py_str_int_printable: "c \<in> set (py_str_int n) \<Longrightarrow> c = 45 \<or> 48 \<le> c \<and> c \<le> 57"
  using digits_range by (auto simp: py_str_int_def split: if_splits)

lemma json_printable:
  assumes "float_text repr"
  shows "c \<in> set (json_dumps repr v) \<Longrightarrow> 32 \<le> c \<and> c \<le> 126"
proof (induction v arbitrary: c)
  case (JInt n)
  then show ?case using py_str_int_printable [of c n] by auto
next
  case (JFloat x)
  then show ?case using assms by (auto simp: float_text_def)
next
  case (JList xs)
  then show ?case using set_py_join [of "ustr '', ''" "map (json_dumps repr) xs"] by (fastforce simp: ustr_def)
next
  case (JDict kvs)
  have "c \<in> set (dumps_str k @ ustr '': '' @ json_dumps repr v) \<Longrightarrow> 32 \<le> c \<and> c \<le> 126" if "(k, v) \<in> set kvs" for k v
    using that JDict.IH [OF that, of v] dumps_str_printable [of c k] by (auto simp: ustr_def)
  then show ?case using JDict.prems set_py_join [of "ustr '', ''" "map (\<lambda>(k, v). dumps_str k @ ustr '': '' @ json_dumps repr v) kvs"]
    by (fastforce simp: ustr_def)
qed (auto simp: ustr_def dumps_str_printable split: if_splits)

section \<open>The text determines the value\<close>

text \<open>Reading back one character of a string.\<close>

definition hex_value :: "codepoint \<Rightarrow> nat" where
  "hex_value c = (if c < 58 then c - 48 else c - 87)"

fun read_hex4 :: "pystr \<Rightarrow> (nat \<times> pystr) option" where
  "read_hex4 (a # b # c # d # s) = Some (4096 * hex_value a + 256 * hex_value b + 16 * hex_value c + hex_value d, s)"
| "read_hex4 _ = None"

definition read_unicode :: "pystr \<Rightarrow> (codepoint \<times> pystr) option" where
  "read_unicode s =
     (case read_hex4 s of
        None \<Rightarrow> None
      | Some (n, s1) \<Rightarrow>
          if n < 0xD800 \<or> 0xDBFF < n then Some (n, s1)
          else map_option (\<lambda>(m, s2). (0x10000 + 1024 * (n - 0xD800) + (m - 0xDC00), s2)) (read_hex4 (drop 2 s1)))"

definition short_escapes :: "(codepoint \<times> codepoint) list" where
  "short_escapes = [(34, 34), (92, 92), (110, 10), (114, 13), (116, 9), (102, 12), (98, 8)]"

fun read_escaped :: "pystr \<Rightarrow> (codepoint \<times> pystr) option" where
  "read_escaped [] = None"
| "read_escaped (c # s) =
     (if c \<noteq> 92 then Some (c, s)
      else case s of
        [] \<Rightarrow> None
      | e # s1 \<Rightarrow> if e = 117 then read_unicode s1 else map_option (\<lambda>k. (k, s1)) (map_of short_escapes e))"

lemma hex_value_digit: "d < 16 \<Longrightarrow> hex_value (hex_digit d) = d"
  by (simp add: hex_value_def hex_digit_def)

lemma hex4_value:
  fixes n :: nat
  assumes "n < 0x10000"
  shows "4096 * (n div 4096 mod 16) + 256 * (n div 256 mod 16) + 16 * (n div 16 mod 16) + n mod 16 = n"
proof -
  have "n div 4096 < 16" using assms by linarith
  then have "n div 4096 mod 16 = n div 4096" by (rule mod_less)
  moreover have "n div 256 = 16 * (n div 4096) + n div 256 mod 16" using div_mult2_eq [of n 256 16] mult_div_mod_eq [of 16 "n div 256"] by simp
  moreover have "n div 16 = 16 * (n div 256) + n div 16 mod 16" using div_mult2_eq [of n 16 16] mult_div_mod_eq [of 16 "n div 16"] by simp
  moreover have "n = 16 * (n div 16) + n mod 16" using mult_div_mod_eq [of 16 n] by simp
  ultimately show ?thesis by linarith
qed

lemma read_hex4: "n < 0x10000 \<Longrightarrow> read_hex4 (hex4 n @ s) = Some (n, s)"
  using hex4_value [of n] by (simp add: hex4_def hex_value_digit)

lemma read_surrogates:
  assumes "0x10000 \<le> c" "c < 0x110000"
  shows "read_unicode (hex4 (0xD800 + (c - 0x10000) div 1024 mod 1024) @ unicode_escape (0xDC00 + (c - 0x10000) mod 1024) @ s) = Some (c, s)"
proof -
  let ?h = "(c - 0x10000) div 1024 mod 1024" and ?l = "(c - 0x10000) mod 1024"
  have "(c - 0x10000) div 1024 < 1024" by (rule less_mult_imp_div_less) (use assms in simp)
  then have "?h = (c - 0x10000) div 1024" by (rule mod_less)
  then have "1024 * ?h + ?l = c - 0x10000" using mult_div_mod_eq [of 1024 "c - 0x10000"] by (simp only:)
  then have "0x10000 + 1024 * ?h + ?l = c" using assms(1) by simp
  moreover have "?h < 1024" "?l < 1024" by simp_all
  ultimately show ?thesis using read_hex4 [of "0xD800 + ?h"] read_hex4 [of "0xDC00 + ?l" s]
    by (simp add: read_unicode_def unicode_escape_def)
qed

text \<open>A character that is not a surrogate can be read back from its escape, whatever follows.\<close>

lemma read_escape:
  assumes "is_scalar c"
  shows "read_escaped (escape_char c @ s) = Some (c, s)"
proof (cases "c < 0x10000")
  case True
  then have "read_unicode (hex4 c @ s) = Some (c, s)"
    using assms read_hex4 [of c s] by (auto simp: read_unicode_def is_scalar_def)
  then show ?thesis using True by (simp add: escape_char_def unicode_escape_def short_escapes_def)
next
  case False
  then have "read_unicode (hex4 (0xD800 + (c - 0x10000) div 1024 mod 1024) @ unicode_escape (0xDC00 + (c - 0x10000) mod 1024) @ s) = Some (c, s)"
    using assms by (intro read_surrogates) (simp_all add: is_scalar_def)
  then show ?thesis using False by (simp add: escape_char_def unicode_escape_def [of "0xD800 + _"])
qed

lemma escape_append:
  assumes "is_scalar c" "is_scalar k" "escape_char c @ r = escape_char k @ s"
  shows "c = k \<and> r = s"
proof -
  have "Some (c, r) = read_escaped (escape_char k @ s)" unfolding assms(3) [symmetric] by (rule read_escape [OF assms(1), symmetric])
  also have "\<dots> = Some (k, s)" by (rule read_escape [OF assms(2)])
  finally show ?thesis by simp
qed

lemma escape_head: "\<exists>h t. escape_char c = h # t \<and> h \<noteq> 34"
  by (auto simp: escape_char_def unicode_escape_def)

lemma dumps_str_append:
  assumes "list_all is_scalar a" "list_all is_scalar b" "dumps_str a @ r = dumps_str b @ s"
  shows "a = b \<and> r = s"
proof -
  have "concat (map escape_char a) @ 34 # r = concat (map escape_char b) @ 34 # s" using assms(3) by (simp add: dumps_str_def)
  then show ?thesis using assms(1,2)
  proof (induction a arbitrary: b)
    case Nil
    show ?case
    proof (cases b)
      case (Cons k b')
      obtain h t where "escape_char k = h # t" "h \<noteq> 34" using escape_head by blast
      then show ?thesis using Nil.prems(1) Cons by simp
    qed (use Nil in simp)
  next
    case (Cons c a)
    obtain h t where c: "escape_char c = h # t" "h \<noteq> 34" using escape_head by blast
    then obtain k b' where b: "b = k # b'" using Cons.prems(1) by (cases b) auto
    then show ?case using Cons.IH [of b'] Cons.prems escape_append [of c k] by auto
  qed
qed

text \<open>What may follow a value: the end, a comma or a closing bracket.\<close>

definition ends :: "pystr \<Rightarrow> bool" where
  "ends r \<longleftrightarrow> r = [] \<or> hd r \<in> {44, 93, 125}"

lemma ends_simps [simp]: "ends []" "ends (c # r) \<longleftrightarrow> c \<in> {44, 93, 125}"
  by (simp_all add: ends_def)

lemma word_append:
  assumes "set a \<inter> {44, 93, 125} = {}" "set b \<inter> {44, 93, 125} = {}" "ends r" "ends s" "a @ r = b @ s"
  shows "a = b \<and> r = s"
  using assms
proof (induction a arbitrary: b)
  case Nil
  then show ?case by (cases b) (auto simp: ends_def)
next
  case (Cons c a)
  then show ?case by (cases b) auto
qed

fun is_word :: "'f json \<Rightarrow> bool" where
  "is_word JNull = True"
| "is_word (JBool _) = True"
| "is_word (JInt _) = True"
| "is_word (JFloat _) = True"
| "is_word _ = False"

fun first_chars :: "'f json \<Rightarrow> codepoint set" where
  "first_chars JNull = {110}"
| "first_chars (JBool b) = {if b then 116 else 102}"
| "first_chars (JInt _) = insert 45 {48..57}"
| "first_chars (JFloat _) = - {34, 44, 91, 93, 102, 110, 116, 123, 125}"
| "first_chars (JList _) = {91}"
| "first_chars (JDict _) = {123}"
| "first_chars _ = {34}"

lemma first_chars_open: "h \<in> first_chars v \<Longrightarrow> h \<notin> {44, 93, 125}"
  by (cases v) (auto split: if_splits)

lemma json_first:
  assumes "float_text repr"
  obtains h t where "json_dumps repr v = h # t" "h \<in> first_chars v" "h \<notin> {44, 93, 125}"
proof -
  have "json_dumps repr v \<noteq> [] \<and> hd (json_dumps repr v) \<in> first_chars v"
  proof (cases v)
    case (JInt n)
    have "py_str_int n \<noteq> []" using py_digits_nonempty by (simp add: py_str_int_def)
    then show ?thesis using py_str_int_printable [of "hd (py_str_int n)" n] JInt by auto
  next
    case (JFloat x)
    then show ?thesis using assms hd_in_set [of "repr x"] unfolding float_text_def by fastforce
  qed (simp_all add: ustr_def dumps_str_def)
  then show thesis using that [of "hd (json_dumps repr v)" "tl (json_dumps repr v)"] first_chars_open [of "hd (json_dumps repr v)" v] by simp
qed

lemma word_text:
  assumes "float_text repr" "is_word v"
  shows "set (json_dumps repr v) \<inter> {44, 93, 125} = {}"
proof (cases v)
  case (JInt n)
  then show ?thesis using py_str_int_printable [of _ n] by fastforce
next
  case (JFloat x)
  then show ?thesis using assms unfolding float_text_def by fastforce
qed (use assms in \<open>auto simp: ustr_def\<close>)

lemma word_inj:
  assumes "float_text repr" "is_word v" "is_word w" "json_dumps repr v = json_dumps repr w"
  shows "v = w"
proof -
  obtain h t where h: "json_dumps repr v = h # t" "h \<in> first_chars v" by (rule json_first [OF assms(1), of v])
  moreover obtain h' t' where "json_dumps repr w = h' # t'" "h' \<in> first_chars w" by (rule json_first [OF assms(1), of w])
  ultimately have hw: "h \<in> first_chars w" using assms(4) by simp
  have "repr x = repr y \<longleftrightarrow> x = y" "repr x \<noteq> py_str_int n" "py_str_int n \<noteq> repr x" for x y n
    using assms(1) unfolding float_text_def inj_eq by (metis inj_eq, metis rangeI, metis rangeI)
  then show ?thesis using assms(2-4) h(2) hw
    by (elim is_word.elims(2); hypsubst) (simp_all add: py_str_int_inj split: if_splits)
qed

text \<open>Elements after the first, each with its separator.\<close>

definition elements :: "('a \<Rightarrow> pystr) \<Rightarrow> 'a list \<Rightarrow> pystr" where
  "elements f xs = concat (map (\<lambda>x. [44, 32] @ f x) xs)"

lemma elements_simps [simp]: "elements f [] = []" "elements f (x # xs) = 44 # 32 # f x @ elements f xs"
  by (simp_all add: elements_def)

lemma join_elements: "py_join (ustr '', '') (map f (x # xs)) = f x @ elements f xs"
  by (induction xs arbitrary: x) (simp_all add: ustr_def)

lemma elements_append:
  assumes "\<And>x y r s. x \<in> set xs \<Longrightarrow> y \<in> set ys \<Longrightarrow> ends r \<Longrightarrow> ends s \<Longrightarrow> f x @ r = f y @ s \<Longrightarrow> g x = g y \<and> r = s"
    "e \<in> {93, 125}" "elements f xs @ e # r = elements f ys @ e # s"
  shows "map g xs = map g ys \<and> r = s"
  using assms
proof (induction xs arbitrary: ys)
  case Nil
  then show ?case by (cases ys) auto
next
  case (Cons x xs)
  then obtain y ys' where ys: "ys = y # ys'" by (cases ys) auto
  have "ends (elements f us @ e # r)" for us r using Cons.prems(2) by (cases us) auto
  then have "g x = g y \<and> elements f xs @ e # r = elements f ys' @ e # s"
    using Cons.prems(1) [of x y "elements f xs @ e # r" "elements f ys' @ e # s"] Cons.prems(3) ys by simp
  moreover have "map g xs = map g ys' \<and> r = s" if "elements f xs @ e # r = elements f ys' @ e # s"
    by (rule Cons.IH [OF Cons.prems(1) Cons.prems(2) that]) (simp_all add: ys)
  ultimately show ?case using ys by simp
qed

lemma join_append:
  assumes u: "\<And>x y r s. x \<in> set xs \<Longrightarrow> y \<in> set ys \<Longrightarrow> ends r \<Longrightarrow> ends s \<Longrightarrow> f x @ r = f y @ s \<Longrightarrow> g x = g y \<and> r = s"
    and first: "\<And>x. \<exists>h t. f x = h # t \<and> h \<noteq> e" and e: "e \<in> {93, 125}"
    and eq: "py_join (ustr '', '') (map f xs) @ e # r = py_join (ustr '', '') (map f ys) @ e # s"
  shows "map g xs = map g ys \<and> r = s"
proof -
  have start: "py_join (ustr '', '') (map f (z # zs)) @ q \<noteq> e # q'" for z zs q q'
    using first [of z] by (auto simp only: join_elements append_Cons list.inject)
  have "xs = [] \<longleftrightarrow> ys = []" using eq start start [symmetric] by (cases xs; cases ys) (simp_all only: list.map py_join.simps(1) append_Nil, simp_all)
  then consider "xs = []" "ys = []" | x xs' y ys' where "xs = x # xs'" "ys = y # ys'" by (cases xs; cases ys) auto
  then show ?thesis
  proof cases
    case 2
    have "ends (elements f us @ e # r)" for us r using e by (cases us) auto
    moreover have "f x @ elements f xs' @ e # r = f y @ elements f ys' @ e # s" using eq unfolding 2 join_elements by simp
    ultimately have "g x = g y \<and> elements f xs' @ e # r = elements f ys' @ e # s"
      by (intro u) (simp_all add: 2)
    moreover from this have eq': "elements f xs' @ e # r = elements f ys' @ e # s" by blast
    have "map g xs' = map g ys' \<and> r = s" by (rule elements_append [OF _ e eq'], rule u) (simp_all add: 2)
    ultimately show ?thesis using 2 by simp
  qed (use eq in simp)
qed

lemma json_start:
  assumes "float_text repr" "json_dumps repr v @ r = json_dumps repr w @ s"
  shows "\<exists>h. h \<in> first_chars v \<and> h \<in> first_chars w"
proof -
  obtain h t where "json_dumps repr v = h # t" "h \<in> first_chars v" by (rule json_first [OF assms(1), of v])
  moreover obtain h' t' where "json_dumps repr w = h' # t'" "h' \<in> first_chars w" by (rule json_first [OF assms(1), of w])
  ultimately show ?thesis using assms(2) by auto
qed

lemma json_kinds:
  "h \<in> first_chars (JList xs) \<Longrightarrow> h \<in> first_chars w \<Longrightarrow> \<exists>ys. w = JList ys"
  "h \<in> first_chars (JDict kvs) \<Longrightarrow> h \<in> first_chars w \<Longrightarrow> \<exists>ys. w = JDict ys"
  "h = 34 \<Longrightarrow> h \<in> first_chars w \<Longrightarrow> \<exists>b. w = JStr b \<or> w = JObject b"
  by (cases w; simp split: if_splits)+

lemma word_start: "is_word v \<Longrightarrow> h \<in> first_chars v \<Longrightarrow> h \<notin> {34, 91, 123}"
  by (cases v) (auto split: if_splits)

lemma word_value:
  assumes ft: "float_text repr" and v: "is_word v" and r: "ends r" "ends s" and eq: "json_dumps repr v @ r = json_dumps repr w @ s"
  shows "json_read v = json_read w \<and> r = s"
proof -
  from json_start [OF ft eq] word_start [OF v] have w: "is_word w" by (cases w) auto
  have "json_dumps repr v = json_dumps repr w \<and> r = s"
    by (rule word_append [OF word_text [OF ft v] word_text [OF ft w] r eq])
  then show ?thesis using word_inj [OF ft v w] by simp
qed

lemma string_value:
  assumes ft: "float_text repr" and v: "v = JStr a \<or> v = JObject a" and sc: "json_scalar v" "json_scalar w"
    and eq: "json_dumps repr v @ r = json_dumps repr w @ s"
  shows "json_read v = json_read w \<and> r = s"
proof -
  have h: "h = 34" if "h \<in> first_chars v" for h using that v by auto
  from json_start [OF ft eq] h json_kinds(3) [of _ w] obtain b where w: "w = JStr b \<or> w = JObject b" by blast
  have "dumps_str a @ r = dumps_str b @ s" "list_all is_scalar a" "list_all is_scalar b" using eq sc v w by auto
  from dumps_str_append [OF this(2,3,1)] show ?thesis using v w by auto
qed

lemma json_append:
  assumes ft: "float_text repr"
  shows "json_scalar v \<Longrightarrow> json_scalar w \<Longrightarrow> ends r \<Longrightarrow> ends s \<Longrightarrow> json_dumps repr v @ r = json_dumps repr w @ s
    \<Longrightarrow> json_read v = json_read w \<and> r = s"
proof (induction v arbitrary: w r s)
  case (JList xs)
  from json_start [OF ft JList.prems(5)] json_kinds(1) obtain ys where w: "w = JList ys" by blast
  have "\<exists>h t. json_dumps repr x = h # t \<and> h \<noteq> 93" for x by (rule json_first [OF ft, of x]) auto
  moreover have "json_read x = json_read y \<and> r = s"
    if "x \<in> set xs" "y \<in> set ys" "ends r" "ends s" "json_dumps repr x @ r = json_dumps repr y @ s" for x y r s
    using JList.IH [OF that(1) _ _ that(3-5)] JList.prems(1,2) that(1,2) w by simp
  ultimately have "map json_read xs = map json_read ys \<and> r = s"
    using JList.prems(5) w by (intro join_append [where f = "json_dumps repr" and e = 93]) (auto simp: ustr_def)
  then show ?case using w by simp
next
  case (JDict kvs)
  let ?f = "\<lambda>(k, v). dumps_str k @ ustr '': '' @ json_dumps repr v" and ?g = "\<lambda>(k, v). (k, json_read v)"
  from json_start [OF ft JDict.prems(5)] json_kinds(2) obtain ys where w: "w = JDict ys" by blast
  have "\<exists>h t. ?f x = h # t \<and> h \<noteq> 125" for x by (auto simp: dumps_str_def split: prod.split)
  moreover have "?g x = ?g y \<and> r = s" if "x \<in> set kvs" "y \<in> set ys" "ends r" "ends s" "?f x @ r = ?f y @ s" for x y r s
  proof -
    obtain k v k' v' where xy: "x = (k, v)" "y = (k', v')" by fastforce
    have sc: "list_all is_scalar k" "json_scalar v" "list_all is_scalar k'" "json_scalar v'"
      using JDict.prems(1,2) that(1,2) w xy by auto
    then have "k = k' \<and> json_dumps repr v @ r = json_dumps repr v' @ s"
      using dumps_str_append [OF sc(1,3), of "ustr '': '' @ json_dumps repr v @ r"] that(5) xy by (simp add: ustr_def)
    then show ?thesis using JDict.IH [OF that(1), of v v' r s] sc that(3,4) xy by simp
  qed
  ultimately have "map ?g kvs = map ?g ys \<and> r = s"
    using JDict.prems(5) w by (intro join_append [where f = ?f and e = 125]) (auto simp: ustr_def)
  then show ?case using w by simp
next
  case (JStr a)
  show ?case by (rule string_value [OF ft _ JStr.prems(1,2,5)]) simp
next
  case (JObject a)
  show ?case by (rule string_value [OF ft _ JObject.prems(1,2,5)]) simp
qed (rule word_value [OF ft]; simp)+

lemma json_unambiguous:
  assumes "float_text repr" "json_scalar v" "json_scalar w" "json_dumps repr v = json_dumps repr w"
  shows "json_read v = json_read w"
  using json_append [OF assms(1-3), of "[]" "[]"] assms(4) by simp

text \<open>Surrogates are the exception: a pair of them reads as the one character it stands for in UTF-16.\<close>

lemma surrogates_ambiguous: "json_dumps repr (JStr [0xD83D, 0xDE00]) = json_dumps repr (JStr [0x1F600])"
  by (simp add: dumps_str_def escape_char_def)

text \<open>The floats without a fraction, as an instance.\<close>

definition whole_repr :: "int \<Rightarrow> pystr" where
  "whole_repr n = py_str_int n @ ustr ''.0''"

lemma whole_repr_text: "float_text whole_repr"
proof -
  have hd: "hd (whole_repr n) \<notin> {34, 91, 102, 110, 116, 123}" "whole_repr n \<noteq> []" for n
    using py_str_int_printable [of "hd (py_str_int n)" n] py_digits_nonempty by (auto simp: whole_repr_def py_str_int_def split: if_splits)
  have "46 \<in> set (whole_repr n)" "46 \<notin> set (py_str_int m)" for n m
    using py_str_int_printable [of 46 m] by (auto simp: whole_repr_def ustr_def)
  then have "whole_repr n \<notin> range py_str_int" for n by (metis rangeE)
  moreover have "32 \<le> c \<and> c \<le> 126 \<and> c \<notin> {44, 93, 125}" if "c \<in> set (whole_repr n)" for c n
    using that py_str_int_printable [of c n] by (auto simp: whole_repr_def ustr_def)
  ultimately show ?thesis using hd by (simp add: float_text_def inj_def whole_repr_def py_str_int_inj)
qed

end
