(* ===== verification/Logging.thy ===== *)
theory Logging
  imports Json Topology
begin

text \<open>
  \<open>app/core/logging.py\<close>: the JSON formatter, the filter that stamps a node's metadata on every record, and
  \<open>configure_logging\<close>, over the part of the standard library's \<open>logging\<close> they use: records with their attributes, loggers
  named by dotted paths, handlers and propagation. The time stamp's text and the text of a float are parameters.
\<close>

section \<open>Records\<close>

text \<open>
  A record: \<open>lr_message\<close> is what \<open>getMessage()\<close> gives, \<open>lr_exc_info\<close> what \<open>formatException\<close> gives for the exception if there is one,
  and \<open>lr_dict\<close> the record's \<open>__dict__\<close>, the standard attributes included.
\<close>

record 'f log_record =
  lr_created :: 'f
  lr_levelname :: pystr
  lr_levelno :: int
  lr_name :: pystr
  lr_message :: pystr
  lr_exc_info :: "pystr option"
  lr_stack_info :: "pystr option"
  lr_dict :: "(pystr, 'f json) dict"

definition standard_record_attrs :: "pystr list" where
  "standard_record_attrs = map ustr [''args'', ''asctime'', ''created'', ''exc_info'', ''exc_text'', ''filename'', ''funcName'',
     ''levelname'', ''levelno'', ''lineno'', ''module'', ''msecs'', ''msg'', ''name'', ''pathname'', ''process'', ''processName'',
     ''relativeCreated'', ''stack_info'', ''taskName'', ''thread'', ''threadName'']"

definition suppressed_record_attrs :: "pystr list" where
  "suppressed_record_attrs = [ustr ''color_message'']"

definition extra_fields :: "'f log_record \<Rightarrow> (pystr, 'f json) dict" where
  "extra_fields r = filter (\<lambda>(k, v). k \<notin> set (standard_record_attrs @ suppressed_record_attrs)) (lr_dict r)"

text \<open>\<open>Logger.makeRecord\<close>: the fields of \<open>extra\<close> become attributes, unless they would hide one.\<close>

definition make_record :: "'f log_record \<Rightarrow> (pystr, 'f json) dict \<Rightarrow> 'f log_record res" where
  "make_record r extra =
     efold (\<lambda>(k, v) r. if k \<in> {ustr ''message'', ustr ''asctime''} \<or> dhas (lr_dict r) k then Inl KeyError
       else Inr (r\<lparr>lr_dict := AList.update k v (lr_dict r)\<rparr>)) extra r"

section \<open>The formatter\<close>

definition update_all :: "('k, 'v) dict \<Rightarrow> ('k, 'v) dict \<Rightarrow> ('k, 'v) dict" where
  "update_all d e = fold (\<lambda>(k, v). AList.update k v) e d"

definition log_payload :: "('f \<Rightarrow> pystr) \<Rightarrow> 'f log_record \<Rightarrow> (pystr, 'f json) dict" where
  "log_payload isoformat r =
     (let p = [(ustr ''timestamp'', JStr (isoformat (lr_created r))), (ustr ''level'', JStr (lr_levelname r)),
               (ustr ''logger'', JStr (lr_name r)), (ustr ''message'', JStr (lr_message r))];
          p = update_all p (extra_fields r);
          p = (case lr_exc_info r of None \<Rightarrow> p | Some text \<Rightarrow> AList.update (ustr ''exception'') (JStr text) p)
      in case lr_stack_info r of None \<Rightarrow> p | Some text \<Rightarrow> if text = [] then p else AList.update (ustr ''stack'') (JStr text) p)"

definition JsonFormatter_format :: "('f \<Rightarrow> pystr) \<Rightarrow> ('f \<Rightarrow> pystr) \<Rightarrow> 'f log_record \<Rightarrow> pystr" where
  "JsonFormatter_format isoformat repr r = json_dumps repr (JDict (log_payload isoformat r))"

section \<open>The filter\<close>

text \<open>A key of the context that is no attribute of the record becomes one. (Names of methods are no keys of a context.)\<close>

definition NodeContextFilter_filter :: "(pystr, 'f json) dict \<Rightarrow> 'f log_record \<Rightarrow> 'f log_record" where
  "NodeContextFilter_filter context r =
     fold (\<lambda>(k, v) r. if dhas (lr_dict r) k then r else r\<lparr>lr_dict := AList.update k v (lr_dict r)\<rparr>) context r"

section \<open>Loggers and handlers\<close>

text \<open>The handler \<open>configure_logging\<close> builds, with its context if it has a filter, and those of other packages.\<close>

datatype 'f handler = Json_handler "(pystr, 'f json) dict option" | Foreign_handler nat

record 'f logger =
  lo_handlers :: "'f handler list"
  lo_level :: int
  lo_propagate :: bool

record 'f logging =
  lg_root :: "'f logger"
  lg_loggers :: "(pystr, 'f logger) dict"

definition new_logger :: "'f logger" where
  "new_logger = \<lparr>lo_handlers = [], lo_level = 0, lo_propagate = True\<rparr>"

definition level_numbers :: "(pystr, int) dict" where
  "level_numbers = map (\<lambda>(s, n). (ustr s, n)) [(''CRITICAL'', 50), (''FATAL'', 50), (''ERROR'', 40), (''WARN'', 30), (''WARNING'', 30),
     (''INFO'', 20), (''DEBUG'', 10), (''NOTSET'', 0)]"

definition uvicorn_loggers :: "pystr list" where
  "uvicorn_loggers = map ustr [''uvicorn'', ''uvicorn.error'', ''uvicorn.access'']"

definition root_set_level :: "pystr \<Rightarrow> ('f logging, unit) st" where
  "root_set_level level lg =
     (case map_of level_numbers level of
        None \<Rightarrow> (Inl ValueError, lg)
      | Some n \<Rightarrow> (Inr (), lg\<lparr>lg_root := (lg_root lg)\<lparr>lo_level := n\<rparr>\<rparr>))"

definition release_logger :: "pystr \<Rightarrow> ('f logging, unit) st" where
  "release_logger name = smodify (\<lambda>lg. lg\<lparr>lg_loggers :=
     AList.update name ((dget_or (lg_loggers lg) name new_logger)\<lparr>lo_handlers := [], lo_propagate := True\<rparr>) (lg_loggers lg)\<rparr>)"

definition configure_logging :: "pystr \<Rightarrow> (pystr, 'f json) dict \<Rightarrow> ('f logging, unit) st" where
  "configure_logging level context =
     sbind (smodify (\<lambda>lg. lg\<lparr>lg_root := (lg_root lg)\<lparr>lo_handlers := [Json_handler (if context = [] then None else Some context)]\<rparr>\<rparr>))
       (\<lambda>_. sbind (root_set_level level) (\<lambda>_. sfold release_logger uvicorn_loggers))"

section \<open>Logging a record\<close>

text \<open>The names from a logger up to the root: \<open>a.b.c\<close>, \<open>a.b\<close>, \<open>a\<close>.\<close>

definition dotted_ancestors :: "pystr \<Rightarrow> pystr list" where
  "dotted_ancestors name = (let parts = py_split 46 name in map (\<lambda>n. py_join (ustr ''.'') (take n parts)) (rev [1..<Suc (length parts)]))"

fun handlers_from :: "'f logging \<Rightarrow> pystr list \<Rightarrow> 'f handler list" where
  "handlers_from lg [] = lo_handlers (lg_root lg)"
| "handlers_from lg (n # ns) =
     (case map_of (lg_loggers lg) n of
        None \<Rightarrow> handlers_from lg ns
      | Some l \<Rightarrow> lo_handlers l @ (if lo_propagate l then handlers_from lg ns else []))"

fun level_from :: "'f logging \<Rightarrow> pystr list \<Rightarrow> int" where
  "level_from lg [] = lo_level (lg_root lg)"
| "level_from lg (n # ns) =
     (case map_of (lg_loggers lg) n of
        None \<Rightarrow> level_from lg ns
      | Some l \<Rightarrow> if lo_level l \<noteq> 0 then lo_level l else level_from lg ns)"

text \<open>The lines that reach standard output through handlers of this module. A filter changes the record for the handlers after it.\<close>

fun emit :: "('f \<Rightarrow> pystr) \<Rightarrow> ('f \<Rightarrow> pystr) \<Rightarrow> 'f handler list \<Rightarrow> 'f log_record \<Rightarrow> pystr list" where
  "emit isoformat repr [] r = []"
| "emit isoformat repr (Foreign_handler _ # hs) r = emit isoformat repr hs r"
| "emit isoformat repr (Json_handler context # hs) r =
     (let r' = (case context of None \<Rightarrow> r | Some c \<Rightarrow> NodeContextFilter_filter c r)
      in JsonFormatter_format isoformat repr r' # emit isoformat repr hs r')"

definition log_lines :: "('f \<Rightarrow> pystr) \<Rightarrow> ('f \<Rightarrow> pystr) \<Rightarrow> 'f logging \<Rightarrow> 'f log_record \<Rightarrow> pystr list" where
  "log_lines isoformat repr lg r =
     (let names = dotted_ancestors (lr_name r)
      in if level_from lg names \<le> lr_levelno r then emit isoformat repr (handlers_from lg names) r else [])"

section \<open>What a line says\<close>

lemma map_of_update_all: "map_of (update_all d e) = map_of d ++ map_of (rev e)"
  unfolding update_all_def by (induction e arbitrary: d) (auto simp: dict_simps map_add_def fun_eq_iff split: option.splits)

lemma map_of_update_dict: "dict_ok e \<Longrightarrow> map_of (update_all d e) = map_of d ++ map_of e"
  using map_of_set_eq [of "rev e" e] by (simp add: map_of_update_all rev_map [symmetric])

lemma map_of_extra_fields:
  "map_of (extra_fields r) k = (if k \<in> set (standard_record_attrs @ suppressed_record_attrs) then None else map_of (lr_dict r) k)"
proof -
  have "map_of (filter (\<lambda>(k, v). k \<notin> A) d) k = (if k \<in> A then None else map_of d k)" for d :: "(pystr \<times> 'a json) list" and A
    by (induction d) auto
  then show ?thesis unfolding extra_fields_def by blast
qed

lemma dict_ok_extra_fields: "dict_ok (lr_dict r) \<Longrightarrow> dict_ok (extra_fields r)"
  by (simp add: extra_fields_def distinct_map_filter)

lemma make_record_Inr:
  assumes "make_record r extra = Inr r'" "dict_ok extra"
  shows "map_of (lr_dict r') = map_of (lr_dict r) ++ map_of extra" "dom (map_of extra) \<inter> dom (map_of (lr_dict r)) = {}"
    "{ustr ''message'', ustr ''asctime''} \<inter> dom (map_of extra) = {}" "dict_ok (lr_dict r) \<Longrightarrow> dict_ok (lr_dict r')" "r' = r\<lparr>lr_dict := lr_dict r'\<rparr>"
proof -
  have "map_of (lr_dict r') = map_of (lr_dict r) ++ map_of extra \<and> dom (map_of extra) \<inter> dom (map_of (lr_dict r)) = {}
      \<and> {ustr ''message'', ustr ''asctime''} \<inter> dom (map_of extra) = {} \<and> (dict_ok (lr_dict r) \<longrightarrow> dict_ok (lr_dict r')) \<and> r' = r\<lparr>lr_dict := lr_dict r'\<rparr>"
    using assms
  proof (induction extra arbitrary: r)
    case (Cons kv extra)
    obtain k v where kv: "kv = (k, v)" by (cases kv)
    let ?r = "r\<lparr>lr_dict := AList.update k v (lr_dict r)\<rparr>"
    from Cons.prems kv have k: "k \<notin> {ustr ''message'', ustr ''asctime''}" "map_of (lr_dict r) k = None" and "make_record ?r extra = Inr r'"
      by (auto simp: make_record_def split: if_splits)
    have "dict_ok extra" using Cons.prems(2) by simp
    note IH = Cons.IH [OF \<open>make_record ?r extra = Inr r'\<close> this]
    have r: "map_of (lr_dict ?r) = (map_of (lr_dict r))(k \<mapsto> v)" "dict_ok (lr_dict r) \<longrightarrow> dict_ok (lr_dict ?r)"
      using map_of_dset [of k v "lr_dict r"] dict_ok_dset [of "lr_dict r" k v] by (simp, simp)
    have "map_of extra k = None" using Cons.prems(2) kv by (simp add: map_of_eq_None_iff)
    then have "(map_of (lr_dict r))(k \<mapsto> v) ++ map_of extra = map_of (lr_dict r) ++ map_of (kv # extra)"
      by (auto simp: kv map_add_def fun_eq_iff split: option.splits)
    then have "map_of (lr_dict r') = map_of (lr_dict r) ++ map_of (kv # extra)" using conjunct1 [OF IH] unfolding r(1) by metis
    moreover have "dom (map_of (kv # extra)) \<inter> dom (map_of (lr_dict r)) = {}" using IH k(2) kv unfolding r(1) by auto
    moreover have "{ustr ''message'', ustr ''asctime''} \<inter> dom (map_of (kv # extra)) = {}" using IH k(1) kv by auto
    moreover have "?r\<lparr>lr_dict := d\<rparr> = r\<lparr>lr_dict := d\<rparr>" for d by simp
    ultimately show ?case using IH r(2) by metis
  qed (simp add: make_record_def)
  then show "map_of (lr_dict r') = map_of (lr_dict r) ++ map_of extra" "dom (map_of extra) \<inter> dom (map_of (lr_dict r)) = {}"
    "{ustr ''message'', ustr ''asctime''} \<inter> dom (map_of extra) = {}" "dict_ok (lr_dict r) \<Longrightarrow> dict_ok (lr_dict r')" "r' = r\<lparr>lr_dict := lr_dict r'\<rparr>" by blast+
qed

lemma filter_lookup:
  "map_of (lr_dict (NodeContextFilter_filter c r)) = map_of c ++ map_of (lr_dict r)"
  "dict_ok (lr_dict r) \<Longrightarrow> dict_ok (lr_dict (NodeContextFilter_filter c r))"
  "NodeContextFilter_filter c r = r\<lparr>lr_dict := lr_dict (NodeContextFilter_filter c r)\<rparr>"
proof -
  have "map_of (lr_dict (NodeContextFilter_filter c r)) = map_of c ++ map_of (lr_dict r)
      \<and> (dict_ok (lr_dict r) \<longrightarrow> dict_ok (lr_dict (NodeContextFilter_filter c r)))
      \<and> NodeContextFilter_filter c r = r\<lparr>lr_dict := lr_dict (NodeContextFilter_filter c r)\<rparr>"
  proof (induction c arbitrary: r)
    case (Cons kv c)
    obtain k v where kv: "kv = (k, v)" by (cases kv)
    define r2 where "r2 = (if dhas (lr_dict r) k then r else r\<lparr>lr_dict := AList.update k v (lr_dict r)\<rparr>)"
    have step: "NodeContextFilter_filter (kv # c) r = NodeContextFilter_filter c r2" by (simp add: NodeContextFilter_filter_def kv r2_def)
    have "map_of c ++ map_of (lr_dict r2) = map_of (kv # c) ++ map_of (lr_dict r)"
      by (auto simp: r2_def kv dict_simps map_add_def fun_eq_iff split: option.splits)
    moreover have "dict_ok (lr_dict r) \<longrightarrow> dict_ok (lr_dict r2)" "r2\<lparr>lr_dict := d\<rparr> = r\<lparr>lr_dict := d\<rparr>" for d by (simp_all add: r2_def)
    ultimately show ?case unfolding step using Cons.IH [of r2] by metis
  qed (simp add: NodeContextFilter_filter_def)
  then show "map_of (lr_dict (NodeContextFilter_filter c r)) = map_of c ++ map_of (lr_dict r)"
    "dict_ok (lr_dict r) \<Longrightarrow> dict_ok (lr_dict (NodeContextFilter_filter c r))"
    "NodeContextFilter_filter c r = r\<lparr>lr_dict := lr_dict (NodeContextFilter_filter c r)\<rparr>" by blast+
qed

definition formatter_keys :: "pystr list" where
  "formatter_keys = map ustr [''timestamp'', ''level'', ''logger'', ''message'', ''exception'', ''stack'']"

text \<open>A field of the call site or of the context is in the payload under its name; the formatter's own fields
  are there unless a call site takes their name.\<close>

lemma payload_lookup:
  assumes "dict_ok (lr_dict r)" "k \<notin> {ustr ''exception'', ustr ''stack''}"
  shows "map_of (log_payload isoformat r) k = (case map_of (extra_fields r) k of
      Some v \<Rightarrow> Some v
    | None \<Rightarrow> map_of [(ustr ''timestamp'', JStr (isoformat (lr_created r))), (ustr ''level'', JStr (lr_levelname r)),
        (ustr ''logger'', JStr (lr_name r)), (ustr ''message'', JStr (lr_message r))] k)"
proof -
  let ?base = "[(ustr ''timestamp'', JStr (isoformat (lr_created r))), (ustr ''level'', JStr (lr_levelname r)),
        (ustr ''logger'', JStr (lr_name r)), (ustr ''message'', JStr (lr_message r))]"
  have "map_of (log_payload isoformat r) k = map_of (update_all ?base (extra_fields r)) k"
    using assms(2) by (simp add: log_payload_def Let_def map_of_dset split: option.split del: map_of.simps)
  then show ?thesis by (simp only: map_of_update_dict [OF dict_ok_extra_fields [OF assms(1)]] map_add_def)
qed

section \<open>Configured logging\<close>

text \<open>Loggers whose records reach the root: no other handlers on the way, or those of the server, which are removed.\<close>

definition quiet :: "'f logging \<Rightarrow> pystr \<Rightarrow> bool" where
  "quiet lg name \<longleftrightarrow> (\<forall>n\<in>set (dotted_ancestors name). n \<in> set uvicorn_loggers
     \<or> (case map_of (lg_loggers lg) n of None \<Rightarrow> True | Some l \<Rightarrow> lo_handlers l = [] \<and> lo_propagate l))"

definition released :: "'f logging \<Rightarrow> pystr \<Rightarrow> 'f logger" where
  "released lg n = (dget_or (lg_loggers lg) n new_logger)\<lparr>lo_handlers := [], lo_propagate := True\<rparr>"

lemma release_all:
  "\<exists>lg'. sfold release_logger ns lg = (Inr (), lg') \<and> lg_root lg' = lg_root lg
    \<and> map_of (lg_loggers lg') = (\<lambda>n. if n \<in> set ns then Some (released lg n) else map_of (lg_loggers lg) n)"
proof (induction ns arbitrary: lg)
  case (Cons n ns)
  define lg1 where "lg1 = lg\<lparr>lg_loggers := AList.update n (released lg n) (lg_loggers lg)\<rparr>"
  have m: "map_of (lg_loggers lg1) = (map_of (lg_loggers lg))(n \<mapsto> released lg n)" by (simp add: lg1_def dict_simps)
  have "released lg1 k = released lg k" for k by (simp add: released_def [of lg1] dget_or_def m) (simp add: released_def dget_or_def)
  moreover have "release_logger n lg = (Inr (), lg1)" by (simp add: release_logger_def lg1_def released_def smodify_def)
  moreover have "lg_root lg1 = lg_root lg" by (simp add: lg1_def)
  ultimately show ?case using Cons.IH [of lg1] by (auto simp: m fun_eq_iff)
qed simp

lemma release_again:
  assumes "\<forall>n\<in>set ns. \<exists>l. map_of (lg_loggers lg) n = Some (l\<lparr>lo_handlers := [], lo_propagate := True\<rparr>)"
  shows "sfold release_logger ns lg = (Inr (), lg)"
  using assms
proof (induction ns)
  case (Cons n ns)
  then obtain l where "map_of (lg_loggers lg) n = Some (l\<lparr>lo_handlers := [], lo_propagate := True\<rparr>)" by auto
  then have "release_logger n lg = (Inr (), lg)"
    using update_triv [of "lg_loggers lg" n] by (simp add: release_logger_def smodify_def dget_or_def)
  then show ?case using Cons by simp
qed simp

lemma configure_logging_state:
  assumes "map_of level_numbers level = Some n"
  obtains lg' where "configure_logging level context lg = (Inr (), lg')"
    "lg_root lg' = (lg_root lg)\<lparr>lo_handlers := [Json_handler (if context = [] then None else Some context)], lo_level := n\<rparr>"
    "map_of (lg_loggers lg') = (\<lambda>n. if n \<in> set uvicorn_loggers then Some (released lg n) else map_of (lg_loggers lg) n)"
proof -
  define lg1 where "lg1 = lg\<lparr>lg_root := (lg_root lg)\<lparr>lo_handlers := [Json_handler (if context = [] then None else Some context)], lo_level := n\<rparr>\<rparr>"
  have "configure_logging level context lg = sfold release_logger uvicorn_loggers lg1"
    using assms by (simp add: configure_logging_def sbind_def smodify_def root_set_level_def lg1_def)
  moreover have same: "released lg1 = released lg" "lg_loggers lg1 = lg_loggers lg" by (simp_all add: lg1_def released_def fun_eq_iff)
  moreover obtain lg' where "sfold release_logger uvicorn_loggers lg1 = (Inr (), lg')" "lg_root lg' = lg_root lg1"
    "map_of (lg_loggers lg') = (\<lambda>n. if n \<in> set uvicorn_loggers then Some (released lg1 n) else map_of (lg_loggers lg1) n)"
    using release_all [of uvicorn_loggers lg1] by blast
  moreover have "lg_root lg1 = (lg_root lg)\<lparr>lo_handlers := [Json_handler (if context = [] then None else Some context)], lo_level := n\<rparr>"
    by (simp add: lg1_def)
  ultimately show thesis unfolding same by (intro that [of lg']) simp_all
qed

lemma release_root:
  "sfold release_logger ns (lg\<lparr>lg_root := x\<rparr>) = (fst (sfold release_logger ns lg), (snd (sfold release_logger ns lg))\<lparr>lg_root := x\<rparr>)"
proof (induction ns arbitrary: lg)
  case (Cons n ns)
  define lg1 where "lg1 = snd (release_logger n lg)"
  have "release_logger n lg = (Inr (), lg1)" "release_logger n (lg\<lparr>lg_root := x\<rparr>) = (Inr (), lg1\<lparr>lg_root := x\<rparr>)"
    by (simp_all add: lg1_def release_logger_def smodify_def)
  then show ?case using Cons.IH [of lg1] by simp
qed simp

lemma configure_logging_again:
  assumes "map_of level_numbers level = Some n" "map_of level_numbers level' = Some n'"
  shows "configure_logging level context (snd (configure_logging level' context' lg)) = configure_logging level context lg"
proof -
  let ?R = "\<lambda>c n ro. ro\<lparr>lo_handlers := [Json_handler (if c = [] then None else Some c)], lo_level := n\<rparr>"
  let ?rest = "sfold release_logger uvicorn_loggers"
  have conf: "configure_logging l c lg = (Inr (), (snd (?rest lg))\<lparr>lg_root := ?R c n (lg_root lg)\<rparr>)" if "map_of level_numbers l = Some n" for l n c lg
  proof -
    have "configure_logging l c lg = ?rest (lg\<lparr>lg_root := ?R c n (lg_root lg)\<rparr>)"
      using that by (simp add: configure_logging_def sbind_def smodify_def root_set_level_def)
    then show ?thesis using release_root [of uvicorn_loggers "?R c n (lg_root lg)" lg] release_all [of uvicorn_loggers lg] by auto
  qed
  define lg1 where "lg1 = snd (configure_logging level' context' lg)"
  obtain lg' where "configure_logging level' context' lg = (Inr (), lg')"
      "map_of (lg_loggers lg') = (\<lambda>n. if n \<in> set uvicorn_loggers then Some (released lg n) else map_of (lg_loggers lg) n)"
    by (rule configure_logging_state [OF assms(2)])
  then have "\<forall>n\<in>set uvicorn_loggers. \<exists>l. map_of (lg_loggers lg1) n = Some (l\<lparr>lo_handlers := [], lo_propagate := True\<rparr>)"
    by (auto simp: lg1_def released_def)
  then have "?rest lg1 = (Inr (), lg1)" by (rule release_again)
  moreover have "lg1 = (snd (?rest lg))\<lparr>lg_root := ?R context' n' (lg_root lg)\<rparr>" by (simp only: lg1_def conf [OF assms(2)] snd_conv)
  then have "lg1\<lparr>lg_root := ?R context n (lg_root lg1)\<rparr> = (snd (?rest lg))\<lparr>lg_root := ?R context n (lg_root lg)\<rparr>" by simp
  ultimately show ?thesis by (simp only: conf [OF assms(1)] flip: lg1_def) simp
qed

lemma quiet_handlers:
  assumes "\<And>n. n \<in> set ns \<Longrightarrow> case map_of (lg_loggers lg) n of None \<Rightarrow> True | Some l \<Rightarrow> lo_handlers l = [] \<and> lo_propagate l"
  shows "handlers_from lg ns = lo_handlers (lg_root lg)"
  using assms by (induction ns) (fastforce split: option.splits)+

lemma configured_handlers:
  assumes "map_of level_numbers level = Some n" "quiet lg name"
  shows "handlers_from (snd (configure_logging level context lg)) (dotted_ancestors name) = [Json_handler (if context = [] then None else Some context)]"
proof -
  obtain lg' where lg': "configure_logging level context lg = (Inr (), lg')"
    "lg_root lg' = (lg_root lg)\<lparr>lo_handlers := [Json_handler (if context = [] then None else Some context)], lo_level := n\<rparr>"
    "map_of (lg_loggers lg') = (\<lambda>n. if n \<in> set uvicorn_loggers then Some (released lg n) else map_of (lg_loggers lg) n)"
    by (rule configure_logging_state [OF assms(1)])
  have "handlers_from lg' (dotted_ancestors name) = lo_handlers (lg_root lg')"
    by (rule quiet_handlers) (use assms(2) in \<open>auto simp: lg'(3) quiet_def released_def\<close>)
  then show ?thesis by (simp add: lg')
qed

lemma emit_single:
  "emit isoformat repr [Json_handler (if context = [] then None else Some context)] r
     = [JsonFormatter_format isoformat repr (NodeContextFilter_filter context r)]"
  by (simp add: NodeContextFilter_filter_def)

text \<open>A record as the library makes it, before \<open>extra\<close>: its attributes are the standard ones.\<close>

definition plain_record :: "'f log_record \<Rightarrow> bool" where
  "plain_record r \<longleftrightarrow> dict_ok (lr_dict r) \<and> set (dkeys (lr_dict r)) = set standard_record_attrs - {ustr ''asctime''}"

text \<open>Which fields a stamped record has beside the standard ones.\<close>

lemma stamped_fields:
  assumes "plain_record r" "dict_ok extra" "make_record r extra = Inr r1" "k \<notin> set (standard_record_attrs @ suppressed_record_attrs)"
  shows "map_of (extra_fields (NodeContextFilter_filter context r1)) k = (case map_of extra k of Some v \<Rightarrow> Some v | None \<Rightarrow> map_of context k)"
proof -
  note m = make_record_Inr [OF assms(3,2)]
  have "map_of (lr_dict r) k = None" using assms(1,4) by (auto simp: plain_record_def map_of_eq_None_iff)
  then show ?thesis using assms(4) by (simp add: map_of_extra_fields filter_lookup(1) m(1) map_add_def split: option.split)
qed

lemma stamped_record:
  assumes "plain_record r" "dict_ok extra" "make_record r extra = Inr r1"
  shows "dict_ok (lr_dict (NodeContextFilter_filter context r1))" "lr_created (NodeContextFilter_filter context r1) = lr_created r"
    "lr_levelname (NodeContextFilter_filter context r1) = lr_levelname r" "lr_name (NodeContextFilter_filter context r1) = lr_name r"
    "lr_message (NodeContextFilter_filter context r1) = lr_message r" "lr_name r1 = lr_name r" "lr_levelno r1 = lr_levelno r"
proof -
  note m = make_record_Inr [OF assms(3,2)]
  show "dict_ok (lr_dict (NodeContextFilter_filter context r1))"
    using filter_lookup(2) m(4) assms(1) by (simp add: plain_record_def)
  have r1: "r1 = r\<lparr>lr_dict := lr_dict r1\<rparr>" by (rule m(5))
  show n: "lr_name r1 = lr_name r" "lr_levelno r1 = lr_levelno r" by (subst r1, simp)+
  have c: "NodeContextFilter_filter context r1 = r\<lparr>lr_dict := lr_dict (NodeContextFilter_filter context r1)\<rparr>"
    using filter_lookup(3) [of "context" r1] r1 by (metis log_record.surjective log_record.update_convs(8))
  show "lr_created (NodeContextFilter_filter context r1) = lr_created r" "lr_levelname (NodeContextFilter_filter context r1) = lr_levelname r"
    "lr_name (NodeContextFilter_filter context r1) = lr_name r" "lr_message (NodeContextFilter_filter context r1) = lr_message r"
    by (subst c, simp)+
qed

lemma own_keys:
  assumes "k \<in> set [ustr ''timestamp'', ustr ''level'', ustr ''logger'', ustr ''message'']"
  shows "k \<in> set formatter_keys" "k \<notin> {ustr ''exception'', ustr ''stack''}" "k \<notin> set (standard_record_attrs @ suppressed_record_attrs)"
proof -
  have "list_all (\<lambda>k. k \<in> set formatter_keys \<and> k \<notin> set [ustr ''exception'', ustr ''stack''] \<and> k \<notin> set (standard_record_attrs @ suppressed_record_attrs))
      [ustr ''timestamp'', ustr ''level'', ustr ''logger'', ustr ''message'']" by code_simp
  then show "k \<in> set formatter_keys" "k \<notin> {ustr ''exception'', ustr ''stack''}" "k \<notin> set (standard_record_attrs @ suppressed_record_attrs)"
    using assms unfolding list_all_iff by auto
qed

lemma exception_stack: "ustr ''exception'' \<in> set formatter_keys" "ustr ''stack'' \<in> set formatter_keys"
  by (simp_all add: formatter_keys_def)

section \<open>Properties\<close>

text \<open>C37. One JSON object per line: whatever a record holds, its line is printable ASCII without a line break, and two
  records with the same line have the same fields with the same values, up to what \<open>str\<close> says of values that JSON has not.
  Surrogates in a text are the exception.\<close>

theorem log_line_faithful:
  assumes "float_text repr"
  shows "(\<forall>c\<in>set (JsonFormatter_format isoformat repr r). 32 \<le> c \<and> c \<le> 126)
    \<and> (json_scalar (JDict (log_payload isoformat r)) \<longrightarrow> json_scalar (JDict (log_payload isoformat r'))
       \<longrightarrow> JsonFormatter_format isoformat repr r = JsonFormatter_format isoformat repr r'
       \<longrightarrow> json_read (JDict (log_payload isoformat r)) = json_read (JDict (log_payload isoformat r')))"
  using json_printable [OF assms, of _ "JDict (log_payload isoformat r)"]
    json_unambiguous [OF assms, of "JDict (log_payload isoformat r)" "JDict (log_payload isoformat r')"]
  unfolding JsonFormatter_format_def by blast

text \<open>C36. Logs stay attributable and are written once: after \<open>configure_logging\<close>, whatever was configured before it, a record
  logged through a logger whose way to the root has no other handlers than the server's gives one line if its level is
  enabled and none otherwise; the line has the record's time, level, logger and message, every field of the call site, and every
  field of the node's context that the call site did not set itself.\<close>

theorem configured_logs_attributable:
  assumes "map_of level_numbers level = Some n" "quiet lg (lr_name r)"
    and "plain_record r" "dict_ok extra" "make_record r extra = Inr r1"
    and "set (dkeys extra) \<inter> set (formatter_keys @ suppressed_record_attrs) = {}"
    and "set (dkeys context) \<inter> set (formatter_keys @ suppressed_record_attrs @ standard_record_attrs) = {}"
  shows "\<exists>lg' p. configure_logging level context lg = (Inr (), lg')
    \<and> (\<forall>level' context'. dhas level_numbers level' \<longrightarrow> configure_logging level' context' lg' = configure_logging level' context' lg)
    \<and> log_lines isoformat repr lg' r1 = (if level_from lg' (dotted_ancestors (lr_name r)) \<le> lr_levelno r then [json_dumps repr (JDict p)] else [])
    \<and> map_of p (ustr ''timestamp'') = Some (JStr (isoformat (lr_created r))) \<and> map_of p (ustr ''level'') = Some (JStr (lr_levelname r))
    \<and> map_of p (ustr ''logger'') = Some (JStr (lr_name r)) \<and> map_of p (ustr ''message'') = Some (JStr (lr_message r))
    \<and> (\<forall>k v. map_of extra k = Some v \<longrightarrow> map_of p k = Some v)
    \<and> (\<forall>k v. map_of context k = Some v \<longrightarrow> map_of extra k = None \<longrightarrow> map_of p k = Some v)"
proof -
  obtain lg' where lg': "configure_logging level context lg = (Inr (), lg')" by (rule configure_logging_state [OF assms(1)])
  let ?r = "NodeContextFilter_filter context r1"
  define p where "p = log_payload isoformat ?r"
  note r = stamped_record [OF assms(3-5)]
  note m = make_record_Inr [OF assms(5,4)]
  have lines: "log_lines isoformat repr lg' r1 = (if level_from lg' (dotted_ancestors (lr_name r)) \<le> lr_levelno r then [json_dumps repr (JDict p)] else [])"
    using configured_handlers [OF assms(1,2), of "context"] emit_single [of isoformat repr "context" r1] r(6,7)
    by (simp add: log_lines_def Let_def lg' JsonFormatter_format_def p_def)
  have again: "configure_logging level' context' lg' = configure_logging level' context' lg" if "dhas level_numbers level'" for level' context'
    using that configure_logging_again [OF _ assms(1), of level' _ context' "context" lg] lg' by auto
  have std: "k \<notin> set standard_record_attrs" if "map_of extra k = Some v" for k v
  proof
    assume "k \<in> set standard_record_attrs"
    then have "k \<in> dom (map_of (lr_dict r)) \<or> k = ustr ''asctime''" using assms(3) by (auto simp: plain_record_def simp flip: set_dkeys_dom)
    then show False using m(2,3) that by blast
  qed
  have look: "map_of p k = (case (case map_of extra k of Some v \<Rightarrow> Some v | None \<Rightarrow> map_of context k) of
      Some v \<Rightarrow> Some v | None \<Rightarrow> map_of [(ustr ''timestamp'', JStr (isoformat (lr_created r))), (ustr ''level'', JStr (lr_levelname r)),
        (ustr ''logger'', JStr (lr_name r)), (ustr ''message'', JStr (lr_message r))] k)"
    if "k \<notin> {ustr ''exception'', ustr ''stack''}" "k \<notin> set (standard_record_attrs @ suppressed_record_attrs)" for k
    unfolding p_def by (simp only: payload_lookup [OF r(1) that(1)] stamped_fields [OF assms(3-5) that(2)] r)
  have none: "map_of extra k = None" "map_of context k = None" if "k \<in> set formatter_keys" for k
    using that assms(6,7) by (auto simp: map_of_eq_None_iff)
  have own: "map_of p k = map_of [(ustr ''timestamp'', JStr (isoformat (lr_created r))), (ustr ''level'', JStr (lr_levelname r)),
        (ustr ''logger'', JStr (lr_name r)), (ustr ''message'', JStr (lr_message r))] k"
    if "k \<in> set [ustr ''timestamp'', ustr ''level'', ustr ''logger'', ustr ''message'']" for k
    using that own_keys [of k] none [of k] look [of k] by simp
  have fields: "map_of p k = Some v"
    if "map_of extra k = Some v \<or> map_of context k = Some v \<and> map_of extra k = None" for k v
  proof -
    have "k \<in> set (dkeys extra) \<and> k \<notin> set standard_record_attrs \<or> k \<in> set (dkeys context)"
      using that std [of k v] dhas_iff [of extra k] dhas_iff [of "context" k] by (metis option.distinct(1))
    then have "k \<notin> set (standard_record_attrs @ suppressed_record_attrs)" "k \<notin> {ustr ''exception'', ustr ''stack''}"
      using assms(6,7) exception_stack unfolding disjoint_iff set_append by blast+
    from look [OF this(2,1)] show ?thesis using that by auto
  qed
  have "map_of p (ustr ''timestamp'') = Some (JStr (isoformat (lr_created r)))" "map_of p (ustr ''level'') = Some (JStr (lr_levelname r))"
      "map_of p (ustr ''logger'') = Some (JStr (lr_name r))" "map_of p (ustr ''message'') = Some (JStr (lr_message r))"
    using own [of "ustr ''timestamp''"] own [of "ustr ''level''"] own [of "ustr ''logger''"] own [of "ustr ''message''"] by (simp_all add: ustr_def)
  then show ?thesis using lg' lines again fields by (intro exI [of _ lg'] exI [of _ p]) simp
qed

text \<open>A server that has set up its own loggers, and a record of it with a line break and a character outside ASCII.\<close>

definition served_logging :: "int logging" where
  "served_logging = \<lparr>lg_root = new_logger\<lparr>lo_level := 30\<rparr>, lg_loggers =
     [(ustr ''uvicorn'', \<lparr>lo_handlers = [Foreign_handler 1], lo_level = 20, lo_propagate = False\<rparr>),
      (ustr ''uvicorn.access'', \<lparr>lo_handlers = [Foreign_handler 2], lo_level = 20, lo_propagate = False\<rparr>)]\<rparr>"

definition sample_record :: "int log_record" where
  "sample_record = \<lparr>lr_created = 0, lr_levelname = ustr ''INFO'', lr_levelno = 20, lr_name = ustr ''uvicorn.access'',
     lr_message = [97, 10, 233], lr_exc_info = None, lr_stack_info = None,
     lr_dict = map (\<lambda>k. (k, JNull)) (filter (\<lambda>k. k \<noteq> ustr ''asctime'') standard_record_attrs)\<rparr>"

theorem log_line_faithful_witness:
  "list_all (\<lambda>c. 32 \<le> c \<and> c \<le> 126) (JsonFormatter_format whole_repr whole_repr sample_record)"
  using log_line_faithful [OF whole_repr_text] unfolding list_all_iff by blast

theorem configured_logs_attributable_witness:
  "\<exists>r1 lg' p. make_record sample_record [(ustr ''shard_id'', JInt 7)] = Inr r1
    \<and> configure_logging (ustr ''INFO'') [(ustr ''node_role'', JStr (ustr ''shard'')), (ustr ''shard_id'', JInt 1)] served_logging = (Inr (), lg')
    \<and> log_lines whole_repr whole_repr lg' r1 = [json_dumps whole_repr (JDict p)]
    \<and> map_of p (ustr ''shard_id'') = Some (JInt 7) \<and> map_of p (ustr ''node_role'') = Some (JStr (ustr ''shard''))"
proof -
  let ?extra = "[(ustr ''shard_id'', JInt 7 :: int json)]" and ?node = "[(ustr ''node_role'', JStr (ustr ''shard'')), (ustr ''shard_id'', JInt 1)]"
  have "ustr ''shard_id'' \<notin> set (ustr ''message'' # ustr ''asctime'' # dkeys (lr_dict sample_record))" by code_simp
  then have "ustr ''shard_id'' \<notin> {ustr ''message'', ustr ''asctime''}" "map_of (lr_dict sample_record) (ustr ''shard_id'') = None"
    by (simp_all add: map_of_eq_None_iff)
  then obtain r1 where r1: "make_record sample_record ?extra = Inr r1" by (simp add: make_record_def)
  have h: "map_of level_numbers (ustr ''INFO'') = Some 20" "quiet served_logging (lr_name sample_record)" "plain_record sample_record"
    "dict_ok ?extra" "set (dkeys ?extra) \<inter> set (formatter_keys @ suppressed_record_attrs) = {}"
    "set (dkeys ?node) \<inter> set (formatter_keys @ suppressed_record_attrs @ standard_record_attrs) = {}"
    by code_simp+
  obtain lg' where lg': "configure_logging (ustr ''INFO'') ?node served_logging = (Inr (), lg')"
    "map_of (lg_loggers lg') = (\<lambda>n. if n \<in> set uvicorn_loggers then Some (released served_logging n) else map_of (lg_loggers served_logging) n)"
    by (rule configure_logging_state [OF h(1)])
  have "dotted_ancestors (lr_name sample_record) = [ustr ''uvicorn.access'', ustr ''uvicorn'']" "ustr ''uvicorn.access'' \<in> set uvicorn_loggers"
    "lo_level (released served_logging (ustr ''uvicorn.access'')) = 20" "lr_levelno sample_record = 20" by code_simp+
  then have "level_from lg' (dotted_ancestors (lr_name sample_record)) \<le> lr_levelno sample_record" by (simp add: lg'(2))
  moreover obtain lg2 p where c: "configure_logging (ustr ''INFO'') ?node served_logging = (Inr (), lg2)"
      "log_lines whole_repr whole_repr lg2 r1 = (if level_from lg2 (dotted_ancestors (lr_name sample_record)) \<le> lr_levelno sample_record
         then [json_dumps whole_repr (JDict p)] else [])"
      "\<forall>k v. map_of ?extra k = Some v \<longrightarrow> map_of p k = Some v"
      "\<forall>k v. map_of ?node k = Some v \<longrightarrow> map_of ?extra k = None \<longrightarrow> map_of p k = Some v"
    using configured_logs_attributable [OF h(1-4) r1 h(5,6), of whole_repr whole_repr] by (elim exE conjE) (rule that; assumption)
  moreover have "lg2 = lg'" using c(1) lg'(1) by (metis prod.inject)
  moreover have "map_of p (ustr ''shard_id'') = Some (JInt 7)" using c(3) by simp
  moreover have "ustr ''node_role'' \<noteq> ustr ''shard_id''" by code_simp
  then have "map_of p (ustr ''node_role'') = Some (JStr (ustr ''shard''))" using c(4) by simp
  ultimately show ?thesis using r1 by (intro exI [of _ r1] exI [of _ lg'] exI [of _ p]) simp
qed

end
