(* ===== verification/Application.thy ===== *)
theory Application
  imports Replicated_Writes Logging
begin

text \<open>
  \<open>app/main.py\<close>, the composition root: which embedder a node uses, how a node that owns documents starts,
  how a coordinator starts, and which endpoints each role exposes. The HTTP clients' timeouts and
  closing are left out, as are the calls that log; a failure to start is the exception that aborts the process, with what is then on disk.
\<close>

section \<open>Starting a node\<close>

text \<open>\<open>_build_embedder\<close>; \<open>fetch\<close> stands for loading a model, as in \<open>model2vec_load\<close>.\<close>

definition build_embedder ::
    "'f::linorder numpy \<Rightarrow> (pystr \<Rightarrow> pystr \<Rightarrow> ((pystr list \<Rightarrow> 'f ndarray res) \<times> nat) option) \<Rightarrow> settings \<Rightarrow> 'f embedder option \<Rightarrow> 'f embedder option res" where
  "build_embedder np fetch st override =
     (case override of Some e \<Rightarrow> Inr (Some e)
      | None \<Rightarrow> if \<not> se_semantic_enabled st then Inr None
         else ebind (model2vec_load np fetch (se_embedding_model st) (se_embedding_model_revision st)) (\<lambda>e. Inr (Some e)))"

text \<open>\<open>_node_lifespan\<close>, up to the node's role: open the database, build the engine, recover. \<open>embedder\<close> is the
  outcome of \<open>_build_embedder\<close>, which is evaluated after the database is open.\<close>

definition start_engine ::
    "'f::linorder runtime \<Rightarrow> settings \<Rightarrow> 'f embedder option res \<Rightarrow> database \<Rightarrow> bool list \<Rightarrow> 'f engine res \<times> database" where
  "start_engine rt st embedder db faults =
     (case store_open (se_storage_path st = ustr '':memory:'') db faults of
        (Inl e, db1) \<Rightarrow> (Inl e, db1)
      | (Inr con, db1) \<Rightarrow>
          (case ebind embedder (engine_init rt con None) of
             Inl e \<Rightarrow> (Inl e, db1)
           | Inr en \<Rightarrow>
               (case engine_initialize rt en of
                  (Inl e, en1) \<Rightarrow> (Inl e, con_durable (en_store en1))
                | (Inr _, en1) \<Rightarrow> (Inr en1, con_durable (en_store en1)))))"

definition start_node ::
    "'f::linorder runtime \<Rightarrow> (pystr \<Rightarrow> pystr \<Rightarrow> ((pystr list \<Rightarrow> 'f ndarray res) \<times> nat) option) \<Rightarrow> settings \<Rightarrow> 'f embedder option
     \<Rightarrow> database \<Rightarrow> bool list \<Rightarrow> 'f node res \<times> database" where
  "start_node rt fetch st override db faults =
     (case start_engine rt st (build_embedder (rt_numpy rt) fetch st override) db faults of
        (r, db1) \<Rightarrow> (ebind r (\<lambda>en. Inr \<lparr>no_engine = en, no_settings = st\<rparr>), db1))"

text \<open>\<open>_coordinator_lifespan\<close>: the topology and the router of the settings, and the embedder for queries.\<close>

definition start_coordinator ::
    "'f::linorder runtime \<Rightarrow> (pystr \<Rightarrow> pystr \<Rightarrow> ((pystr list \<Rightarrow> 'f ndarray res) \<times> nat) option) \<Rightarrow> (pystr \<Rightarrow> ('f, 'w) shard_client)
     \<Rightarrow> settings \<Rightarrow> 'f embedder option \<Rightarrow> ('f, 'w) coordinator res" where
  "start_coordinator rt fetch client st override =
     ebind (coordinator_parts (rt_unicode rt) client st) (\<lambda>(router, topology).
       ebind (build_embedder (rt_numpy rt) fetch st override) (mk_coordinator router topology))"

section \<open>Which endpoints a role exposes\<close>

datatype router = Health_router | Readiness_router | Cluster_router | Internal_router | Documents_router
  | Search_router | Index_router | Semantic_router | Hybrid_router

fun app_routers :: "node_role \<Rightarrow> router list" where
  "app_routers CoordinatorRole = [Health_router, Cluster_router]"
| "app_routers Shard = [Health_router, Readiness_router, Internal_router]"
| "app_routers Single = [Health_router, Readiness_router, Documents_router, Search_router, Index_router, Semantic_router, Hybrid_router]"

fun router_routes :: "router \<Rightarrow> (string \<times> string) list" where
  "router_routes Health_router = [(''GET'', ''/health'')]"
| "router_routes Readiness_router = [(''GET'', ''/ready'')]"
| "router_routes Documents_router = [(''PUT'', ''/documents/{document_id}''), (''DELETE'', ''/documents/{document_id}'')]"
| "router_routes Search_router = [(''GET'', ''/search'')]"
| "router_routes Index_router = [(''GET'', ''/index/stats'')]"
| "router_routes Semantic_router = [(''GET'', ''/search/semantic'')]"
| "router_routes Hybrid_router = [(''GET'', ''/search/hybrid'')]"
| "router_routes Cluster_router = [(''PUT'', ''/documents/{document_id}''), (''DELETE'', ''/documents/{document_id}''),
     (''GET'', ''/search''), (''GET'', ''/search/semantic''), (''GET'', ''/search/hybrid''), (''GET'', ''/index/stats''),
     (''GET'', ''/ready''), (''GET'', ''/cluster/status'')]"
| "router_routes Internal_router = [(''PUT'', ''/internal/documents/{document_id}''), (''DELETE'', ''/internal/documents/{document_id}''),
     (''POST'', ''/internal/search''), (''GET'', ''/internal/corpus-stats''), (''GET'', ''/internal/stats''),
     (''PUT'', ''/internal/replicate/{document_id}''), (''DELETE'', ''/internal/replicate/{document_id}''),
     (''GET'', ''/internal/export''), (''GET'', ''/internal/node-status''), (''POST'', ''/internal/replica/resync''),
     (''POST'', ''/internal/search/semantic'')]"

definition app_routes :: "node_role \<Rightarrow> (string \<times> string) list" where
  "app_routes role = concat (map router_routes (app_routers role))"

section \<open>Building the application\<close>

fun node_role_str :: "node_role \<Rightarrow> pystr" where
  "node_role_str Single = ustr ''single''"
| "node_role_str Shard = ustr ''shard''"
| "node_role_str CoordinatorRole = ustr ''coordinator''"

fun log_level_str :: "log_level \<Rightarrow> pystr" where
  "log_level_str DEBUG = ustr ''DEBUG''"
| "log_level_str INFO = ustr ''INFO''"
| "log_level_str WARNING = ustr ''WARNING''"
| "log_level_str ERROR = ustr ''ERROR''"
| "log_level_str CRITICAL = ustr ''CRITICAL''"

text \<open>The validator of \<open>log_level\<close>, with \<open>str.upper\<close> as a parameter, and the values the field's type then admits.\<close>

definition normalise_log_level :: "(pystr \<Rightarrow> pystr) \<Rightarrow> pystr \<Rightarrow> log_level res" where
  "normalise_log_level upper value =
     (case map_of (map (\<lambda>l. (log_level_str l, l)) [DEBUG, INFO, WARNING, ERROR, CRITICAL]) (upper value) of
        None \<Rightarrow> Inl ValueError | Some l \<Rightarrow> Inr l)"

definition log_context :: "settings \<Rightarrow> (pystr, 'f json) dict" where
  "log_context st =
     [(ustr ''node_role'', JStr (node_role_str (se_node_role st)))]
     @ (case se_shard_id st of None \<Rightarrow> [] | Some i \<Rightarrow> [(ustr ''shard_id'', JInt i)])
     @ (case se_replica_role st of None \<Rightarrow> [] | Some role \<Rightarrow> [(ustr ''replica_role'', JStr (replica_role_str role))])
     @ (if se_node_id st = [] then [] else [(ustr ''node_id'', JStr (se_node_id st))])"

record application =
  ap_title :: pystr
  ap_routers :: "router list"
  ap_settings :: settings

definition create_app :: "settings \<Rightarrow> ('f logging, application) st" where
  "create_app st =
     sbind (configure_logging (log_level_str (se_log_level st)) (log_context st))
       (\<lambda>_. slift (Inr \<lparr>ap_title = se_app_name st, ap_routers = app_routers (se_node_role st), ap_settings = st\<rparr>))"

text \<open>The public interface of a cluster is that of a single node plus its status page; no path reaches both a
  shard and the public interface but the probes.\<close>

lemma cluster_extends_single_node: "set (app_routes CoordinatorRole) = insert (''GET'', ''/cluster/status'') (set (app_routes Single))"
  by code_simp

lemma shard_hides_public_paths: "set (app_routes Shard) \<inter> set (app_routes Single) = {(''GET'', ''/health''), (''GET'', ''/ready'')}"
  by code_simp

text \<open>The levels the settings admit are levels of the logging package, so building the application does not fail; its
  context never takes the name of another field of a log line.\<close>

lemma log_levels_known: "\<exists>n. map_of level_numbers (log_level_str l) = Some n"
proof -
  have "list_all (\<lambda>l. log_level_str l \<in> set (dkeys level_numbers)) [DEBUG, INFO, WARNING, ERROR, CRITICAL]" by code_simp
  then show ?thesis using dhas_iff [of level_numbers "log_level_str l"] by (cases l) auto
qed

lemma log_context_keys: "set (dkeys (log_context st)) \<inter> set (formatter_keys @ suppressed_record_attrs @ standard_record_attrs) = {}"
proof -
  have "list_all (\<lambda>k. k \<notin> set (formatter_keys @ suppressed_record_attrs @ standard_record_attrs))
      [ustr ''node_role'', ustr ''shard_id'', ustr ''replica_role'', ustr ''node_id'']" by code_simp
  moreover have "set (dkeys (log_context st)) \<subseteq> set [ustr ''node_role'', ustr ''shard_id'', ustr ''replica_role'', ustr ''node_id'']"
    by (auto simp: log_context_def split: option.splits if_splits)
  ultimately show ?thesis unfolding list_all_iff disjoint_iff by blast
qed

lemma create_app_succeeds:
  "\<exists>lg'. create_app st lg = (Inr \<lparr>ap_title = se_app_name st, ap_routers = app_routers (se_node_role st), ap_settings = st\<rparr>, lg')
    \<and> configure_logging (log_level_str (se_log_level st)) (log_context st) lg = (Inr (), lg')"
proof -
  obtain n where "map_of level_numbers (log_level_str (se_log_level st)) = Some n" using log_levels_known by blast
  then obtain lg' where "configure_logging (log_level_str (se_log_level st)) (log_context st) lg = (Inr (), lg')"
    by (rule configure_logging_state)
  then show ?thesis by (simp add: create_app_def slift_def)
qed

lemma log_level_roundtrip: "upper (log_level_str l) = log_level_str l \<Longrightarrow> normalise_log_level upper (log_level_str l) = Inr l"
proof -
  have "list_all (\<lambda>l. normalise_log_level id (log_level_str l) = Inr l) [DEBUG, INFO, WARNING, ERROR, CRITICAL]" by code_simp
  then have "normalise_log_level id (log_level_str l) = Inr l" by (cases l) simp_all
  then show "upper (log_level_str l) = log_level_str l \<Longrightarrow> ?thesis" by (simp add: normalise_log_level_def)
qed

section \<open>What startup gives\<close>

text \<open>What a database file holds; one without a generation is fresh.\<close>

definition disk_content :: "database \<Rightarrow> (pystr \<rightharpoonup> pystr) \<times> int" where
  "disk_content db = (map_of (db_documents db), case db_generation db of None \<Rightarrow> 0 | Some g \<Rightarrow> g)"

definition disk_ok :: "unicode \<Rightarrow> database \<Rightarrow> bool" where
  "disk_ok ud db \<longleftrightarrow> dict_ok (db_documents db) \<and> (\<forall>d t. map_of (db_documents db) d = Some t \<longrightarrow> valid_id ud d)"

lemma store_disk:
  assumes "store_ok ud con"
  shows "disk_ok ud (con_durable con)" "disk_content (con_durable con) = store_content con"
  using assms by (auto simp: store_ok_def disk_ok_def disk_content_def store_content_def split: option.split)

text \<open>Recovery: a node that starts is \<open>READY\<close> with exactly the content that was on disk; one that does not leaves
  the disk as it was.\<close>

lemma start_engine_cases:
  assumes db: "disk_ok (rt_unicode rt) db" and wf: "\<And>e. embedder = Inr (Some e) \<Longrightarrow> embedder_wf e"
  shows "\<exists>r db1. start_engine rt st embedder db faults = (r, db1) \<and> disk_ok (rt_unicode rt) db1 \<and> disk_content db1 = disk_content db
    \<and> (\<forall>en. r = Inr en \<longrightarrow> engine_inv rt en \<and> en_state en = READY \<and> con_durable (en_store en) = db1 \<and> embedder = Inr (en_embedder en))"
proof -
  let ?memory = "se_storage_path st = ustr '':memory:''"
  let ?db = "db\<lparr>db_generation := Some (case db_generation db of None \<Rightarrow> 0 | Some g \<Rightarrow> g)\<rparr>"
  consider "store_open ?memory db faults = (Inl StorageInitializationError, db)"
    | con where "store_open ?memory db faults = (Inr con, ?db)" "con_working con = ?db" "con_durable con = ?db"
    using store_open_cases [of ?memory db faults] by force
  then show ?thesis
  proof cases
    case 1
    then show ?thesis using db by (simp add: start_engine_def)
  next
    case (2 con)
    have ok: "store_ok (rt_unicode rt) con" using 2 db by (simp add: store_ok_def disk_ok_def)
    have same: "disk_ok (rt_unicode rt) ?db" "disk_content ?db = disk_content db" using db by (simp_all add: disk_ok_def disk_content_def)
    show ?thesis
    proof (cases "ebind embedder (engine_init rt con None)")
      case (Inl e)
      then show ?thesis using 2 same by (simp add: start_engine_def)
    next
      case (Inr en)
      from Inr obtain eo where e: "embedder = Inr eo" "engine_init rt con None eo = Inr en" by (auto simp: ebind_Inr_iff)
      have init: "en_store en = con" "en_embedder en = eo" using e(2) by (auto simp: engine_init_def ebind_Inr_iff)
      have "engine_inv rt en" using engine_init_inv [OF e(2) ok] wf e(1) by (auto split: option.split)
      from initialize_cases [OF this] obtain r en1 where i: "engine_initialize rt en = (r, en1)" "engine_inv rt en1"
        "store_content (en_store en1) = store_content (en_store en)" "en_embedder en1 = en_embedder en"
        "case r of Inr _ \<Rightarrow> en_state en1 = READY | Inl _ \<Rightarrow> en_state en1 = en_state en" by blast
      have d: "disk_ok (rt_unicode rt) (con_durable (en_store en1))" "disk_content (con_durable (en_store en1)) = disk_content db"
        using store_disk [OF engine_invD(1) [OF i(2)]] store_disk(2) [OF ok] i(3) init(1) 2(3) same(2) by simp_all
      show ?thesis using 2 Inr i d e(1) init(2) by (cases r) (simp_all add: start_engine_def)
    qed
  qed
qed

text \<open>A node that starts has its settings and serves what its database holds.\<close>

lemma start_node_recovers:
  assumes "disk_ok (rt_unicode rt) db" "\<And>e. build_embedder (rt_numpy rt) fetch st override = Inr (Some e) \<Longrightarrow> embedder_wf e"
    and "start_node rt fetch st override db faults = (Inr n, db1)"
  shows "no_settings n = st \<and> engine_inv rt (no_engine n) \<and> en_state (no_engine n) = READY
    \<and> engine_corpus (no_engine n) = map_of (db_documents db) \<and> disk_content db1 = disk_content db"
proof -
  from start_engine_cases [OF assms(1), of "build_embedder (rt_numpy rt) fetch st override" st faults] assms(2,3) obtain en where
    e: "n = \<lparr>no_engine = en, no_settings = st\<rparr>" "engine_inv rt en" "en_state en = READY" "con_durable (en_store en) = db1" "disk_content db1 = disk_content db"
    by (auto simp: start_node_def ebind_Inr_iff split: prod.splits)
  have "store_content (en_store en) = disk_content db" using store_disk(2) [OF engine_invD(1) [OF e(2)]] e(4,5) by simp
  then show ?thesis using e by (simp add: engine_corpus_def disk_content_def)
qed

text \<open>A coordinator whose settings were accepted, and whose model loads if it needs one, starts.\<close>

lemma accepted_coordinator_starts:
  assumes "mk_settings (rt_unicode rt) st = Inr st'" "se_node_role st = CoordinatorRole" "build_embedder (rt_numpy rt) fetch st override = Inr e"
  shows "\<exists>co. start_coordinator rt fetch client st override = Inr co \<and> co_embedder co = e
    \<and> ct_shard_count (co_topology co) = se_shard_count st \<and> ro_shard_count (co_router co) = se_shard_count st"
proof -
  have "st' = st" by (rule mk_settings_coordinator(1) [OF assms(1,2)])
  from accepted_parts [OF assms(1,2), of client "[]"] obtain r ct where
    "coordinator_parts (rt_unicode rt) client st' = Inr (r, ct)" "ct_shard_count ct = se_shard_count st" "ro_shard_count r = se_shard_count st" by blast
  with \<open>st' = st\<close> assms(3) show ?thesis by (simp add: start_coordinator_def mk_coordinator_def)
qed

end
