(* ===== verification/Replication_System.thy ===== *)
theory Replication_System
  imports Application
begin

text \<open>
  One logical shard as a concurrent system: its primary, its replicas, the requests between them and the
  threads that serve them. A replication request that was sent may be handled at any later time, more than
  once or never, also after the primary has given up on it; processes crash and restart between any two
  steps. A step is one critical section of an engine, one request or one answer, as the locks of
  \<open>Replicator\<close> and \<open>SearchEngine\<close> separate them. Identifiers are taken to survive the path of a request.
\<close>

section \<open>Mutations\<close>

datatype mutation = Put_mutation document | Delete_mutation pystr

fun mutation_effect :: "mutation \<Rightarrow> (pystr \<rightharpoonup> pystr) \<Rightarrow> pystr \<rightharpoonup> pystr" where
  "mutation_effect (Put_mutation doc) C = C(document_id doc \<mapsto> doc_text doc)"
| "mutation_effect (Delete_mutation d) C = C(d := None)"

fun mutation_ok :: "unicode \<Rightarrow> mutation \<Rightarrow> bool" where
  "mutation_ok ud (Put_mutation doc) = valid_id ud (document_id doc)"
| "mutation_ok ud (Delete_mutation d) = True"

fun primary_apply :: "'f runtime \<Rightarrow> mutation \<Rightarrow> ('f engine, unit) st" where
  "primary_apply rt (Put_mutation doc) = sbind (engine_index_document rt doc) (\<lambda>_. slift (Inr ()))"
| "primary_apply rt (Delete_mutation d) = engine_delete_document d"

fun replica_apply :: "'f runtime \<Rightarrow> mutation \<Rightarrow> int \<Rightarrow> ('f engine, replication_outcome) st" where
  "replica_apply rt (Put_mutation doc) g = engine_apply_replicated_put rt doc g"
| "replica_apply rt (Delete_mutation d) g = engine_apply_replicated_delete d g"

section \<open>The system\<close>

text \<open>
  Where a replica's process is: not running; serving; starting up, before or after it has the primary's
  generation; or repairing itself, before the snapshot, with the snapshot, or after a failure. The flag
  tells a repair during startup, when the process does not yet accept requests, from one requested later.
\<close>

datatype replica_pc = Down | Serving | Verifying int | Compared int int
  | Pulling bool | Pulled bool "document list" int | Failing bool

fun accepts_requests :: "replica_pc \<Rightarrow> bool" where
  "accepts_requests Serving = True"
| "accepts_requests (Pulling starting) = (\<not> starting)"
| "accepts_requests (Pulled starting docs g) = (\<not> starting)"
| "accepts_requests (Failing starting) = (\<not> starting)"
| "accepts_requests _ = False"

text \<open>
  The writer is the thread that holds the replicator's lock: its mutation, the generation, and the replica
  it has reached. \<open>sy_log\<close> and \<open>sy_acked\<close> only record what happened: the mutations that became durable on the
  primary, in order, and the generations of the writes that were acknowledged.
\<close>

record 'f system =
  sy_primary :: "'f engine"
  sy_up :: bool
  sy_writer :: "(mutation \<times> int \<times> nat) option"
  sy_replica :: "nat \<Rightarrow> 'f engine"
  sy_pc :: "nat \<Rightarrow> replica_pc"
  sy_sent :: "(nat \<times> mutation \<times> int) set"
  sy_answers :: "(nat \<times> int) set"
  sy_log :: "mutation list"
  sy_acked :: "int set"

abbreviation content :: "'f engine \<Rightarrow> (pystr \<rightharpoonup> pystr) \<times> int" where
  "content en \<equiv> store_content (en_store en)"

definition set_replica :: "nat \<Rightarrow> 'f engine \<Rightarrow> replica_pc \<Rightarrow> 'f system \<Rightarrow> 'f system" where
  "set_replica i en pc s = s\<lparr>sy_replica := (sy_replica s)(i := en), sy_pc := (sy_pc s)(i := pc)\<rparr>"

inductive step :: "'f::linorder runtime \<Rightarrow> nat \<Rightarrow> 'f system \<Rightarrow> 'f system \<Rightarrow> bool" for rt :: "'f runtime" and replicas :: nat where
  commit: "\<lbrakk>sy_up s; sy_writer s = None; mutation_ok (rt_unicode rt) m; primary_apply rt m (sy_primary s) = (r, en)\<rbrakk> \<Longrightarrow>
     step rt replicas s (s\<lparr>sy_primary := en, sy_log := (if content en = content (sy_primary s) then sy_log s else sy_log s @ [m]),
       sy_writer := (case r of Inr _ \<Rightarrow> Some (m, en_generation en, 0) | Inl _ \<Rightarrow> None)\<rparr>)"
| send: "\<lbrakk>sy_writer s = Some (m, g, i); i < replicas\<rbrakk> \<Longrightarrow> step rt replicas s (s\<lparr>sy_sent := insert (i, m, g) (sy_sent s)\<rparr>)"
| deliver: "\<lbrakk>(i, m, g) \<in> sy_sent s; accepts_requests (sy_pc s i); replica_apply rt m g (sy_replica s i) = (r, en)\<rbrakk> \<Longrightarrow>
     step rt replicas s ((set_replica i en (sy_pc s i) s)
       \<lparr>sy_answers := if r \<in> {Inr APPLIED, Inr DUPLICATE} then insert (i, g) (sy_answers s) else sy_answers s\<rparr>)"
| answered: "\<lbrakk>sy_writer s = Some (m, g, i); i < replicas; (i, g) \<in> sy_answers s\<rbrakk> \<Longrightarrow> step rt replicas s (s\<lparr>sy_writer := Some (m, g, Suc i)\<rparr>)"
| give_up: "sy_writer s = Some w \<Longrightarrow> step rt replicas s (s\<lparr>sy_writer := None\<rparr>)"
| acknowledge: "sy_writer s = Some (m, g, replicas) \<Longrightarrow> step rt replicas s (s\<lparr>sy_writer := None, sy_acked := insert g (sy_acked s)\<rparr>)"
| primary_crash: "step rt replicas s (s\<lparr>sy_up := False, sy_writer := None\<rparr>)"
| primary_start: "\<lbrakk>\<not> sy_up s; \<forall>e. embedder = Inr (Some e) \<longrightarrow> embedder_wf e;
     start_engine rt st embedder (con_durable (en_store (sy_primary s))) faults = (Inr en, db)\<rbrakk> \<Longrightarrow>
     step rt replicas s (s\<lparr>sy_primary := en, sy_up := True\<rparr>)"
| replica_crash: "i < replicas \<Longrightarrow> step rt replicas s (set_replica i (sy_replica s i) Down s)"
| replica_start: "\<lbrakk>i < replicas; sy_pc s i = Down; \<forall>e. embedder = Inr (Some e) \<longrightarrow> embedder_wf e;
     start_engine rt st embedder (con_durable (en_store (sy_replica s i))) faults = (Inr en, db)\<rbrakk> \<Longrightarrow>
     step rt replicas s (set_replica i (snd (engine_mark_recovering detail en)) (Verifying (en_generation en)) s)"
| compare: "\<lbrakk>i < replicas; sy_pc s i = Verifying here; sy_up s\<rbrakk> \<Longrightarrow>
     step rt replicas s (set_replica i (sy_replica s i) (Compared here (en_generation (sy_primary s))) s)"
| unverified: "\<lbrakk>i < replicas; sy_pc s i = Verifying here\<rbrakk> \<Longrightarrow>
     step rt replicas s (set_replica i (snd (engine_mark_recovering detail (sy_replica s i))) Serving s)"
| in_sync: "\<lbrakk>i < replicas; sy_pc s i = Compared here remote; here = remote\<rbrakk> \<Longrightarrow>
     step rt replicas s (set_replica i (snd (engine_mark_ready (sy_replica s i))) Serving s)"
| ahead: "\<lbrakk>i < replicas; sy_pc s i = Compared here remote; remote < here\<rbrakk> \<Longrightarrow>
     step rt replicas s (set_replica i (snd (engine_mark_out_of_sync detail (sy_replica s i))) Serving s)"
| behind: "\<lbrakk>i < replicas; sy_pc s i = Compared here remote; here < remote\<rbrakk> \<Longrightarrow>
     step rt replicas s (set_replica i (snd (engine_mark_recovering detail (sy_replica s i))) (Pulling True) s)"
| resync: "\<lbrakk>i < replicas; sy_pc s i = Serving\<rbrakk> \<Longrightarrow>
     step rt replicas s (set_replica i (snd (engine_mark_recovering detail (sy_replica s i))) (Pulling False) s)"
| pull: "\<lbrakk>i < replicas; sy_pc s i = Pulling starting; sy_up s; engine_export_snapshot (sy_primary s) = Inr (docs, g)\<rbrakk> \<Longrightarrow>
     step rt replicas s (set_replica i (sy_replica s i) (Pulled starting docs g) s)"
| pull_failed: "\<lbrakk>i < replicas; sy_pc s i = Pulling starting\<rbrakk> \<Longrightarrow> step rt replicas s (set_replica i (sy_replica s i) (Failing starting) s)"
| install: "\<lbrakk>i < replicas; sy_pc s i = Pulled starting docs g; engine_resynchronize rt docs g (sy_replica s i) = (r, en)\<rbrakk> \<Longrightarrow>
     step rt replicas s (set_replica i en (case r of Inr _ \<Rightarrow> Serving | Inl _ \<Rightarrow> Failing starting) s)"
| out_of_sync: "\<lbrakk>i < replicas; sy_pc s i = Failing starting\<rbrakk> \<Longrightarrow>
     step rt replicas s (set_replica i (snd (engine_mark_out_of_sync detail (sy_replica s i))) Serving s)"

inductive reachable :: "'f::linorder runtime \<Rightarrow> nat \<Rightarrow> 'f system \<Rightarrow> 'f system \<Rightarrow> bool" for rt :: "'f runtime" and replicas :: nat and s0 :: "'f system" where
  start: "reachable rt replicas s0 s0"
| more: "reachable rt replicas s0 s \<Longrightarrow> step rt replicas s s' \<Longrightarrow> reachable rt replicas s0 s'"

text \<open>A new shard: no process is running and no database has ever been written.\<close>

definition initial :: "'f runtime \<Rightarrow> nat \<Rightarrow> 'f system \<Rightarrow> bool" where
  "initial rt replicas s \<longleftrightarrow> \<not> sy_up s \<and> sy_writer s = None \<and> sy_sent s = {} \<and> sy_answers s = {} \<and> sy_acked s = {}
     \<and> sy_log s = []
     \<and> (\<forall>en \<in> insert (sy_primary s) (sy_replica s ` {..<replicas}).
          engine_inv rt en \<and> content en = (Map.empty, 0) \<and> en_state en = STARTING \<and> en_generation en = 0)
     \<and> (\<forall>i < replicas. sy_pc s i = Down)"

section \<open>What the operations do to the durable content\<close>

lemma derived_store [simp]:
  "en_store (snd (apply_derived rt doc tokens v en)) = en_store en"
  "en_store (snd (remove_derived d en)) = en_store en"
  "en_store (snd (degrade_on_failure re m en)) = en_store (snd (m en))"
  by (auto simp: apply_derived_def remove_derived_def degrade_on_failure_def sbind_def st_defs on_index_def on_vectors_def
      split: prod.splits sum.splits option.splits if_splits)

definition durable_effect :: "mutation \<Rightarrow> int \<Rightarrow> 'f engine \<Rightarrow> 'f engine \<Rightarrow> bool" where
  "durable_effect m g en en' \<longleftrightarrow> content en' = content en \<or>
     en_state en = READY \<and> g = en_generation en + 1 \<and> content en' = (mutation_effect m (engine_corpus en), g)"

lemma sbind_store:
  assumes "en_store (snd (m en)) = con" "\<And>a en'. en_store en' = con \<Longrightarrow> en_store (snd (f a en')) = con"
  shows "en_store (snd (sbind m f en)) = con"
  using assms by (auto simp: sbind_def split: prod.splits sum.splits)

lemma sbind_run: "m s = (Inr a, s') \<Longrightarrow> sbind m f s = f a s'"
  by (simp add: sbind_def)

text \<open>What the four mutations share: one durable write, and then only derived state changes.\<close>

lemma write_then_derive:
  assumes "m en = sbind (on_store w) f en" "\<And>a en' con. en_store en' = con \<Longrightarrow> en_store (snd (f a en')) = con"
    and "en_state en = READY" "g = en_generation en + 1"
    and "\<exists>con. (\<exists>a. on_store w en = (Inr a, en\<lparr>en_store := con\<rparr>)) \<and> store_content con = (mutation_effect mu (engine_corpus en), g)
      \<or> (\<exists>e. on_store w en = (Inl e, en\<lparr>en_store := con\<rparr>)) \<and> store_content con = content en"
  shows "durable_effect mu g en (snd (m en))"
  using assms(1,3-5) assms(2) [OF refl] by (auto simp: durable_effect_def sbind_def)

lemma put_cases':
  assumes "store_ok ud (en_store en)" "valid_id ud (document_id doc)"
  shows "\<exists>con. (\<exists>a. on_store (store_put doc g) en = (Inr a, en\<lparr>en_store := con\<rparr>)) \<and> store_content con = (mutation_effect (Put_mutation doc) (engine_corpus en), g)
      \<or> (\<exists>e. on_store (store_put doc g) en = (Inl e, en\<lparr>en_store := con\<rparr>)) \<and> store_content con = content en"
  using on_store_put_cases [OF assms, of g] by auto

lemma delete_cases':
  assumes "store_ok ud (en_store en)"
  shows "\<exists>con. (\<exists>a. on_store (store_delete d g) en = (Inr a, en\<lparr>en_store := con\<rparr>)) \<and> store_content con = (mutation_effect (Delete_mutation d) (engine_corpus en), g)
      \<or> (\<exists>e. on_store (store_delete d g) en = (Inl e, en\<lparr>en_store := con\<rparr>)) \<and> store_content con = content en"
  using on_store_delete_cases [OF assms, of d g] by auto

lemma durable_refl [simp]: "durable_effect m g en en"
  by (simp add: durable_effect_def)

lemma index_document_content:
  assumes "store_ok (rt_unicode rt) (en_store en)" "valid_id (rt_unicode rt) (document_id doc)"
  shows "durable_effect (Put_mutation doc) (en_generation en + 1) en (snd (engine_index_document rt doc en))"
proof (cases "embed_document (en_embedder en) (doc_text doc)")
  case (Inr v)
  show ?thesis
  proof (cases "en_state en = READY")
    case True
    show ?thesis
      by (rule write_then_derive [OF _ _ True refl put_cases' [OF assms]])
        (simp add: engine_index_document_def require_operational_def sbind_run st_defs Inr True Let_def,
         auto intro!: sbind_store simp: st_defs)
  qed (simp add: engine_index_document_def sbind_def Inr require_operational_def)
qed (simp add: engine_index_document_def sbind_def)

lemma delete_document_content:
  assumes "store_ok ud (en_store en)"
  shows "durable_effect (Delete_mutation d) (en_generation en + 1) en (snd (engine_delete_document d en))"
proof (cases "en_state en = READY \<and> dhas (en_documents en) d")
  case True
  show ?thesis
    by (rule write_then_derive [OF _ _ conjunct1 [OF True] refl delete_cases' [OF assms]])
      (use True in \<open>simp add: engine_delete_document_def require_operational_def sbind_run st_defs\<close>, auto intro!: sbind_store simp: st_defs)
qed (auto simp: engine_delete_document_def sbind_def require_operational_def)

lemma classify_content: "en_store (snd (classify_generation g en)) = en_store en"
  "fst (classify_generation g en) = Inr APPLIED \<Longrightarrow> g = en_generation en + 1 \<and> en_state en = READY \<and> classify_generation g en = (Inr APPLIED, en)"
  by (auto simp: classify_generation_def require_operational_def sbind_def st_defs split: if_splits)

lemma replicated_put_content:
  assumes "store_ok (rt_unicode rt) (en_store en)" "valid_id (rt_unicode rt) (document_id doc)"
  shows "durable_effect (Put_mutation doc) g en (snd (engine_apply_replicated_put rt doc g en))"
proof (cases "fst (classify_generation g en) = Inr APPLIED")
  case True
  note c = classify_content(2) [OF True]
  show ?thesis
  proof (cases "embed_document (en_embedder en) (doc_text doc)")
    case (Inr v)
    show ?thesis
      by (rule write_then_derive [OF _ _ _ _ put_cases' [OF assms]])
        (use c Inr in \<open>simp_all add: engine_apply_replicated_put_def sbind_run Let_def\<close>, auto intro!: sbind_store simp: st_defs)
  next
    case (Inl e)
    then have "engine_apply_replicated_put rt doc g en = (Inl e, en)" using conjunct2 [OF conjunct2 [OF c]] by (simp add: engine_apply_replicated_put_def sbind_def)
    then show ?thesis by simp
  qed
next
  case False
  then show ?thesis using classify_content(1) [of g en]
    by (cases "classify_generation g en"; cases "fst (classify_generation g en)")
      (auto simp: engine_apply_replicated_put_def sbind_def st_defs durable_effect_def)
qed

lemma replicated_delete_content:
  assumes "store_ok ud (en_store en)"
  shows "durable_effect (Delete_mutation d) g en (snd (engine_apply_replicated_delete d g en))"
proof (cases "fst (classify_generation g en) = Inr APPLIED")
  case True
  note c = classify_content(2) [OF True]
  show ?thesis
    by (rule write_then_derive [OF _ _ _ _ delete_cases' [OF assms]])
      (use c in \<open>simp_all add: engine_apply_replicated_delete_def sbind_run\<close>, auto intro!: sbind_store simp: st_defs)
next
  case False
  then show ?thesis using classify_content(1) [of g en]
    by (cases "classify_generation g en"; cases "fst (classify_generation g en)")
      (auto simp: engine_apply_replicated_delete_def sbind_def st_defs durable_effect_def)
qed

section \<open>Facts about steps\<close>

text \<open>A write of the primary: it has no durable effect, or its effect at the next generation; and it returns only
  in the second case.\<close>

lemma primary_apply_facts:
  assumes "engine_inv rt en" "mutation_ok (rt_unicode rt) m" "primary_apply rt m en = (r, en')"
  shows "engine_inv rt en'" "durable_effect m (en_generation en + 1) en en'"
    "r = Inr u \<Longrightarrow> en_state en = READY \<and> en_generation en' = en_generation en + 1
       \<and> content en' = (mutation_effect m (engine_corpus en), en_generation en + 1)"
proof -
  note ok = engine_invD(1) [OF assms(1)]
  have all: "engine_inv rt en' \<and> durable_effect m (en_generation en + 1) en en'
    \<and> mutation_outcome (engine_corpus en) (en_generation en) (mutation_effect m (engine_corpus en)) (en_generation en + 1) (en_state en)
        (engine_corpus en') (en_generation en') (en_state en') r"
  proof (cases m)
    case (Put_mutation doc)
    with assms(2) have v: "valid_id (rt_unicode rt) (document_id doc)" by simp
    obtain r0 where e: "engine_index_document rt doc en = (r0, en')" and r: "r = (case r0 of Inl e \<Rightarrow> Inl e | Inr _ \<Rightarrow> Inr ())"
      using assms(3) Put_mutation by (auto simp: sbind_def slift_def split: prod.splits sum.splits)
    show ?thesis using index_document_cases [OF assms(1) v] index_document_content [OF ok v] Put_mutation r e
      by (cases r0) (auto simp: mutation_outcome_def)
  next
    case (Delete_mutation d)
    then show ?thesis using delete_document_cases [OF assms(1), of d] delete_document_content [OF ok, of d] assms(3) by auto
  qed
  then show "engine_inv rt en'" "durable_effect m (en_generation en + 1) en en'" by simp_all
  have "engine_consistent rt en'" if "en_state en' = READY" using all that engine_invD(3) by blast
  then show "r = Inr u \<Longrightarrow> en_state en = READY \<and> en_generation en' = en_generation en + 1
       \<and> content en' = (mutation_effect m (engine_corpus en), en_generation en + 1)"
    using all by (auto simp: mutation_outcome_def engine_consistent_def engine_corpus_def prod_eq_iff)
qed

text \<open>A replicated mutation: the same, and an answer of success means the copy is durably past it.\<close>

lemma replica_apply_facts:
  assumes "engine_inv rt en" "mutation_ok (rt_unicode rt) m" "replica_apply rt m g en = (r, en')" "en_generation en \<le> snd (content en)"
  shows "engine_inv rt en'" "durable_effect m g en en'" "en_generation en' \<le> snd (content en')"
    "r \<in> {Inr APPLIED, Inr DUPLICATE} \<Longrightarrow> g \<le> snd (content en')"
    "en_state en \<noteq> READY \<Longrightarrow> en_state en' \<noteq> READY"
proof -
  note ok = engine_invD(1) [OF assms(1)]
  have all: "engine_inv rt en' \<and> durable_effect m g en en'
    \<and> replicated_outcome (engine_corpus en) (en_generation en) (mutation_effect m (engine_corpus en)) g (en_state en)
        (engine_corpus en') (en_generation en') (en_state en') r"
  proof (cases m)
    case (Put_mutation doc)
    with assms(2) have v: "valid_id (rt_unicode rt) (document_id doc)" by simp
    show ?thesis using apply_replicated_put_cases [OF assms(1) v, of g] replicated_put_content [OF ok v, of g] Put_mutation assms(3) by auto
  next
    case (Delete_mutation d)
    then show ?thesis using apply_replicated_delete_cases [OF assms(1), of d g] replicated_delete_content [OF ok, of d g] assms(3) by auto
  qed
  then show inv: "engine_inv rt en'" and eff: "durable_effect m g en en'" by simp_all
  have gen: "en_generation en' = snd (content en')" if "en_state en' = READY"
    using engine_invD(3) [OF inv that] by (simp add: engine_consistent_def)
  have out: "replicated_outcome (engine_corpus en) (en_generation en) (mutation_effect m (engine_corpus en)) g (en_state en)
        (engine_corpus en') (en_generation en') (en_state en') r" using all by simp
  have mono: "snd (content en) \<le> snd (content en')"
    using eff engine_invD(3) [OF assms(1)] by (auto simp: durable_effect_def engine_consistent_def)
  show "en_generation en' \<le> snd (content en')"
    using out assms(4) mono gen by (auto simp: replicated_outcome_def split: sum.splits replication_outcome.splits)
  then show "r \<in> {Inr APPLIED, Inr DUPLICATE} \<Longrightarrow> g \<le> snd (content en')"
    using out gen by (auto simp: replicated_outcome_def)
  show "en_state en \<noteq> READY \<Longrightarrow> en_state en' \<noteq> READY"
    using out by (auto simp: replicated_outcome_def split: sum.splits replication_outcome.splits)
qed

section \<open>The invariant\<close>

text \<open>The corpus after the mutations of a log, a copy that has applied a prefix of the log, and a mutation that the
  log has at a generation.\<close>

definition replay :: "mutation list \<Rightarrow> pystr \<rightharpoonup> pystr" where
  "replay ms = foldl (\<lambda>C m. mutation_effect m C) Map.empty ms"

definition at_log :: "mutation list \<Rightarrow> (pystr \<rightharpoonup> pystr) \<times> int \<Rightarrow> bool" where
  "at_log ms c \<longleftrightarrow> 0 \<le> snd c \<and> snd c \<le> int (length ms) \<and> fst c = replay (take (nat (snd c)) ms)"

definition logged :: "mutation list \<Rightarrow> mutation \<Rightarrow> int \<Rightarrow> bool" where
  "logged ms m g \<longleftrightarrow> 1 \<le> g \<and> g \<le> int (length ms) \<and> ms ! nat (g - 1) = m"

lemma at_log_append [intro]: "at_log ms c \<Longrightarrow> at_log (ms @ xs) c"
  by (auto simp: at_log_def nat_le_iff)

lemma logged_append [intro]: "logged ms m g \<Longrightarrow> logged (ms @ xs) m g"
  by (auto simp: logged_def nth_append)

lemma at_log_step:
  assumes "at_log ms (C, g - 1)" "logged ms m g"
  shows "at_log ms (mutation_effect m C, g)"
proof -
  have g: "0 \<le> g - 1" "nat (g - 1) < length ms" "nat g = Suc (nat (g - 1))" using assms(2) by (auto simp: logged_def)
  then have "take (nat g) ms = take (nat (g - 1)) ms @ [m]"
    using assms(2) by (simp add: take_Suc_conv_app_nth logged_def)
  then show ?thesis using assms by (simp add: at_log_def logged_def replay_def)
qed

fun pc_ok :: "'f runtime \<Rightarrow> mutation list \<Rightarrow> 'f engine \<Rightarrow> replica_pc \<Rightarrow> bool" where
  "pc_ok rt ms en (Verifying here) = engine_consistent rt en"
| "pc_ok rt ms en (Compared here remote) = engine_consistent rt en"
| "pc_ok rt ms en (Pulling starting) = (en_state en \<noteq> READY)"
| "pc_ok rt ms en (Pulled starting docs g) =
     (en_state en \<noteq> READY \<and> snd (content en) \<le> g \<and> at_log ms (docs_corpus docs, g)
      \<and> list_all (\<lambda>doc. valid_id (rt_unicode rt) (document_id doc)) docs)"
| "pc_ok rt ms en _ = True"

definition copy_ok :: "'f runtime \<Rightarrow> mutation list \<Rightarrow> int set \<Rightarrow> 'f engine \<Rightarrow> replica_pc \<Rightarrow> bool" where
  "copy_ok rt ms ak en pc \<longleftrightarrow> engine_inv rt en \<and> at_log ms (content en) \<and> en_generation en \<le> snd (content en)
     \<and> (\<forall>a\<in>ak. a \<le> snd (content en)) \<and> pc_ok rt ms en pc"

definition system_inv :: "'f runtime \<Rightarrow> nat \<Rightarrow> 'f system \<Rightarrow> bool" where
  "system_inv rt n s \<longleftrightarrow> engine_inv rt (sy_primary s) \<and> content (sy_primary s) = (replay (sy_log s), int (length (sy_log s)))
     \<and> (\<forall>i<n. copy_ok rt (sy_log s) (sy_acked s) (sy_replica s i) (sy_pc s i))
     \<and> (\<forall>(i, m, g) \<in> sy_sent s. i < n \<and> mutation_ok (rt_unicode rt) m \<and> logged (sy_log s) m g)
     \<and> (\<forall>(i, g) \<in> sy_answers s. i < n \<and> g \<le> snd (content (sy_replica s i)))
     \<and> (\<forall>a \<in> sy_acked s. a \<le> int (length (sy_log s)))
     \<and> (\<forall>m g k. sy_writer s = Some (m, g, k) \<longrightarrow> mutation_ok (rt_unicode rt) m \<and> logged (sy_log s) m g \<and> k \<le> n
          \<and> (\<forall>i<k. g \<le> snd (content (sy_replica s i))))"

lemma copy_ok_append: "copy_ok rt ms ak en pc \<Longrightarrow> copy_ok rt (ms @ xs) ak en pc"
  by (cases pc) (auto simp: copy_ok_def)

lemma copy_ok_mark:
  assumes "copy_ok rt ms ak en pc" "st \<noteq> READY" "pc' \<in> {Serving, Pulling starting}"
  shows "copy_ok rt ms ak (en\<lparr>en_state := st, en_detail := detail\<rparr>) pc'"
  using assms by (auto simp: copy_ok_def engine_inv_def)

text \<open>A replica may move on to any state that is as good, as long as its durable generation does not go back.\<close>

lemma set_replica_inv:
  assumes "system_inv rt n s" "i < n" "copy_ok rt (sy_log s) (sy_acked s) en pc" "snd (content (sy_replica s i)) \<le> snd (content en)"
  shows "system_inv rt n (set_replica i en pc s)"
proof -
  have "g \<le> snd (content (((sy_replica s)(i := en)) j))" if "g \<le> snd (content (sy_replica s j))" for g j
    using that assms(4) by auto
  then show ?thesis using assms(1-3) unfolding system_inv_def set_replica_def by simp fast
qed

lemma system_copy: "system_inv rt n s \<Longrightarrow> i < n \<Longrightarrow> copy_ok rt (sy_log s) (sy_acked s) (sy_replica s i) (sy_pc s i)"
  by (simp add: system_inv_def)

lemma mark_eqs:
  "snd (engine_mark_recovering detail en) = en\<lparr>en_state := RECOVERING, en_detail := detail\<rparr>"
  "snd (engine_mark_out_of_sync detail en) = en\<lparr>en_state := OUT_OF_SYNC, en_detail := detail\<rparr>"
  "snd (engine_mark_ready en) = en\<lparr>en_state := READY, en_detail := ustr ''ready''\<rparr>"
  by (simp_all add: engine_mark_recovering_def engine_mark_out_of_sync_def engine_mark_ready_def set_state_def st_defs)

lemma marked_inv:
  assumes "system_inv rt n s" "i < n" "pc \<in> {Serving, Pulling starting}"
  shows "system_inv rt n (set_replica i (snd (engine_mark_recovering detail (sy_replica s i))) pc s)"
    "system_inv rt n (set_replica i (snd (engine_mark_out_of_sync detail (sy_replica s i))) pc s)"
  using copy_ok_mark [OF system_copy [OF assms(1,2)] _ assms(3)] by (auto intro!: set_replica_inv [OF assms(1,2)] simp: mark_eqs)

lemma consistent_mark: "engine_consistent rt (en\<lparr>en_state := st, en_detail := detail\<rparr>) = engine_consistent rt en"
  by (simp add: engine_consistent_def derived_repr_def engine_corpus_def)

text \<open>The steps that need an argument of their own.\<close>

lemma commit_inv:
  assumes "system_inv rt n s" "sy_writer s = None" "mutation_ok (rt_unicode rt) m" "primary_apply rt m (sy_primary s) = (r, en)"
  shows "system_inv rt n (s\<lparr>sy_primary := en, sy_log := (if content en = content (sy_primary s) then sy_log s else sy_log s @ [m]),
    sy_writer := (case r of Inr _ \<Rightarrow> Some (m, en_generation en, 0) | Inl _ \<Rightarrow> None)\<rparr>)"
proof -
  let ?p = "sy_primary s" and ?ms = "sy_log s"
  have inv: "engine_inv rt ?p" and c: "content ?p = (replay ?ms, int (length ?ms))" using assms(1) by (simp_all add: system_inv_def)
  note f = primary_apply_facts [OF inv assms(3,4)]
  have g: "en_generation ?p = int (length ?ms)" if "en_state ?p = READY"
    using engine_invD(3) [OF inv that] c by (simp add: engine_consistent_def)
  have corp: "engine_corpus ?p = replay ?ms" using c by (simp add: engine_corpus_def)
  have full: "content en = (replay (?ms @ [m]), int (length ?ms) + 1) \<and> en_generation en = int (length ?ms) + 1" if "r = Inr u" for u
    using f(3) [OF that] g corp by (simp add: replay_def)
  consider (same) "content en = content ?p" "\<And>u. r \<noteq> Inr u"
    | (new) "content en = (replay (?ms @ [m]), int (length ?ms) + 1)" "content en \<noteq> content ?p"
  proof (cases "content en = content ?p")
    case True
    then show ?thesis using that(1) full c by fastforce
  next
    case False
    then show ?thesis using that(2) f(2) g corp by (simp add: durable_effect_def replay_def)
  qed
  then show ?thesis
  proof cases
    case same
    then show ?thesis using assms(1) f(1) by (cases r) (simp_all add: system_inv_def)
  next
    case new
    have lg: "logged (?ms @ [m]) m (int (length ?ms) + 1)" by (simp add: logged_def)
    have "\<forall>i<n. copy_ok rt (?ms @ [m]) (sy_acked s) (sy_replica s i) (sy_pc s i)"
      by (intro allI impI copy_ok_append system_copy [OF assms(1)])
    moreover have "\<forall>(i, m', g) \<in> sy_sent s. i < n \<and> mutation_ok (rt_unicode rt) m' \<and> logged (?ms @ [m]) m' g"
      using assms(1) by (auto simp: system_inv_def)
    ultimately show ?thesis using new f(1) lg assms full by (cases r) (auto simp: system_inv_def)
  qed
qed

lemma deliver_inv:
  assumes "system_inv rt n s" "(i, m, g) \<in> sy_sent s" "accepts_requests (sy_pc s i)" "replica_apply rt m g (sy_replica s i) = (r, en)"
  shows "system_inv rt n ((set_replica i en (sy_pc s i) s)
    \<lparr>sy_answers := if r \<in> {Inr APPLIED, Inr DUPLICATE} then insert (i, g) (sy_answers s) else sy_answers s\<rparr>)"
proof -
  let ?en = "sy_replica s i" and ?ms = "sy_log s"
  have i: "i < n" and m: "mutation_ok (rt_unicode rt) m" and lg: "logged ?ms m g" using assms(1,2) by (auto simp: system_inv_def)
  note co = system_copy [OF assms(1) i, unfolded copy_ok_def]
  have inv: "engine_inv rt ?en" and at: "at_log ?ms (content ?en)" and gen: "en_generation ?en \<le> snd (content ?en)" using co by simp_all
  note f = replica_apply_facts [OF inv m assms(4) gen]
  have ready: "en_generation ?en = snd (content ?en)" "engine_corpus ?en = fst (content ?en)" if "en_state ?en = READY"
    using engine_invD(3) [OF inv that] by (simp_all add: engine_consistent_def engine_corpus_def)
  have at': "at_log ?ms (content en)" and mono: "snd (content ?en) \<le> snd (content en)"
    using f(2) at at_log_step [OF _ lg, of "fst (content ?en)"] ready by (auto simp: durable_effect_def)
  have pc: "pc_ok rt ?ms en (sy_pc s i)"
    using co assms(3) f(2,5) by (cases "sy_pc s i") (auto simp: durable_effect_def)
  have ok: "copy_ok rt ?ms (sy_acked s) en (sy_pc s i)"
    unfolding copy_ok_def using f(1,3) at' mono pc co by force
  from set_replica_inv [OF assms(1) i ok mono] show ?thesis
    using f(4) i by (auto simp: system_inv_def set_replica_def)
qed

lemma install_inv:
  assumes "system_inv rt n s" "i < n" "sy_pc s i = Pulled starting docs g" "engine_resynchronize rt docs g (sy_replica s i) = (r, en)"
  shows "system_inv rt n (set_replica i en (case r of Inr _ \<Rightarrow> Serving | Inl _ \<Rightarrow> Failing starting) s)"
proof -
  let ?en = "sy_replica s i"
  note co = system_copy [OF assms(1,2), unfolded copy_ok_def assms(3), simplified]
  from resynchronize_cases [of rt ?en docs g] co assms(4) have
    r: "engine_inv rt en" "case r of Inr _ \<Rightarrow> en_state en = READY \<and> engine_corpus en = docs_corpus docs \<and> en_generation en = g
       | Inl _ \<Rightarrow> en_state en = RECOVERING \<and> en_generation en = en_generation ?en \<and> content en \<in> {content ?en, (docs_corpus docs, g)}"
    by auto
  have "engine_consistent rt en" if "en_state en = READY" using engine_invD(3) [OF r(1) that] .
  then consider (old) "content en = content ?en" "en_generation en = en_generation ?en"
    | (new) "content en = (docs_corpus docs, g)" "en_generation en \<le> g"
    using r(2) co by (cases r) (auto simp: engine_consistent_def engine_corpus_def prod_eq_iff)
  then show ?thesis
  proof cases
    case old
    then show ?thesis using co r(1) by (intro set_replica_inv [OF assms(1,2)]; cases r) (simp_all add: copy_ok_def)
  next
    case new
    then show ?thesis using co r(1) by (intro set_replica_inv [OF assms(1,2)]; cases r) (force simp: copy_ok_def)+
  qed
qed

lemma start_facts:
  assumes "engine_inv rt en0" "\<forall>e. embedder = Inr (Some e) \<longrightarrow> embedder_wf e"
    "start_engine rt st embedder (con_durable (en_store en0)) faults = (Inr en, db)"
  shows "engine_inv rt en" "content en = content en0" "engine_consistent rt en" "en_generation en = snd (content en)"
proof -
  note ok = store_disk [OF engine_invD(1) [OF assms(1)]]
  from start_engine_cases [OF ok(1), of embedder st faults] assms(2) obtain r db1 where
    r: "start_engine rt st embedder (con_durable (en_store en0)) faults = (r, db1)" "disk_content db1 = content en0"
      "\<forall>en. r = Inr en \<longrightarrow> engine_inv rt en \<and> en_state en = READY \<and> con_durable (en_store en) = db1 \<and> embedder = Inr (en_embedder en)"
    unfolding ok(2) by blast
  then have s: "engine_inv rt en" "en_state en = READY" "con_durable (en_store en) = db" "disk_content db = content en0"
    using assms(3) by auto
  show "engine_inv rt en" "content en = content en0" using s store_disk(2) [OF engine_invD(1) [OF s(1)]] by simp_all
  show "engine_consistent rt en" using engine_invD(3) [OF s(1,2)] .
  then show "en_generation en = snd (content en)" by (simp add: engine_consistent_def)
qed

lemma step_inv:
  assumes "step rt n s s'" "system_inv rt n s"
  shows "system_inv rt n s'"
  using assms
proof (induction rule: step.induct)
  case (commit s m r en)
  then show ?case by (intro commit_inv)
next
  case (deliver i m g s r en)
  then show ?case by (intro deliver_inv)
next
  case (answered s m g i)
  then show ?case by (fastforce simp: system_inv_def less_Suc_eq)
next
  case (acknowledge s m g)
  then show ?case by (fastforce simp: system_inv_def copy_ok_def logged_def)
next
  case (primary_start s embedder st faults en db)
  then show ?case using start_facts [of rt "sy_primary s"] by (simp add: system_inv_def)
next
  case (replica_start i s embedder st faults en db detail)
  note f = start_facts [OF conjunct1 [OF system_copy [OF replica_start(5,1), unfolded copy_ok_def]] replica_start(3,4)]
  show ?case using f system_copy [OF replica_start(5,1)] replica_start
    by (intro set_replica_inv) (auto simp: copy_ok_def mark_eqs consistent_mark engine_inv_def)
next
  case (compare i s here)
  then show ?case using system_copy [of rt n s i] by (intro set_replica_inv) (auto simp: copy_ok_def)
next
  case (in_sync i s here remote)
  then show ?case using system_copy [of rt n s i]
    by (intro set_replica_inv) (auto simp: copy_ok_def mark_eqs consistent_mark engine_inv_def)
next
  case (pull i s starting docs g)
  then have inv: "engine_inv rt (sy_primary s)" and c: "content (sy_primary s) = (replay (sy_log s), int (length (sy_log s)))"
    by (simp_all add: system_inv_def)
  note e = export_facts [OF inv pull(4)]
  have "docs_corpus docs = replay (sy_log s)" "g = int (length (sy_log s))"
    using e(2,5) engine_invD(3) [OF inv e(1)] c by (simp_all add: engine_corpus_def engine_consistent_def)
  then show ?case using pull e(4) system_copy [of rt n s i]
    by (intro set_replica_inv) (auto simp: copy_ok_def at_log_def)
next
  case (install i s starting docs g r en)
  then show ?case by (intro install_inv)
next
  case (send s m g i)
  then show ?case by (auto simp: system_inv_def)
next
  case (give_up s w)
  then show ?case by (simp add: system_inv_def)
next
  case (primary_crash s)
  then show ?case by (simp add: system_inv_def)
next
  case (replica_crash i s)
  then show ?case using system_copy [of rt n s i] by (intro set_replica_inv) (auto simp: copy_ok_def)
next
  case (pull_failed i s starting)
  then show ?case using system_copy [of rt n s i] by (intro set_replica_inv) (auto simp: copy_ok_def)
qed (auto intro: marked_inv)

lemma initial_inv: "initial rt n s \<Longrightarrow> system_inv rt n s"
  by (auto simp: initial_def system_inv_def copy_ok_def at_log_def replay_def)

lemma reachable_inv: "reachable rt n s0 s \<Longrightarrow> initial rt n s0 \<Longrightarrow> system_inv rt n s"
  by (induction rule: reachable.induct) (auto intro: initial_inv step_inv)

section \<open>A run with an acknowledged write\<close>

definition new_shard :: "real system" where
  "new_shard = \<lparr>sy_primary = blank_engine [], sy_up = False, sy_writer = None, sy_replica = (\<lambda>_. blank_engine []), sy_pc = (\<lambda>_. Down),
     sy_sent = {}, sy_answers = {}, sy_log = [], sy_acked = {}\<rparr>"

lemma new_shard_initial: "initial real_runtime 1 new_shard"
  by (simp add: initial_def new_shard_def blank_engine_facts fresh_store_def store_content_def)

lemma fresh_open: "store_open False (con_durable (fresh_store [])) [] = (Inr (fresh_store []), con_durable (fresh_store []))"
  by code_simp

lemma start_ready: "start_engine real_runtime default_settings (Inr None) (con_durable (en_store (blank_engine []))) []
    = (Inr ready_engine, con_durable (en_store ready_engine))"
proof -
  from initialize_cases [OF blank_engine_facts(2), of "[]"] obtain r where "engine_initialize real_runtime (blank_engine []) = (r, ready_engine)"
      "case r of Inr _ \<Rightarrow> True | Inl _ \<Rightarrow> en_state ready_engine = en_state (blank_engine [])"
    by (fastforce simp: ready_engine_def split: sum.splits)
  then have "\<exists>report. engine_initialize real_runtime (blank_engine []) = (Inr report, ready_engine)"
    by (cases r) (simp_all add: ready_engine_facts blank_engine_facts)
  moreover have "se_storage_path default_settings \<noteq> ustr '':memory:''" by code_simp
  ultimately show ?thesis
    using blank_engine_facts(1) [of "[]"] by (auto simp: start_engine_def blank_engine_facts(3) fresh_open)
qed

lemma acknowledging_run:
  "\<exists>s. reachable real_runtime 1 new_shard s \<and> sy_acked s = {1}"
proof -
  let ?doc = "\<lparr>document_id = ustr ''a'', doc_text = ustr ''x''\<rparr>" and ?rt = real_runtime
  let ?m = "Put_mutation ?doc"
  let ?R = "\<lambda>s. reachable ?rt 1 new_shard s"
  let ?en = "snd (engine_mark_recovering [] ready_engine)" and ?re = "snd (engine_mark_ready (snd (engine_mark_recovering [] ready_engine)))"
  have none: "case en_embedder ready_engine of None \<Rightarrow> True | Some e \<Rightarrow> embedder_works (rt_numpy ?rt) e"
    by (simp add: ready_engine_facts)
  from index_document_cases [OF ready_engine_facts(1), of ?doc] index_document_works(1) [OF ready_engine_facts(1-3) none, of ?doc] valid_a
  obtain en1 where 1: "primary_apply ?rt ?m ready_engine = (Inr (), en1)" "en_generation en1 = 1"
    by (auto simp: mutation_outcome_def ready_engine_facts ready_engine_generation sbind_def slift_def real_runtime_def)
  have ok: "mutation_ok (rt_unicode ?rt) ?m" using valid_a by (simp add: real_runtime_def)
  have re: "engine_inv ?rt ?re" "en_state ?re = READY" "calm (en_store ?re)" "en_embedder ?re = None" "en_generation ?re = 0"
    using ready_engine_facts ready_engine_generation by (auto simp: mark_eqs engine_inv_def consistent_mark)
  from apply_put_works [OF re(1-3), of ?doc] re(4,5) obtain en2 where 2: "replica_apply ?rt ?m 1 ?re = (Inr APPLIED, en2)" by auto
  define s1 where "s1 = new_shard\<lparr>sy_primary := ready_engine, sy_up := True\<rparr>"
  define s2 where "s2 = set_replica 0 ?en (Verifying 0) s1"
  define s3 where "s3 = set_replica 0 ?en (Compared 0 0) s2"
  define s4 where "s4 = set_replica 0 ?re Serving s3"
  define s5 where "s5 = s4\<lparr>sy_primary := en1, sy_log := (if content en1 = content ready_engine then [] else [?m]), sy_writer := Some (?m, 1, 0)\<rparr>"
  define s6 where "s6 = s5\<lparr>sy_sent := {(0, ?m, 1)}\<rparr>"
  define s7 where "s7 = (set_replica 0 en2 Serving s6)\<lparr>sy_answers := {(0, 1)}\<rparr>"
  define s8 where "s8 = s7\<lparr>sy_writer := Some (?m, 1, 1)\<rparr>"
  note defs = s1_def s2_def s3_def s4_def s5_def s6_def s7_def s8_def new_shard_def set_replica_def ready_engine_generation
  have "?R new_shard" by (rule reachable.start)
  moreover have st: "start_engine ?rt default_settings (Inr None) (con_durable (en_store (sy_primary new_shard))) []
      = (Inr ready_engine, con_durable (en_store ready_engine))" using start_ready by (simp add: new_shard_def)
  have "step ?rt 1 new_shard s1" unfolding s1_def by (rule step.primary_start [OF _ _ st]) (simp_all add: new_shard_def)
  ultimately have "?R s1" by (rule reachable.more)
  moreover have st: "start_engine ?rt default_settings (Inr None) (con_durable (en_store (sy_replica s1 0))) []
      = (Inr ready_engine, con_durable (en_store ready_engine))" using start_ready by (simp add: s1_def new_shard_def)
  have "step ?rt 1 s1 s2" using step.replica_start [OF _ _ _ st, of 1 "[]"] by (simp add: defs)
  ultimately have "?R s2" by (rule reachable.more)
  moreover have "step ?rt 1 s2 s3" using step.compare [of 0 1 s2 0 ?rt] by (simp add: defs)
  ultimately have "?R s3" by (rule reachable.more)
  moreover have "step ?rt 1 s3 s4" using step.in_sync [of 0 1 s3 0 0 ?rt] by (simp add: defs)
  ultimately have "?R s4" by (rule reachable.more)
  moreover have "step ?rt 1 s4 s5" 
  proof -
    have "sy_up s4" "sy_writer s4 = None" "primary_apply ?rt ?m (sy_primary s4) = (Inr (), en1)" using 1(1) by (simp_all add: defs)
    from step.commit [OF this(1,2) ok this(3), of 1] show ?thesis using 1(2) by (simp add: defs cong: if_cong)
  qed
  ultimately have "?R s5" by (rule reachable.more)
  moreover have "step ?rt 1 s5 s6" using step.send [of s5 ?m 1 0 1 ?rt] by (simp add: defs)
  ultimately have "?R s6" by (rule reachable.more)
  moreover have "step ?rt 1 s6 s7" using step.deliver [of 0 ?m 1 s6 ?rt "Inr APPLIED" en2 1] 2 by (simp add: defs)
  ultimately have "?R s7" by (rule reachable.more)
  moreover have "step ?rt 1 s7 s8" using step.answered [of s7 ?m 1 0 1 ?rt] by (simp add: defs)
  ultimately have "?R s8" by (rule reachable.more)
  moreover have "step ?rt 1 s8 (s8\<lparr>sy_writer := None, sy_acked := {1}\<rparr>)" using step.acknowledge [of s8 ?m 1 1 ?rt] by (simp add: defs)
  ultimately have "?R (s8\<lparr>sy_writer := None, sy_acked := {1}\<rparr>)" by (rule reachable.more)
  moreover have "sy_acked (s8\<lparr>sy_writer := None, sy_acked := {1}\<rparr>) = {1}" by simp
  ultimately show ?thesis by blast
qed

section \<open>Two repairs at once\<close>

text \<open>The steps allow one repair per replica at a time. \<open>resynchronize\<close> itself does not: it installs any snapshot,
  also one that is older than what the copy holds, and the copy is then \<open>READY\<close> without the writes in between.
  Two overlapping requests to \<open>/internal/replica/resync\<close>, the first of which pulls its snapshot before a write
  and installs it after the second one has finished and the write was acknowledged, do that.\<close>

lemma stale_snapshot_accepted:
  assumes "engine_inv rt en" "list_all (\<lambda>doc. valid_id (rt_unicode rt) (document_id doc)) docs" "distinct (map document_id docs)"
    and "calm (en_store en)" "case en_embedder en of None \<Rightarrow> True | Some e \<Rightarrow> embedder_works (rt_numpy rt) e"
    and "en_state en = READY" "g < en_generation en"
  shows "\<exists>report en'. engine_resynchronize rt docs g en = (Inr report, en') \<and> en_state en' = READY
    \<and> engine_corpus en' = docs_corpus docs \<and> en_generation en' < en_generation en"
  using resynchronize_works [OF assms(1-5), of g] resynchronize_cases [OF assms(1,2), of g] assms(7) by auto

section \<open>Properties\<close>

text \<open>C1. No acknowledged write is lost and no stale copy serves: in every reachable state of a shard, however
  writes, lost or late requests, crashes, restarts and one repair per replica at a time interleave, the
  durable content of every copy is the result of a prefix of the primary's writes that includes every
  acknowledged one, and a \<open>READY\<close> copy serves exactly such a state.\<close>

theorem acknowledged_writes_survive:
  assumes "initial rt n s0" "reachable rt n s0 s"
  shows "content (sy_primary s) = (replay (sy_log s), int (length (sy_log s)))
    \<and> (\<forall>i<n. at_log (sy_log s) (content (sy_replica s i)) \<and> (\<forall>a \<in> sy_acked s. a \<le> snd (content (sy_replica s i))))
    \<and> (\<forall>en \<in> insert (sy_primary s) (sy_replica s ` {..<n}). en_state en = READY \<longrightarrow> engine_consistent rt en
       \<and> (\<exists>k \<le> length (sy_log s). engine_corpus en = replay (take k (sy_log s)) \<and> (\<forall>a \<in> sy_acked s. a \<le> int k)))"
proof -
  note inv = reachable_inv [OF assms(2,1), unfolded system_inv_def]
  have at: "at_log (sy_log s) (content en) \<and> (\<forall>a \<in> sy_acked s. a \<le> snd (content en)) \<and> engine_inv rt en"
    if "en \<in> insert (sy_primary s) (sy_replica s ` {..<n})" for en
    using that inv by (auto simp: copy_ok_def at_log_def)
  have "\<exists>k \<le> length (sy_log s). engine_corpus en = replay (take k (sy_log s)) \<and> (\<forall>a \<in> sy_acked s. a \<le> int k)"
    if "en \<in> insert (sy_primary s) (sy_replica s ` {..<n})" for en
    using at [OF that] by (intro exI [of _ "nat (snd (content en))"]) (auto simp: at_log_def engine_corpus_def)
  moreover have "engine_consistent rt en" if "en \<in> insert (sy_primary s) (sy_replica s ` {..<n})" "en_state en = READY" for en
    using at [OF that(1)] engine_invD(3) that(2) by blast
  ultimately show ?thesis using inv at by simp
qed

theorem acknowledged_writes_survive_witness:
  "\<exists>s. reachable real_runtime 1 new_shard s \<and> 1 \<in> sy_acked s \<and> at_log (sy_log s) (content (sy_replica s 0)) \<and> 1 \<le> snd (content (sy_replica s 0))"
proof -
  from acknowledging_run obtain s where "reachable real_runtime 1 new_shard s" "sy_acked s = {1}" by blast
  with acknowledged_writes_survive [OF new_shard_initial] show ?thesis by (intro exI [of _ s]) auto
qed

end
