(* ===== verification/Synchronization.thy ===== *)
theory Synchronization
  imports Application
begin

text \<open>
  What the replica's synchroniser achieves: it never raises, changes only its own replica, and declares it
  synchronised exactly when it is \<open>READY\<close>, at the primary's generation. Where the primary can be reached and serves
  and the replica's storage and embedder work, a repair succeeds, and so does the check at startup unless the
  replica is ahead of the primary.
\<close>

section \<open>Reading from the primary\<close>

definition next_outcome :: "'f shard_group \<Rightarrow> delivery" where
  "next_outcome gr = (if gr_net gr = [] then Delivered else hd (gr_net gr))"

lemma emap_documents:
  "list_all (\<lambda>doc. valid_id ud (document_id doc)) docs \<Longrightarrow> emap (\<lambda>entry. mk_document ud (document_id entry) (doc_text entry)) docs = Inr docs"
  by (induction docs) auto

lemma link_export_cases:
  assumes "engine_inv rt (no_engine n)"
  shows "\<exists>r. link_export (rt_unicode rt) dl n = (r, n)
    \<and> (case r of Inr (docs, g) \<Rightarrow> engine_export_snapshot (no_engine n) = Inr (docs, g)
       | Inl _ \<Rightarrow> \<not> (dl = Delivered \<and> has_replicator n \<and> en_state (no_engine n) = READY))"
proof (cases "dl = Delivered \<and> has_replicator n \<and> en_state (no_engine n) = READY")
  case True
  then obtain docs g where s: "engine_export_snapshot (no_engine n) = Inr (docs, g)"
    by (simp add: engine_export_snapshot_def require_operational_def)
  note e = emap_documents [OF export_facts(4) [OF assms s]]
  have "link_export (rt_unicode rt) dl n = (Inr (docs, g), n)" using True s e
    by (simp add: link_export_def link_request_def export_documents_def serve_def sbind_def slift_def require_primary_def json_body_def)
  then show ?thesis using s by simp
next
  case False
  have "\<exists>e. link_export (rt_unicode rt) dl n = (Inl e, n)" using False
    by (cases dl; cases "has_replicator n") (auto simp: link_export_def link_request_def export_documents_def serve_def sbind_def slift_def
        require_primary_def json_body_def engine_export_snapshot_def require_operational_def)
  then show ?thesis using False by auto
qed

lemma link_generation_cases:
  "link_generation dl n = (if dl = Delivered then Inr (en_generation (no_engine n)) else Inl (case dl of Timed_out _ \<Rightarrow> ShardTimeoutError | _ \<Rightarrow> ShardUnavailableError), n)"
  by (cases dl) (auto simp: link_generation_def link_request_def internal_node_status_def serve_def sbind_def slift_def json_body_def
      engine_get_status_def Let_def)

section \<open>Outcomes\<close>

text \<open>Only replica \<open>i\<close> changes, and only its engine.\<close>

definition replica_moved :: "nat \<Rightarrow> 'f engine \<Rightarrow> 'f shard_group \<Rightarrow> 'f shard_group \<Rightarrow> bool" where
  "replica_moved i en gr gr' \<longleftrightarrow> gr_primary gr' = gr_primary gr \<and> gr_replicas gr' = (gr_replicas gr)[i := (gr_replicas gr ! i)\<lparr>no_engine := en\<rparr>]"

text \<open>What the synchroniser reports is what the replica is.\<close>

definition sync_result :: "'f runtime \<Rightarrow> nat \<Rightarrow> 'f shard_group \<Rightarrow> sync_outcome res \<times> 'f shard_group \<Rightarrow> bool" where
  "sync_result rt i gr res \<longleftrightarrow> (\<exists>out gr' en. res = (Inr out, gr') \<and> replica_moved i en gr gr' \<and> engine_inv rt en
     \<and> (so_synchronized out \<longleftrightarrow> en_state en = READY)
     \<and> (so_synchronized out \<longrightarrow> en_generation en = en_generation (no_engine (gr_primary gr))))"

text \<open>A shard whose primary serves and whose replica's storage and embedder work, with nothing lost on the way.\<close>

definition repairable :: "'f::linorder runtime \<Rightarrow> nat \<Rightarrow> 'f shard_group \<Rightarrow> bool" where
  "repairable rt i gr \<longleftrightarrow> gr_net gr = [] \<and> has_replicator (gr_primary gr) \<and> en_state (no_engine (gr_primary gr)) = READY
     \<and> calm (en_store (no_engine (gr_replicas gr ! i)))
     \<and> (case en_embedder (no_engine (gr_replicas gr ! i)) of None \<Rightarrow> True | Some e \<Rightarrow> embedder_works (rt_numpy rt) e)"

definition with_engine :: "nat \<Rightarrow> 'f engine \<Rightarrow> 'f shard_group \<Rightarrow> 'f shard_group" where
  "with_engine i en gr = gr\<lparr>gr_replicas := (gr_replicas gr)[i := (gr_replicas gr ! i)\<lparr>no_engine := en\<rparr>]\<rparr>"

definition request_sent :: "'f shard_group \<Rightarrow> 'f shard_group" where
  "request_sent gr = gr\<lparr>gr_net := tl (gr_net gr)\<rparr>"

lemma with_engine_simps [simp]:
  "length (gr_replicas (with_engine i en gr)) = length (gr_replicas gr)" "gr_primary (with_engine i en gr) = gr_primary gr"
  "gr_net (with_engine i en gr) = gr_net gr" "next_outcome (with_engine i en gr) = next_outcome gr"
  "i < length (gr_replicas gr) \<Longrightarrow> no_engine (gr_replicas (with_engine i en gr) ! i) = en"
  "i < length (gr_replicas gr) \<Longrightarrow> with_engine i en' (request_sent (with_engine i en gr)) = request_sent (with_engine i en' gr)"
  "replica_moved i en gr (with_engine i en gr)"
  by (simp_all add: with_engine_def request_sent_def next_outcome_def replica_moved_def)

lemma request_sent_simps [simp]:
  "gr_replicas (request_sent gr) = gr_replicas gr" "gr_primary (request_sent gr) = gr_primary gr" "gr_net (request_sent gr) = tl (gr_net gr)"
  "replica_moved i en gr (request_sent gr') \<longleftrightarrow> replica_moved i en gr gr'"
  by (simp_all add: request_sent_def replica_moved_def)

lemma next_delivery_sent: "next_delivery gr = (Inr (next_outcome gr), request_sent gr)"
  by (simp add: next_delivery_def next_outcome_def request_sent_def)

lemma replica_moved_trans: "replica_moved i en' (request_sent (with_engine i en gr)) gr' \<Longrightarrow> i < length (gr_replicas gr) \<Longrightarrow> replica_moved i en' gr gr'"
  by (simp add: with_engine_def replica_moved_def)

lemma on_replica_engine:
  assumes "i < length (gr_replicas gr)" "m (no_engine (gr_replicas gr ! i)) = (r, en)"
  shows "on_replica i (on_engine m) gr = (r, with_engine i en gr)"
  using assms by (simp add: on_replica_def on_engine_def with_engine_def)

lemma marks:
  "engine_mark_recovering detail en = (Inr (), en\<lparr>en_state := RECOVERING, en_detail := detail\<rparr>)"
  "engine_mark_out_of_sync detail en = (Inr (), en\<lparr>en_state := OUT_OF_SYNC, en_detail := detail\<rparr>)"
  "engine_mark_ready en = (Inr (), en\<lparr>en_state := READY, en_detail := ustr ''ready''\<rparr>)"
  by (simp_all add: engine_mark_recovering_def engine_mark_out_of_sync_def engine_mark_ready_def set_state_def st_defs)

lemma unready_inv: "engine_inv rt en \<Longrightarrow> st \<noteq> READY \<Longrightarrow> engine_inv rt (en\<lparr>en_state := st, en_detail := detail\<rparr>)"
  by (simp add: engine_inv_def)

lemma sync_failed_outcome:
  assumes "i < length (gr_replicas gr)" "replica_moved i en gr gr1" "engine_inv rt en"
  shows "\<exists>out gr' en'. sync_failed i detail here remote gr1 = (Inr out, gr') \<and> replica_moved i en' gr gr' \<and> engine_inv rt en'
    \<and> \<not> so_synchronized out \<and> en_state en' = OUT_OF_SYNC"
proof -
  have n: "no_engine (gr_replicas gr1 ! i) = en" "i < length (gr_replicas gr1)" using assms(1,2) by (simp_all add: replica_moved_def)
  let ?en = "en\<lparr>en_state := OUT_OF_SYNC, en_detail := detail\<rparr>"
  let ?gr = "with_engine i ?en gr1"
  have "sync_failed i detail here remote gr1
      = (Inr \<lparr>so_synchronized = False, so_detail = detail, so_local_generation = here, so_primary_generation = remote\<rparr>, ?gr)"
    using on_replica_engine [OF n(2), of "engine_mark_out_of_sync detail", OF marks(2)] n(1) by (simp add: sync_failed_def sbind_def slift_def)
  moreover have "replica_moved i ?en gr ?gr" using assms(1,2) by (simp add: with_engine_def replica_moved_def)
  ultimately show ?thesis using unready_inv [OF assms(3), of OUT_OF_SYNC detail] by (intro exI conjI) auto
qed

lemma resynchronize_from_run:
  assumes i: "i < length (gr_replicas gr)" and ex: "link_export (rt_unicode rt) (next_outcome gr) (gr_primary gr) = (r, gr_primary gr)"
  shows "resynchronize_from rt i here remote gr =
    (let g1 = request_sent (with_engine i ((no_engine (gr_replicas gr ! i))\<lparr>en_state := RECOVERING,
                en_detail := ustr ''resynchronizing from generation '' @ py_str_int here\<rparr>) gr)
     in case r of
       Inl _ \<Rightarrow> sync_failed i (ustr ''resynchronization failed: could not read the primary's corpus'') here remote g1
     | Inr (docs, g) \<Rightarrow> (case on_replica i (on_engine (engine_resynchronize rt docs g)) g1 of
          (Inl _, gr2) \<Rightarrow> sync_failed i (ustr ''resynchronization failed while rebuilding derived state'') here remote gr2
        | (Inr _, gr2) \<Rightarrow> (Inr \<lparr>so_synchronized = True, so_detail = ustr ''resynchronized to generation '' @ py_str_int g,
                          so_local_generation = g, so_primary_generation = Some g\<rparr>, gr2)))"
proof -
  have op: "on_primary (link_export (rt_unicode rt) (next_outcome gr)) (request_sent (with_engine i en gr)) = (r, request_sent (with_engine i en gr))" for en
    using ex by (simp add: on_primary_def request_sent_def with_engine_def)
  show ?thesis unfolding resynchronize_from_def
    by (cases r) (simp_all add: sbind_def on_replica_engine [OF i marks(1)] next_delivery_sent op split_def Let_def)
qed

lemma resynchronize_from_outcome:
  assumes i: "i < length (gr_replicas gr)" and p: "engine_inv rt (no_engine (gr_primary gr))" and inv: "engine_inv rt (no_engine (gr_replicas gr ! i))"
  shows "\<exists>out gr' en. resynchronize_from rt i here remote gr = (Inr out, gr') \<and> replica_moved i en gr gr' \<and> engine_inv rt en
    \<and> (so_synchronized out \<longleftrightarrow> en_state en = READY)
    \<and> (so_synchronized out \<longrightarrow> en_generation en = en_generation (no_engine (gr_primary gr)) \<and> engine_corpus en = engine_corpus (no_engine (gr_primary gr)))
    \<and> (next_outcome gr = Delivered \<and> has_replicator (gr_primary gr) \<and> en_state (no_engine (gr_primary gr)) = READY
        \<and> calm (en_store (no_engine (gr_replicas gr ! i)))
        \<and> (case en_embedder (no_engine (gr_replicas gr ! i)) of None \<Rightarrow> True | Some e \<Rightarrow> embedder_works (rt_numpy rt) e) \<longrightarrow> so_synchronized out)"
proof -
  let ?n = "gr_replicas gr ! i"
  let ?en = "(no_engine ?n)\<lparr>en_state := RECOVERING, en_detail := ustr ''resynchronizing from generation '' @ py_str_int here\<rparr>"
  let ?g1 = "request_sent (with_engine i ?en gr)"
  have inv1: "engine_inv rt ?en" using inv by (simp add: unready_inv)
  obtain r where ex: "link_export (rt_unicode rt) (next_outcome gr) (gr_primary gr) = (r, gr_primary gr)"
    "case r of Inr (docs, g) \<Rightarrow> engine_export_snapshot (no_engine (gr_primary gr)) = Inr (docs, g)
       | Inl _ \<Rightarrow> \<not> (next_outcome gr = Delivered \<and> has_replicator (gr_primary gr) \<and> en_state (no_engine (gr_primary gr)) = READY)"
    using link_export_cases [OF p] by blast
  note start = resynchronize_from_run [OF i ex(1), of here remote]
  have moved1: "replica_moved i ?en gr ?g1" by simp
  show ?thesis
  proof (cases r)
    case (Inl e)
    then show ?thesis using start [unfolded Let_def] ex(2) sync_failed_outcome [OF i moved1 inv1] by fastforce
  next
    case (Inr dg)
    obtain docs g where dg: "dg = (docs, g)" by (cases dg)
    from ex(2) Inr dg have snap: "engine_export_snapshot (no_engine (gr_primary gr)) = Inr (docs, g)" by simp
    note e = export_facts [OF p snap]
    from resynchronize_cases [OF inv1 e(4), of g] obtain q en2 where
      q: "engine_resynchronize rt docs g ?en = (q, en2)" "engine_inv rt en2"
        "case q of Inr _ \<Rightarrow> en_state en2 = READY \<and> engine_corpus en2 = docs_corpus docs \<and> en_generation en2 = g | Inl _ \<Rightarrow> True"
      by (fastforce split: sum.splits)
    let ?g2 = "with_engine i en2 ?g1"
    have run: "on_replica i (on_engine (engine_resynchronize rt docs g)) ?g1 = (q, ?g2)" by (rule on_replica_engine) (use i q(1) in simp_all)
    have moved2: "replica_moved i en2 gr ?g2" using i by simp
    show ?thesis
    proof (cases q)
      case (Inl x)
      have "\<not> (calm (en_store (no_engine ?n)) \<and> (case en_embedder (no_engine ?n) of None \<Rightarrow> True | Some e \<Rightarrow> embedder_works (rt_numpy rt) e))"
        using resynchronize_works [OF inv1 e(4,3), of g] q(1) Inl by auto
      then show ?thesis using start [unfolded Let_def] \<open>r = Inr dg\<close> dg run Inl sync_failed_outcome [OF i moved2 q(2)] by fastforce
    next
      case (Inr report)
      then show ?thesis using start [unfolded Let_def] \<open>r = Inr dg\<close> dg run moved2 q(2,3) e(2,5) by fastforce
    qed
  qed
qed

lemma sync_resultI:
  assumes "res = (Inr out, gr')" "replica_moved i en gr gr'" "engine_inv rt en" "so_synchronized out \<longleftrightarrow> en_state en = READY"
    "so_synchronized out \<Longrightarrow> en_generation en = en_generation (no_engine (gr_primary gr))"
  shows "sync_result rt i gr res"
  using assms by (auto simp: sync_result_def)

lemma synchronize_run:
  assumes i: "i < length (gr_replicas gr)"
    and here: "here = en_generation (no_engine (gr_replicas gr ! i))" and remote: "remote = en_generation (no_engine (gr_primary gr))"
    and en: "en = (no_engine (gr_replicas gr ! i))\<lparr>en_state := RECOVERING, en_detail := ustr ''verifying synchronization with the primary''\<rparr>"
    and detail: "detail = ustr ''primary unreachable, synchronization unverified''"
  shows "synchronizer_synchronize rt i gr =
    (if next_outcome gr \<noteq> Delivered
     then (Inr \<lparr>so_synchronized = False, so_detail = detail, so_local_generation = here, so_primary_generation = None\<rparr>,
           request_sent (with_engine i (en\<lparr>en_state := RECOVERING, en_detail := detail\<rparr>) gr))
     else if here = remote
     then (Inr \<lparr>so_synchronized = True, so_detail = ustr ''synchronized with the primary'', so_local_generation = here,
             so_primary_generation = Some remote\<rparr>, request_sent (with_engine i (en\<lparr>en_state := READY, en_detail := ustr ''ready''\<rparr>) gr))
     else if remote < here
     then sync_failed i (ustr ''ahead of the primary: local '' @ py_str_int here @ ustr '', primary '' @ py_str_int remote) here (Some remote)
            (request_sent (with_engine i en gr))
     else resynchronize_from rt i here (Some remote) (request_sent (with_engine i en gr)))"
proof -
  let ?g1 = "request_sent (with_engine i en gr)"
  have first: "on_replica i (on_engine (engine_mark_recovering (ustr ''verifying synchronization with the primary''))) gr = (Inr (), with_engine i en gr)"
    by (rule on_replica_engine [OF i]) (simp add: marks en)
  have gen: "replica_generation i (with_engine i en gr) = (Inr here, with_engine i en gr)"
    using i by (simp add: replica_generation_def sgets_def here en)
  have ask: "on_primary (link_generation (next_outcome gr)) ?g1 =
      (if next_outcome gr = Delivered then Inr remote else Inl (case next_outcome gr of Timed_out _ \<Rightarrow> ShardTimeoutError | _ \<Rightarrow> ShardUnavailableError), ?g1)"
    by (simp add: on_primary_def link_generation_cases remote request_sent_def with_engine_def)
  have mark: "on_replica i (on_engine m) ?g1 = (Inr (), request_sent (with_engine i en' gr))" if "m en = (Inr (), en')" for m en'
    using on_replica_engine [of i ?g1 m] i that by simp
  note marked = mark [OF marks(1)] mark [OF marks(3)]
  show ?thesis unfolding synchronizer_synchronize_def detail
    using ask by (simp add: sbind_def slift_def first gen next_delivery_sent marked Let_def)
qed

lemma synchronize_outcome:
  assumes i: "i < length (gr_replicas gr)" and p: "engine_inv rt (no_engine (gr_primary gr))"
    and inv: "engine_inv rt (no_engine (gr_replicas gr ! i))" and cons: "engine_consistent rt (no_engine (gr_replicas gr ! i))"
  shows "sync_result rt i gr (synchronizer_synchronize rt i gr)
    \<and> (repairable rt i gr \<longrightarrow> (\<exists>out gr'. synchronizer_synchronize rt i gr = (Inr out, gr')
        \<and> (if en_generation (no_engine (gr_replicas gr ! i)) \<le> en_generation (no_engine (gr_primary gr)) then so_synchronized out
           else \<not> so_synchronized out \<and> en_state (no_engine (gr_replicas gr' ! i)) = OUT_OF_SYNC)))"
proof -
  let ?n = "gr_replicas gr ! i" and ?here = "en_generation (no_engine (gr_replicas gr ! i))" and ?remote = "en_generation (no_engine (gr_primary gr))"
  let ?en = "(no_engine ?n)\<lparr>en_state := RECOVERING, en_detail := ustr ''verifying synchronization with the primary''\<rparr>"
  let ?g1 = "request_sent (with_engine i ?en gr)"
  note run = synchronize_run [OF i refl refl refl refl, of rt]
  have inv1: "engine_inv rt ?en" using inv by (simp add: unready_inv)
  consider (lost) "next_outcome gr \<noteq> Delivered" | (eq) "next_outcome gr = Delivered" "?here = ?remote"
    | (ahead) "next_outcome gr = Delivered" "?remote < ?here" | (behind) "next_outcome gr = Delivered" "?here < ?remote" by linarith
  then show ?thesis
  proof cases
    case lost
    have "engine_inv rt (?en\<lparr>en_state := RECOVERING, en_detail := ustr ''primary unreachable, synchronization unverified''\<rparr>)"
      by (rule unready_inv [OF inv1]) simp
    from sync_resultI [OF _ _ this] lost have "sync_result rt i gr (synchronizer_synchronize rt i gr)" by (simp add: run)
    moreover have "\<not> repairable rt i gr" using lost by (auto simp: repairable_def next_outcome_def)
    ultimately show ?thesis by blast
  next
    case eq
    have "engine_inv rt (?en\<lparr>en_state := READY, en_detail := ustr ''ready''\<rparr>)"
      using inv cons by (auto simp: engine_inv_def engine_consistent_def derived_repr_def engine_corpus_def)
    from sync_resultI [OF _ _ this] eq have "sync_result rt i gr (synchronizer_synchronize rt i gr)" by (simp add: run)
    then show ?thesis using eq by (simp add: run)
  next
    case ahead
    have "replica_moved i ?en gr ?g1" by simp
    from sync_failed_outcome [OF i this inv1, of "ustr ''ahead of the primary: local '' @ py_str_int ?here @ ustr '', primary '' @ py_str_int ?remote"
        ?here "Some ?remote"] obtain out gr' en where
      o: "synchronizer_synchronize rt i gr = (Inr out, gr')" "replica_moved i en gr gr'" "engine_inv rt en"
        "\<not> so_synchronized out" "en_state en = OUT_OF_SYNC" using ahead by (auto simp: run)
    from sync_resultI [OF o(1-3)] o(4,5) have "sync_result rt i gr (synchronizer_synchronize rt i gr)" by simp
    moreover have "no_engine (gr_replicas gr' ! i) = en" using o(2) i by (simp add: replica_moved_def)
    ultimately show ?thesis using o(1,4,5) ahead by simp
  next
    case behind
    from resynchronize_from_outcome [of i ?g1 rt ?here "Some ?remote"] i p inv1 obtain out gr' en where
      o: "resynchronize_from rt i ?here (Some ?remote) ?g1 = (Inr out, gr')" "replica_moved i en ?g1 gr'" "engine_inv rt en"
        "so_synchronized out \<longleftrightarrow> en_state en = READY" "so_synchronized out \<longrightarrow> en_generation en = ?remote"
        "next_outcome ?g1 = Delivered \<and> has_replicator (gr_primary gr) \<and> en_state (no_engine (gr_primary gr)) = READY \<and> calm (en_store (no_engine ?n))
          \<and> (case en_embedder (no_engine ?n) of None \<Rightarrow> True | Some e \<Rightarrow> embedder_works (rt_numpy rt) e) \<longrightarrow> so_synchronized out" by auto
    have "synchronizer_synchronize rt i gr = (Inr out, gr')" using behind o(1) by (simp add: run)
    then show ?thesis using o replica_moved_trans [OF o(2) i] behind(2) by (auto simp: sync_result_def repairable_def next_outcome_def)
  qed
qed

section \<open>Properties\<close>

text \<open>C6. The synchroniser is honest and effective. Repairing a replica on request, in whatever state it is, and checking
  against its primary a replica that agrees with its own storage, as it does when startup has rebuilt it, never
  raise, change no other copy, and report success exactly if the replica is \<open>READY\<close>, which is then at the
  primary's generation (after a repair, with the primary's corpus). If the primary serves, nothing is lost on
  the way and the replica's storage and embedder work, a repair succeeds; the check succeeds if the replica is
  not ahead of the primary, and takes a replica that is ahead \<open>OUT_OF_SYNC\<close>.\<close>

theorem synchronizer_honest_and_effective:
  assumes "i < length (gr_replicas gr)" "engine_inv rt (no_engine (gr_primary gr))" "engine_inv rt (no_engine (gr_replicas gr ! i))"
  shows "sync_result rt i gr (synchronizer_resynchronize rt i gr)
    \<and> (\<forall>out gr'. synchronizer_resynchronize rt i gr = (Inr out, gr') \<longrightarrow> so_synchronized out
         \<longrightarrow> engine_corpus (no_engine (gr_replicas gr' ! i)) = engine_corpus (no_engine (gr_primary gr)))
    \<and> (repairable rt i gr \<longrightarrow> (\<exists>out gr'. synchronizer_resynchronize rt i gr = (Inr out, gr') \<and> so_synchronized out))
    \<and> (engine_consistent rt (no_engine (gr_replicas gr ! i)) \<longrightarrow> sync_result rt i gr (synchronizer_synchronize rt i gr)
        \<and> (repairable rt i gr \<longrightarrow> (\<exists>out gr'. synchronizer_synchronize rt i gr = (Inr out, gr')
            \<and> (if en_generation (no_engine (gr_replicas gr ! i)) \<le> en_generation (no_engine (gr_primary gr)) then so_synchronized out
               else \<not> so_synchronized out \<and> en_state (no_engine (gr_replicas gr' ! i)) = OUT_OF_SYNC))))"
proof -
  have r: "synchronizer_resynchronize rt i gr = resynchronize_from rt i (en_generation (no_engine (gr_replicas gr ! i))) None gr"
    by (simp add: synchronizer_resynchronize_def replica_generation_def sgets_def sbind_def)
  from resynchronize_from_outcome [OF assms(1-3)] obtain out gr' en where
    o: "synchronizer_resynchronize rt i gr = (Inr out, gr')" "replica_moved i en gr gr'" "engine_inv rt en"
      "so_synchronized out \<longleftrightarrow> en_state en = READY"
      "so_synchronized out \<longrightarrow> en_generation en = en_generation (no_engine (gr_primary gr)) \<and> engine_corpus en = engine_corpus (no_engine (gr_primary gr))"
      "repairable rt i gr \<longrightarrow> so_synchronized out"
    unfolding r repairable_def next_outcome_def by metis
  have res: "sync_result rt i gr (synchronizer_resynchronize rt i gr)" by (rule sync_resultI [OF o(1-4)]) (use o(5) in blast)
  have "no_engine (gr_replicas gr' ! i) = en" using o(2) assms(1) by (simp add: replica_moved_def)
  moreover note synchronize_outcome [OF assms]
  ultimately show ?thesis using res o(1,5,6) by simp
qed

theorem synchronizer_honest_and_effective_witness:
  "(\<exists>out gr'. synchronizer_resynchronize real_runtime 0 (small_group (snd (engine_mark_out_of_sync [] ready_engine))) = (Inr out, gr')
      \<and> so_synchronized out \<and> en_state (no_engine (gr_replicas gr' ! 0)) = READY)
   \<and> (\<exists>out gr'. synchronizer_synchronize real_runtime 0 (small_group ready_engine) = (Inr out, gr') \<and> so_synchronized out)"
proof -
  let ?out = "snd (engine_mark_out_of_sync [] ready_engine)"
  let ?gr = "small_group ready_engine" and ?gr2 = "small_group ?out"
  have m: "?out = ready_engine\<lparr>en_state := OUT_OF_SYNC, en_detail := []\<rparr>" by (simp add: marks)
  have a: "0 < length (gr_replicas ?gr)" "engine_inv real_runtime (no_engine (gr_primary ?gr))"
    "engine_inv real_runtime (no_engine (gr_replicas ?gr ! 0))" "engine_consistent real_runtime (no_engine (gr_replicas ?gr ! 0))"
    "repairable real_runtime 0 ?gr" "en_generation (no_engine (gr_replicas ?gr ! 0)) \<le> en_generation (no_engine (gr_primary ?gr))"
    by (simp_all add: small_group_def ready_engine_facts repairable_def has_replicator_def primary_settings_def)
  have "engine_inv real_runtime ?out" unfolding m by (rule unready_inv [OF ready_engine_facts(1)]) simp
  then have b: "0 < length (gr_replicas ?gr2)" "engine_inv real_runtime (no_engine (gr_primary ?gr2))"
    "engine_inv real_runtime (no_engine (gr_replicas ?gr2 ! 0))" "repairable real_runtime 0 ?gr2"
    using ready_engine_facts by (simp_all add: small_group_def repairable_def has_replicator_def primary_settings_def m)
  from synchronizer_honest_and_effective [OF b(1-3)] b(4) obtain out gr' where
    o: "synchronizer_resynchronize real_runtime 0 ?gr2 = (Inr out, gr')" "so_synchronized out"
      "sync_result real_runtime 0 ?gr2 (Inr out, gr')" by metis
  then have "en_state (no_engine (gr_replicas gr' ! 0)) = READY" using b(1) by (auto simp: sync_result_def replica_moved_def)
  moreover from synchronizer_honest_and_effective [OF a(1-3)] a(4-6)
  have "\<exists>out gr'. synchronizer_synchronize real_runtime 0 ?gr = (Inr out, gr') \<and> so_synchronized out" by simp
  ultimately show ?thesis using o(1,2) by blast
qed

end
