(* ===== verification/Cluster_Api.thy ===== *)
theory Cluster_Api
  imports Cluster_Queries
begin

text \<open>
  \<open>app/api/cluster.py\<close>: the public endpoints of a coordinator, with the request validation and status codes
  they share with the single node's. Writes change the world \<open>'w\<close> behind the shard clients; reads leave
  the state they are given unchanged.
\<close>

section \<open>Documents\<close>

record cluster_index_response =
  cx_document_id :: pystr
  cx_created :: bool
  cx_shard_id :: int

definition cluster_index_document ::
    "unicode \<Rightarrow> ('f, 'w) coordinator \<Rightarrow> pystr \<Rightarrow> pystr \<Rightarrow> 'w \<Rightarrow> cluster_index_response response \<times> 'w" where
  "cluster_index_document ud co d t =
     serve (\<lambda>r. if cx_created r then 201 else 200)
       (sbind (slift (mk_document ud d t))
         (\<lambda>doc. sbind (coordinator_index_document co doc)
         (\<lambda>created. sbind (slift (shard_for (co_router co) d))
         (\<lambda>shard. slift (Inr \<lparr>cx_document_id = d, cx_created = created, cx_shard_id = shard\<rparr>)))))"

definition cluster_delete_document :: "('f, 'w) coordinator \<Rightarrow> pystr \<Rightarrow> 'w \<Rightarrow> unit response \<times> 'w" where
  "cluster_delete_document co d = serve (\<lambda>_. 204) (coordinator_delete_document co d)"

section \<open>Search\<close>

definition cluster_search ::
    "unicode \<Rightarrow> ('f::linorder, 'w) coordinator \<Rightarrow> pystr \<Rightarrow> int \<Rightarrow> 's \<Rightarrow> 'f search_response response \<times> 's" where
  "cluster_search ud co q limit =
     serve (\<lambda>_. 200) (sbind (slift (check_limit limit))
       (\<lambda>_. slift (ebind (coordinator_search ud co q limit) (\<lambda>r. Inr (search_response_of q r)))))"

definition cluster_semantic_search ::
    "('f::linorder, 'w) coordinator \<Rightarrow> pystr \<Rightarrow> int \<Rightarrow> 's \<Rightarrow> 'f search_response response \<times> 's" where
  "cluster_semantic_search co q limit =
     serve (\<lambda>_. 200) (sbind (slift (check_limit limit))
       (\<lambda>_. slift (ebind (coordinator_semantic_search co q limit) (\<lambda>r. Inr (search_response_of q r)))))"

definition cluster_hybrid_search ::
    "'f::linorder runtime \<Rightarrow> ('f, 'w) coordinator \<Rightarrow> pystr \<Rightarrow> int \<Rightarrow> bool \<Rightarrow> 's \<Rightarrow> 'f hybrid_response response \<times> 's" where
  "cluster_hybrid_search rt co q limit explain =
     serve (\<lambda>_. 200) (sbind (slift (check_limit limit))
       (\<lambda>_. slift (ebind (coordinator_hybrid_search rt co q limit None) (\<lambda>r. Inr (to_response q r explain)))))"

section \<open>Reports\<close>

record 'f shard_stats_response =
  hs_shard_id :: int
  hs_document_count :: int
  hs_unique_term_count :: int
  hs_average_document_length :: 'f

record 'f cluster_stats_response =
  kr_document_count :: int
  kr_average_document_length :: 'f
  kr_shard_count :: int
  kr_shards :: "'f shard_stats_response list"

definition cluster_index_stats ::
    "'f::linorder runtime \<Rightarrow> ('f, 'w) coordinator \<Rightarrow> 's \<Rightarrow> 'f cluster_stats_response response \<times> 's" where
  "cluster_index_stats rt co =
     serve (\<lambda>_. 200) (slift (ebind (coordinator_index_stats rt co) (\<lambda>stats. Inr
       \<lparr>kr_document_count = ck_document_count stats,
        kr_average_document_length = ck_average_document_length stats,
        kr_shard_count = ck_shard_count stats,
        kr_shards = map (\<lambda>shard. \<lparr>hs_shard_id = sx_shard_id shard, hs_document_count = sx_document_count shard,
          hs_unique_term_count = sx_unique_term_count shard,
          hs_average_document_length = sx_average_document_length shard\<rparr>) (ck_shards stats)\<rparr>)))"

text \<open>\<open>str([0, 2])\<close> and the detail of a readiness report.\<close>

definition py_str_ints :: "int list \<Rightarrow> pystr" where
  "py_str_ints xs = ustr ''['' @ py_join (ustr '', '') (map py_str_int xs) @ ustr '']''"

definition readiness_detail :: "cluster_readiness \<Rightarrow> pystr" where
  "readiness_detail r =
     (if cr_ready r then ustr ''all '' @ py_str_int (int (length (cr_ready_shards r))) @ ustr '' shards ready''
      else ustr ''shards not ready: '' @ py_str_ints (map int (cr_unready_shards r)))"

definition cluster_ready :: "('f, 'w) coordinator \<Rightarrow> 's \<Rightarrow> readiness_response response \<times> 's" where
  "cluster_ready co =
     serve (\<lambda>r. if rd_ready r then 200 else 503)
       (slift (let readiness = coordinator_readiness co
               in Inr \<lparr>rd_ready = cr_ready readiness, rd_detail = readiness_detail readiness\<rparr>))"

record copy_status_response =
  yr_role :: pystr
  yr_reachable :: bool
  yr_node_id :: pystr
  yr_state :: pystr
  yr_ready :: bool
  yr_generation :: "int option"

record shard_status_response =
  zr_shard_id :: int
  zr_search_available :: bool
  zr_write_available :: bool
  zr_copies :: "copy_status_response list"

record cluster_status_response =
  wr_shard_count :: int
  wr_replication_factor :: int
  wr_search_available :: bool
  wr_write_available :: bool
  wr_semantic_enabled :: bool
  wr_semantic_identity :: "pystr option"
  wr_shards :: "shard_status_response list"

definition shard_status_response_of :: "shard_health \<Rightarrow> shard_status_response" where
  "shard_status_response_of shard =
     \<lparr>zr_shard_id = sh_shard_id shard, zr_search_available = sh_search_available shard,
      zr_write_available = sh_write_available shard,
      zr_copies = map (\<lambda>copy. \<lparr>yr_role = cp_role copy, yr_reachable = cp_reachable copy, yr_node_id = cp_node_id copy,
        yr_state = cp_state copy, yr_ready = cp_ready copy, yr_generation = cp_generation copy\<rparr>) (sh_copies shard)\<rparr>"

definition cluster_status :: "('f, 'w) coordinator \<Rightarrow> 's \<Rightarrow> cluster_status_response response \<times> 's" where
  "cluster_status co =
     serve (\<lambda>_. 200) (slift (let health = coordinator_cluster_status co
       in Inr \<lparr>wr_shard_count = ch_shard_count health, wr_replication_factor = ch_replication_factor health,
               wr_search_available = ch_search_available health, wr_write_available = ch_write_available health,
               wr_semantic_enabled = (co_embedder co \<noteq> None),
               wr_semantic_identity = map_option fingerprint (co_semantic_identity co),
               wr_shards = map shard_status_response_of (ch_shards health)\<rparr>))"

section \<open>Properties\<close>

text \<open>C2. The public search endpoint of a cluster is that of a single node: over shards with disjoint documents
  it answers 422 exactly for a limit out of range and otherwise 200 or 503; and a 200 carries the very
  response that the endpoint of a single node gives that holds the documents of one ready copy per shard.\<close>

theorem cluster_search_like_single_node:
  assumes "serves (\<lambda>net. http_shard_client rt path_id net put del) co cs" "copies_ok rt params cs"
    and "bm25_arithmetic (rt_float rt) params" "disjoint_shards cs"
    and "cluster_search (rt_unicode rt) co q limit s = (response, s')"
  shows "s' = s \<and> rs_status response \<in> {200, 422, 503} \<and> (rs_status response = 422 \<longleftrightarrow> \<not> (1 \<le> limit \<and> limit \<le> max_limit))
    \<and> (rs_status response = 200 \<longrightarrow> (\<exists>C. (analyze (rt_unicode rt) q \<noteq> [] \<longrightarrow> (\<exists>sel. selected sel cs \<and> C = union_corpus (map copy_corpus sel)))
        \<and> (\<forall>en. engine_inv rt en \<longrightarrow> en_state en = READY \<longrightarrow> en_scorer en = params \<longrightarrow> engine_corpus en = C
             \<longrightarrow> api_search rt q limit en = (response, en))))"
proof (cases "1 \<le> limit \<and> limit \<le> max_limit")
  case False
  then show ?thesis using assms(5) by (auto simp: cluster_search_def check_limit_def sbind_def slift_def serve_def)
next
  case lim: True
  let ?terms = "analyze (rt_unicode rt) q"
  have run: "(response, s') = (case coordinator_search (rt_unicode rt) co q limit of
      Inl e \<Rightarrow> (Response (error_status e) None, s) | Inr r \<Rightarrow> (Response 200 (Some (search_response_of q r)), s))"
    using assms(5) lim by (cases "coordinator_search (rt_unicode rt) co q limit")
      (simp_all add: cluster_search_def check_limit_def sbind_def slift_def serve_def)
  have api: "api_search rt q limit en = (Response 200 (Some (search_response_of q r)), en)" if "engine_search rt en q limit None = Inr r" for en r
    using lim that by (simp add: api_search_def check_limit_def sbind_def slift_def serve_def)
  show ?thesis
  proof (cases "?terms = []")
    case True
    have "engine_search rt en q limit None = Inr empty_results" if "en_state en = READY" for en :: "'a engine"
      using that True by (simp add: engine_search_def require_operational_def search_locked_def empty_results_def)
    then show ?thesis using run True lim api by (simp add: coordinator_search_def)
  next
    case terms: False
    have locked: "coordinator_search (rt_unicode rt) co q limit = coordinator_search_locked co q (sorted_list_of_set (set ?terms)) limit"
      using terms by (simp add: coordinator_search_def)
    show ?thesis
    proof (cases "coordinator_search (rt_unicode rt) co q limit")
      case (Inl e)
      then obtain failed where "e = DistributedSearchError failed" using search_outcome locked by metis
      then show ?thesis using run Inl lim by simp
    next
      case (Inr r)
      have "0 \<le> limit" using lim by simp
      from http.search_matches [OF assms(1-4) this, of q r] Inr locked obtain sel stats where sel: "selected sel cs"
        and d: "stats_describe (rt_unicode rt) (union_corpus (map copy_corpus sel)) ?terms stats"
        and r: "r = ranked_page (union_corpus (map copy_corpus sel))
            (lexical_scores rt params stats ?terms (union_corpus (map copy_corpus sel))) limit" by auto
      have "engine_search rt en q limit None = Inr r"
        if "engine_inv rt en" "en_state en = READY" "en_scorer en = params" "engine_corpus en = union_corpus (map copy_corpus sel)" for en
        using engine_search_page [OF that(1,2) _ \<open>0 \<le> limit\<close>, of q stats] that(3,4) d r assms(3) by simp
      then show ?thesis using run Inr lim sel api by auto
    qed
  qed
qed

theorem cluster_search_like_single_node_witness:
  "\<exists>response C. cluster_search ascii_unicode small_cluster (ustr ''x'') 10 () = (response, ()) \<and> rs_status response = 200
     \<and> (\<forall>en. engine_inv real_runtime en \<longrightarrow> en_state en = READY \<longrightarrow> en_scorer en = default_bm25_params real_ops \<longrightarrow> engine_corpus en = C
          \<longrightarrow> api_search real_runtime (ustr ''x'') 10 en = (response, en))"
proof -
  have u: "rt_unicode real_runtime = ascii_unicode" by (simp add: real_runtime_def)
  have serve: "\<forall>copies\<in>set small_copies. shard_serves copies"
    using engine_with_facts(2) [OF valid_a] engine_with_facts(2) [OF valid_b]
    by (auto simp: small_copies_def shard_serves_def answers_def shard_node_def)
  from search_available [OF small_serves small_ok real_arithmetic small_disjoint _ _ serve, of 10 "ustr ''x''"]
  obtain r where "coordinator_search ascii_unicode small_cluster (ustr ''x'') 10 = Inr r" by (auto simp: max_limit_def u)
  then have c: "cluster_search ascii_unicode small_cluster (ustr ''x'') 10 () = (Response 200 (Some (search_response_of (ustr ''x'') r)), ())"
    by (simp add: cluster_search_def check_limit_def max_limit_def sbind_def slift_def serve_def)
  from cluster_search_like_single_node [OF small_serves small_ok real_arithmetic small_disjoint c [folded u]] c show ?thesis by auto
qed

end
