(* ===== verification/Launcher.thy ===== *)
theory Launcher
  imports Cluster_Api
begin

text \<open>
  \<open>scripts/run_cluster.py\<close>: the settings with which a local cluster is started, and the loop that waits for a
  node to become ready. Starting and stopping processes and printing are left out; the environment of a
  process is the \<open>Settings\<close> object it gives.
\<close>

section \<open>The configuration of a local cluster\<close>

definition node_url :: "int \<Rightarrow> pystr" where
  "node_url port = ustr ''http://127.0.0.1:'' @ py_str_int port"

definition shard_urls :: "nat \<Rightarrow> int \<Rightarrow> pystr list" where
  "shard_urls shards base_port = map (\<lambda>i. node_url (base_port + int i)) [0..<shards]"

definition replica_urls :: "nat \<Rightarrow> int \<Rightarrow> bool \<Rightarrow> pystr list" where
  "replica_urls shards base_port replicated =
     (if replicated then map (\<lambda>i. node_url (base_port + 100 + int i)) [0..<shards] else [])"

definition primary_environment :: "nat \<Rightarrow> int \<Rightarrow> bool \<Rightarrow> pystr \<Rightarrow> nat \<Rightarrow> settings" where
  "primary_environment shards base_port replicated data_dir i =
     default_settings\<lparr>se_app_name := ustr ''pysearch-shard-'' @ py_str_int (int i) @ ustr ''-primary'',
       se_node_id := ustr ''shard-'' @ py_str_int (int i) @ ustr ''-primary'',
       se_node_role := Shard, se_shard_id := Some (int i), se_shard_count := int shards, se_replica_role := Some Primary,
       se_replica_urls := (if replicated then node_url (base_port + 100 + int i) else []),
       se_storage_path := data_dir @ ustr ''/shard-'' @ py_str_int (int i) @ ustr ''-primary.db''\<rparr>"

definition replica_environment :: "nat \<Rightarrow> int \<Rightarrow> pystr \<Rightarrow> nat \<Rightarrow> settings" where
  "replica_environment shards base_port data_dir i =
     default_settings\<lparr>se_app_name := ustr ''pysearch-shard-'' @ py_str_int (int i) @ ustr ''-replica'',
       se_node_id := ustr ''shard-'' @ py_str_int (int i) @ ustr ''-replica'',
       se_node_role := Shard, se_shard_id := Some (int i), se_shard_count := int shards, se_replica_role := Some Replica,
       se_primary_url := shard_urls shards base_port ! i,
       se_storage_path := data_dir @ ustr ''/shard-'' @ py_str_int (int i) @ ustr ''-replica.db''\<rparr>"

definition coordinator_environment :: "nat \<Rightarrow> int \<Rightarrow> bool \<Rightarrow> settings" where
  "coordinator_environment shards base_port replicated =
     default_settings\<lparr>se_app_name := ustr ''pysearch-coordinator'', se_node_role := CoordinatorRole, se_shard_count := int shards,
       se_shard_urls := py_join [comma] (shard_urls shards base_port),
       se_replica_urls := py_join [semicolon] (replica_urls shards base_port replicated)\<rparr>"

text \<open>\<open>main\<close>: primaries first, then the replicas once every primary is ready, then the coordinator. \<open>ready\<close> is what
  waiting for an address gives; the result is the exit code and the processes started, with their ports.\<close>

definition launch :: "nat \<Rightarrow> int \<Rightarrow> int \<Rightarrow> bool \<Rightarrow> pystr \<Rightarrow> (pystr \<Rightarrow> bool) \<Rightarrow> nat \<times> (int \<times> settings) list" where
  "launch shards base_port coordinator_port replicated data_dir ready =
     (let primaries = map (\<lambda>i. (base_port + int i, primary_environment shards base_port replicated data_dir i)) [0..<shards];
          replicas = map (\<lambda>i. (base_port + 100 + int i, replica_environment shards base_port data_dir i))
            [0..<length (replica_urls shards base_port replicated)];
          coordinator = [(coordinator_port, coordinator_environment shards base_port replicated)]
      in if \<not> list_all ready (shard_urls shards base_port) then (1, primaries)
         else if \<not> list_all ready (replica_urls shards base_port replicated) then (1, primaries @ replicas)
         else if \<not> ready (node_url coordinator_port) then (1, primaries @ replicas @ coordinator)
         else (0, primaries @ replicas @ coordinator))"

section \<open>Waiting for a node\<close>

text \<open>
  The world gives the readings of the clock and the outcomes of the probes, in order: an answer with a status
  that \<open>urlopen\<close> does not treat as an error, one of the exceptions the loop catches, or another exception.
\<close>

datatype probe = Answered nat | Caught | Raised exn

partial_function (option) wait_loop :: "(nat \<Rightarrow> rat) \<Rightarrow> (nat \<Rightarrow> probe) \<Rightarrow> rat \<Rightarrow> nat \<Rightarrow> bool res option" where
  "wait_loop clock probes deadline k =
     (if clock k < deadline
      then (case probes k of
              Answered status \<Rightarrow> if status = 200 then Some (Inr True) else wait_loop clock probes deadline (Suc k)
            | Caught \<Rightarrow> wait_loop clock probes deadline (Suc k)
            | Raised e \<Rightarrow> Some (Inl e))
      else Some (Inr False))"

definition wait_until_ready :: "(nat \<Rightarrow> rat) \<Rightarrow> (nat \<Rightarrow> probe) \<Rightarrow> rat \<Rightarrow> bool res option" where
  "wait_until_ready clock probes timeout = wait_loop (\<lambda>k. clock (Suc k)) probes (clock 0 + timeout) 0"

text \<open>\<open>time.sleep(0.2)\<close> between two readings of a monotonic clock.\<close>

definition sleeps :: "(nat \<Rightarrow> rat) \<Rightarrow> bool" where
  "sleeps clock \<longleftrightarrow> clock 0 \<le> clock 1 \<and> (\<forall>k. clock (Suc k) + 1 / 5 \<le> clock (Suc (Suc k)))"

text \<open>The first round that ends the loop, if it comes before the deadline.\<close>

definition ends :: "probe \<Rightarrow> bool" where
  "ends p \<longleftrightarrow> p \<noteq> Caught \<and> (\<forall>status. p = Answered status \<longrightarrow> status = 200)"

lemma sleeps_advance: "sleeps clock \<Longrightarrow> clock 0 + of_nat k / 5 \<le> clock (Suc k)"
proof (induction k)
  case (Suc k)
  then have "clock (Suc k) + 1 / 5 \<le> clock (Suc (Suc k))" by (simp add: sleeps_def)
  with Suc show ?case by (simp add: field_simps)
qed (simp add: sleeps_def)

lemma wait_loop_until:
  assumes "\<forall>j. k \<le> j \<longrightarrow> j < m \<longrightarrow> clock j < deadline \<and> \<not> ends (probes j)" "k \<le> m"
  shows "wait_loop clock probes deadline k = wait_loop clock probes deadline m"
  using assms
proof (induction "m - k" arbitrary: k)
  case (Suc d)
  then have k: "clock k < deadline" "\<not> ends (probes k)" by auto
  then have "wait_loop clock probes deadline k = wait_loop clock probes deadline (Suc k)"
    by (subst wait_loop.simps) (auto simp: ends_def split: probe.split)
  also have "\<dots> = wait_loop clock probes deadline m" by (rule Suc(1)) (use Suc in auto)
  finally show ?case .
qed simp

section \<open>Reading back what was written\<close>

lemma split_plain: "sep \<notin> set x \<Longrightarrow> py_split sep x = [x]"
  by (induction x) auto

lemma split_append: "sep \<notin> set x \<Longrightarrow> py_split sep (x @ sep # s) = x # py_split sep s"
  by (induction x) auto

lemma split_join: "xs \<noteq> [] \<Longrightarrow> \<forall>x\<in>set xs. sep \<notin> set x \<Longrightarrow> py_split sep (py_join [sep] xs) = xs"
  by (induction "[sep]" xs rule: py_join.induct) (auto simp: split_plain split_append)

lemma node_url_inj: "0 \<le> p \<Longrightarrow> 0 \<le> q \<Longrightarrow> node_url p = node_url q \<longleftrightarrow> p = q"
  by (auto simp: node_url_def py_str_int_def digits_inj)

text \<open>The characters of an address are printable ASCII, and none is a separator.\<close>

lemma node_url_chars:
  assumes "0 \<le> port" "c \<in> set (node_url port)"
  shows "33 \<le> c \<and> c < 127 \<and> c \<noteq> comma \<and> c \<noteq> semicolon"
proof -
  have "\<forall>c \<in> set (ustr ''http://127.0.0.1:''). 33 \<le> c \<and> c < 127 \<and> c \<noteq> comma \<and> c \<noteq> semicolon"
    by (simp add: ustr_def comma_def semicolon_def)
  moreover have "c \<in> set (ustr ''http://127.0.0.1:'') \<or> c \<in> set (py_digits (nat port))"
    using assms by (simp only: node_url_def py_str_int_def set_append Un_iff) simp
  moreover have "48 \<le> c \<and> c \<le> 57 \<Longrightarrow> c \<noteq> comma \<and> c \<noteq> semicolon" by (simp add: comma_def semicolon_def)
  ultimately show ?thesis using digits_range [of c "nat port"] by fastforce
qed

definition printable_ascii :: "unicode \<Rightarrow> bool" where
  "printable_ascii ud \<longleftrightarrow> (\<forall>c. 33 \<le> c \<longrightarrow> c < 127 \<longrightarrow> \<not> ud_isspace ud c)"

lemma strip_plain: "\<forall>c\<in>set x. \<not> ud_isspace ud c \<Longrightarrow> py_strip ud x = x"
proof -
  have keep: "dropWhile P ys = ys" if "\<forall>c\<in>set ys. \<not> P c" for P and ys :: pystr using that by (cases ys) auto
  assume "\<forall>c\<in>set x. \<not> ud_isspace ud c"
  then show "py_strip ud x = x" using keep [of x] keep [of "rev x"] by (simp add: py_strip_def)
qed

lemma node_url_strip: "printable_ascii ud \<Longrightarrow> 0 \<le> port \<Longrightarrow> py_strip ud (node_url port) = node_url port"
  using node_url_chars by (intro strip_plain) (auto simp: printable_ascii_def)

lemma node_url_nonempty: "node_url port \<noteq> []"
  by (simp add: node_url_def ustr_def)

lemma address_list_join:
  assumes "printable_ascii ud" "\<forall>p\<in>set ports. 0 \<le> p" "ports \<noteq> []"
  shows "address_list ud (py_join [comma] (map node_url ports)) = map node_url ports"
proof -
  have "py_split comma (py_join [comma] (map node_url ports)) = map node_url ports"
    using assms(2,3) node_url_chars by (intro split_join) auto
  moreover have "filter (\<lambda>url. py_strip ud url \<noteq> []) (map node_url ports) = map node_url ports"
    using assms(1,2) node_url_strip node_url_nonempty by (auto intro!: filter_True)
  ultimately show ?thesis using assms(1,2) node_url_strip by (simp add: address_list_def)
qed

lemma replica_addresses_join:
  assumes "printable_ascii ud" "\<forall>p\<in>set ports. 0 \<le> p" "ports \<noteq> []" "se_replica_urls st = py_join [semicolon] (map node_url ports)"
  shows "replica_addresses ud st = map (\<lambda>p. [node_url p]) ports"
proof -
  have split: "py_split semicolon (se_replica_urls st) = map node_url ports"
    unfolding assms(4) using assms(2,3) node_url_chars by (intro split_join) auto
  have one: "address_list ud (node_url p) = [node_url p]" if "p \<in> set ports" for p
    using address_list_join [of ud "[p]"] assms(1,2) that by simp
  obtain p ps where p: "ports = p # ps" using assms(3) by (cases ports) auto
  have "\<exists>c \<in> set (node_url p). \<not> ud_isspace ud c"
    using node_url_nonempty [of p] node_url_chars [of p] assms(1,2) p by (auto simp: printable_ascii_def neq_Nil_conv)
  moreover have "set (node_url p) \<subseteq> set (se_replica_urls st)" unfolding assms(4) p by (cases ps) auto
  ultimately have "py_strip ud (se_replica_urls st) \<noteq> []" by (auto simp: py_strip_empty_iff)
  then show ?thesis using one by (simp add: replica_addresses_def split)
qed

lemma check_coordinatorI:
  assumes "shard_addresses ud st = ps" "replica_addresses ud st = map (\<lambda>url. [url]) rs" "ps \<noteq> []"
    "int (length ps) = se_shard_count st" "rs = [] \<or> length rs = length ps" "distinct (ps @ rs)"
  shows "check_coordinator ud st = Inr ()"
proof -
  have "card (set (map length (map (\<lambda>url. [url]) rs))) = 1" if "rs \<noteq> []"
    using that by (simp add: image_constant_conv)
  moreover have "concat (map (\<lambda>url. [url]) rs) = rs" by (induction rs) auto
  moreover have "card (set ps) = length ps" "card (set (ps @ rs)) = length (ps @ rs)" using assms(6) by (simp_all only: distinct_append distinct_card)
  ultimately show ?thesis unfolding check_coordinator_def Let_def assms(1,2) using assms(3-5) by auto
qed

section \<open>Properties\<close>

text \<open>C32. A local cluster is configured consistently: for every number of shards (up to a hundred if there are
  replicas), the settings of all processes that are started are accepted; the coordinator reads back the address of each
  primary and of its replica, in shard order; each primary replicates to its replica and each replica follows
  its primary.\<close>

theorem launched_cluster_consistent:
  assumes "printable_ascii ud" "1 \<le> shards" "0 \<le> base_port" "replicated \<longrightarrow> shards \<le> 100"
  shows "(\<forall>(port, st) \<in> set (snd (launch shards base_port coordinator_port replicated data_dir ready)). mk_settings ud st = Inr st)
    \<and> shard_addresses ud (coordinator_environment shards base_port replicated) = shard_urls shards base_port
    \<and> replica_addresses ud (coordinator_environment shards base_port replicated) = map (\<lambda>url. [url]) (replica_urls shards base_port replicated)
    \<and> (\<forall>i < shards. se_primary_url (replica_environment shards base_port data_dir i) = shard_urls shards base_port ! i
        \<and> own_replica_addresses ud (primary_environment shards base_port replicated data_dir i)
            = (if replicated then [replica_urls shards base_port replicated ! i] else []))"
proof -
  let ?co = "coordinator_environment shards base_port replicated"
  let ?ps = "map (\<lambda>i. base_port + int i) [0..<shards]" and ?rs = "map (\<lambda>i. base_port + 100 + int i) [0..<shards]"
  have urls: "shard_urls shards base_port = map node_url ?ps" "replica_urls shards base_port replicated = (if replicated then map node_url ?rs else [])"
    by (simp_all add: shard_urls_def replica_urls_def)
  have pos: "\<forall>p\<in>set ?ps. 0 \<le> p" "\<forall>p\<in>set ?rs. 0 \<le> p" "?ps \<noteq> []" "?rs \<noteq> []" using assms(2,3) by auto
  have sa: "shard_addresses ud ?co = map node_url ?ps"
    using address_list_join [OF assms(1) pos(1,3)] by (simp add: shard_addresses_def coordinator_environment_def urls)
  have ra: "replica_addresses ud ?co = (if replicated then map (\<lambda>p. [node_url p]) ?rs else [])"
    using replica_addresses_join [OF assms(1) pos(2,4)] by (auto simp: coordinator_environment_def urls replica_addresses_def py_strip_def)
  have dist: "distinct (map node_url ?ps @ (if replicated then map node_url ?rs else []))"
    using assms(3,4) by (auto simp: distinct_map inj_on_def node_url_inj)
  have check: "check_coordinator ud ?co = Inr ()"
    by (rule check_coordinatorI [OF sa, of "if replicated then map node_url ?rs else []"])
      (use ra dist assms(2) in \<open>simp_all only: if_split, simp_all add: coordinator_environment_def comp_def\<close>)
  have own: "own_replica_addresses ud (primary_environment shards base_port replicated data_dir i) = (if replicated then [replica_urls shards base_port replicated ! i] else [])"
    if "i < shards" for i
  proof (cases replicated)
    case True
    then have "se_replica_urls (primary_environment shards base_port replicated data_dir i) = py_join [semicolon] (map node_url [base_port + 100 + int i])"
      by (simp add: primary_environment_def)
    from replica_addresses_join [OF assms(1) _ _ this] show ?thesis
      using assms(3) that True by (simp add: own_replica_addresses_def replica_urls_def)
  next
    case False
    then show ?thesis by (simp add: own_replica_addresses_def replica_addresses_def primary_environment_def py_strip_def)
  qed
  have acc: "mk_settings ud ?co = Inr ?co" using check assms(2)
    by (simp add: mk_settings_def check_topology_def coordinator_environment_def default_settings_def)
  have shard: "mk_settings ud (primary_environment shards base_port replicated data_dir i) = Inr (primary_environment shards base_port replicated data_dir i)"
    "mk_settings ud (replica_environment shards base_port data_dir i) = Inr (replica_environment shards base_port data_dir i)"
    "se_primary_url (replica_environment shards base_port data_dir i) = shard_urls shards base_port ! i" if "i < shards" for i
    using that by (simp_all add: mk_settings_def check_topology_def primary_environment_def replica_environment_def default_settings_def)
  have "mk_settings ud st = Inr st" if "(port, st) \<in> set (snd (launch shards base_port coordinator_port replicated data_dir ready))" for port st
    using that acc shard by (auto simp: launch_def Let_def replica_urls_def split: if_splits)
  then show ?thesis using sa ra own shard(3) urls by auto
qed

text \<open>C40. Waiting ends: over a monotonic clock that the pauses advance, \<open>wait_until_ready\<close> returns, whatever the
  node does, after at most five probes per second of the timeout and one more, none of them begun after the deadline. It returns
  \<open>True\<close> exactly if a probe begun before the deadline, the first that is decisive, is answered with 200; an
  exception it does not catch ends it; it returns \<open>False\<close> exactly if it reads a clock at or past the deadline,
  which it reads at most one round (a probe and a pause) late.\<close>

theorem wait_until_ready_ends:
  assumes "sleeps clock" "0 \<le> timeout"
  shows "\<exists>k r. wait_until_ready clock probes timeout = Some r \<and> of_nat k \<le> 5 * timeout + 1
    \<and> (\<forall>j<k. clock (Suc j) < clock 0 + timeout \<and> (probes j = Caught \<or> (\<exists>status. probes j = Answered status \<and> status \<noteq> 200)))
    \<and> (r = Inr True \<longleftrightarrow> clock (Suc k) < clock 0 + timeout \<and> probes k = Answered 200)
    \<and> (\<forall>e. r = Inl e \<longleftrightarrow> clock (Suc k) < clock 0 + timeout \<and> probes k = Raised e)
    \<and> (r = Inr False \<longleftrightarrow> clock 0 + timeout \<le> clock (Suc k))
    \<and> (\<forall>round. 0 < k \<longrightarrow> (\<forall>j. clock (Suc (Suc j)) \<le> clock (Suc j) + round) \<longrightarrow> clock (Suc k) < clock 0 + timeout + round)"
proof -
  let ?deadline = "clock 0 + timeout"
  let ?stop = "\<lambda>k. \<not> (clock (Suc k) < ?deadline \<and> \<not> ends (probes k))"
  let ?n = "nat \<lceil>5 * timeout\<rceil>"
  have n: "5 * timeout \<le> of_nat ?n" "of_nat ?n \<le> 5 * timeout + 1" using assms(2) by linarith+
  have "?stop ?n" using sleeps_advance [OF assms(1), of ?n] n(1) by (simp add: field_simps)
  from ex_least_nat_le [of ?stop, OF this] obtain k where k: "?stop k" "\<forall>j<k. \<not> ?stop j" "k \<le> ?n" by blast
  then have bound: "(of_nat k :: rat) \<le> 5 * timeout + 1" using n(2) of_nat_mono [OF k(3), where ?'a = rat] by linarith
  let ?r = "if clock (Suc k) < ?deadline then (case probes k of Raised e \<Rightarrow> Inl e | _ \<Rightarrow> Inr True) else Inr False"
  have "wait_until_ready clock probes timeout = wait_loop (\<lambda>k. clock (Suc k)) probes ?deadline k"
    unfolding wait_until_ready_def by (rule wait_loop_until) (use k(2) in auto)
  also have "\<dots> = Some ?r"
    using k(1) by (subst wait_loop.simps) (auto simp: ends_def split: probe.split)
  finally have run: "wait_until_ready clock probes timeout = Some ?r" .
  have again: "clock (Suc j) < ?deadline \<and> (probes j = Caught \<or> (\<exists>status. probes j = Answered status \<and> status \<noteq> 200))" if "j < k" for j
    using k(2) that by (cases "probes j") (auto simp: ends_def)
  have last: "clock (Suc k) < ?deadline + round" if pos: "0 < k" and late: "\<forall>j. clock (Suc (Suc j)) \<le> clock (Suc j) + round" for round
  proof -
    obtain j where j: "k = Suc j" using pos gr0_conv_Suc by blast
    have "clock k < ?deadline" using again [of j] j by simp
    with late [rule_format, of j] j show ?thesis by simp
  qed
  have "?r = Inr True \<longleftrightarrow> clock (Suc k) < ?deadline \<and> probes k = Answered 200" "?r = Inr False \<longleftrightarrow> ?deadline \<le> clock (Suc k)"
    "?r = Inl e \<longleftrightarrow> clock (Suc k) < ?deadline \<and> probes k = Raised e" for e
    using k(1) by (cases "probes k"; auto simp: ends_def)+
  with run bound again last show ?thesis by (intro exI [of _ k] exI [of _ ?r]) blast
qed

theorem wait_until_ready_ends_witness:
  "wait_until_ready (\<lambda>k. of_nat k) (\<lambda>k. if k = 3 then Answered 200 else Caught) 30 = Some (Inr True)"
proof -
  let ?probes = "\<lambda>k. if k = (3::nat) then Answered 200 else Caught"
  have "sleeps (\<lambda>k. of_nat k)" "(0::rat) \<le> 30" by (simp_all add: sleeps_def)
  from wait_until_ready_ends [OF this, of ?probes] obtain k r where
    w: "wait_until_ready (\<lambda>k. of_nat k) ?probes 30 = Some r"
    and before: "\<forall>j<k. of_nat (Suc j) < of_nat 0 + (30::rat) \<and> (?probes j = Caught \<or> (\<exists>status. ?probes j = Answered status \<and> status \<noteq> 200))"
    and r: "r = Inr True \<longleftrightarrow> of_nat (Suc k) < of_nat 0 + (30::rat) \<and> ?probes k = Answered 200"
      "\<forall>e. r = Inl e \<longleftrightarrow> of_nat (Suc k) < of_nat 0 + (30::rat) \<and> ?probes k = Raised e" "r = Inr False \<longleftrightarrow> of_nat 0 + (30::rat) \<le> of_nat (Suc k)"
    by blast
  have k: "k \<le> 3" using before [rule_format, of 3] by (cases "k \<le> 3") auto
  then have s: "of_nat (Suc k) < (30::rat)" by simp
  show ?thesis
  proof (cases r)
    case (Inl e)
    then show ?thesis using r(2) by (auto split: if_splits)
  next
    case (Inr b)
    then show ?thesis using w r(3) s by (cases b) auto
  qed
qed

theorem launched_cluster_consistent_witness:
  "list_all (\<lambda>(port, st). mk_settings ascii_unicode st = Inr st) (snd (launch 2 9000 8000 True [] (\<lambda>_. True)))
    \<and> shard_addresses ascii_unicode (coordinator_environment 2 9000 True) = [node_url 9000, node_url 9001]
    \<and> replica_addresses ascii_unicode (coordinator_environment 2 9000 True) = [[node_url 9100], [node_url 9101]]"
proof -
  have "printable_ascii ascii_unicode" by (simp add: printable_ascii_def ascii_unicode_def)
  from launched_cluster_consistent [OF this, of 2 9000 True 8000 "[]" "\<lambda>_. True"] show ?thesis
    by (simp add: shard_urls_def replica_urls_def upt_rec list_all_iff)
qed

text \<open>With more shards than that, a primary is given the address of a replica, and the coordinator refuses to
  start.\<close>

lemma too_many_shards:
  assumes "printable_ascii ud" "100 < shards" "0 \<le> base_port"
  shows "mk_settings ud (coordinator_environment shards base_port True) = Inl ValueError"
proof -
  let ?co = "coordinator_environment shards base_port True"
  let ?ps = "map (\<lambda>i. base_port + int i) [0..<shards]" and ?rs = "map (\<lambda>i. base_port + 100 + int i) [0..<shards]"
  have urls: "shard_urls shards base_port = map node_url ?ps" "replica_urls shards base_port True = map node_url ?rs"
    by (simp_all add: shard_urls_def replica_urls_def)
  have pos: "\<forall>p\<in>set ?ps. 0 \<le> p" "\<forall>p\<in>set ?rs. 0 \<le> p" "?ps \<noteq> []" "?rs \<noteq> []" using assms(2,3) by auto
  have sa: "shard_addresses ud ?co = map node_url ?ps"
    using address_list_join [OF assms(1) pos(1,3)] by (simp add: shard_addresses_def coordinator_environment_def urls)
  have ra: "replica_addresses ud ?co = map (\<lambda>p. [node_url p]) ?rs"
    by (rule replica_addresses_join [OF assms(1) pos(2,4)]) (simp add: coordinator_environment_def urls)
  have "base_port + 100 \<in> set ?ps" "base_port + 100 \<in> set ?rs" using assms(2) by (auto intro: image_eqI [of _ _ 100] image_eqI [of _ _ 0])
  then have "node_url (base_port + 100) \<in> set (map node_url ?ps) \<inter> set (concat (map (\<lambda>p. [node_url p]) ?rs))" by force
  then have "\<not> distinct (shard_addresses ud ?co @ concat (replica_addresses ud ?co))" unfolding sa ra distinct_append by blast
  then have no: "mk_settings ud ?co \<noteq> Inr st" for st using mk_settings_coordinator(4) [of ud ?co st] by (auto simp: coordinator_environment_def)
  have "mk_settings ud ?co = Inl e \<Longrightarrow> e = ValueError" for e
    by (auto simp: mk_settings_def check_topology_def check_coordinator_def Let_def coordinator_environment_def
        split: if_splits)
  with no show ?thesis by (cases "mk_settings ud ?co") auto
qed

end
