(* ===== verification/Validation.thy ===== *)
theory Validation
  imports Engine_Queries
begin

text \<open>
  \<open>SearchEngine.validate\<close>: exactly which disagreements between the derived state and storage it finds, on a store that answers.
\<close>

section \<open>The steps of a validation\<close>

text \<open>What validation says of the engine: the cache is the stored corpus, and the index and the vector index stand for some
  values of exactly its documents. It does not analyse or embed the texts again.\<close>

definition vectors_valid :: "'f::linorder numpy \<Rightarrow> 'f vector_index option \<Rightarrow> pystr set \<Rightarrow> bool" where
  "vectors_valid np vectors ids \<longleftrightarrow> (case vectors of None \<Rightarrow> True
     | Some v \<Rightarrow> (\<exists>V. vec_repr (vi_dimension v) v V \<and> dom V = ids)
         \<and> list_all (\<lambda>row. list_all (np_isfinite np) row \<and> \<not> vec_row_offends np row) (take (length (vi_ids v)) (mx_rows (vi_matrix v))))"

definition derived_shape :: "'f engine \<Rightarrow> bool" where
  "derived_shape en \<longleftrightarrow> index_shape (en_index en) \<and> dict_ok (en_documents en) \<and> list_all (\<lambda>(d, doc). document_id doc = d) (en_documents en)
     \<and> (case en_vectors en of None \<Rightarrow> True | Some v \<Rightarrow> dict_ok (vi_positions v)
          \<and> list_all (\<lambda>r. length r = mx_width (vi_matrix v)) (mx_rows (vi_matrix v)) \<and> length (vi_ids v) \<le> length (mx_rows (vi_matrix v)))"

lemma vec_repr_ids: "vec_repr w v V \<Longrightarrow> dom V = vec_document_ids v"
  unfolding vec_document_ids_def set_dkeys_dom by (auto simp: vec_repr_def dom_def)

lemma validate_vectors_iff:
  assumes "derived_shape en" "en_vectors en = Some v"
  shows "vec_validate (rt_numpy rt) v = Inr () \<and> vec_document_ids v = ids \<longleftrightarrow> vectors_valid (rt_numpy rt) (Some v) ids"
proof -
  have "dict_ok (vi_positions v)" "\<forall>r\<in>set (mx_rows (vi_matrix v)). length r = mx_width (vi_matrix v)" "length (vi_ids v) \<le> length (mx_rows (vi_matrix v))"
    using assms by (auto simp: derived_shape_def list_all_iff)
  from vec_validate_iff [OF this, of "rt_numpy rt"] show ?thesis
    unfolding vectors_valid_def option.case using vec_repr_ids by blast
qed

lemma validate_index_iff:
  assumes "derived_shape en"
  shows "index_validate (en_index en) = Inr () \<and> index_document_ids (en_index en) = ids \<longleftrightarrow> (\<exists>M. index_repr (en_index en) M \<and> dom M = ids)"
proof -
  have "index_validate (en_index en) = Inr () \<longleftrightarrow> (\<exists>M. index_repr (en_index en) M)"
    using assms repr_validates validates_repr by (auto simp: derived_shape_def)
  moreover have "index_document_ids (en_index en) = dom M" if "index_repr (en_index en) M" for M
    using index_repr_dom [OF that] by (simp only: index_document_ids_def set_dkeys_dom)
  ultimately show ?thesis by blast
qed

lemma ebind_unit_iff: "ebind m f = Inr () \<longleftrightarrow> m = Inr () \<and> f () = Inr ()" for m :: "unit res"
  by (cases m) auto

lemma validate_derived_iff:
  assumes "derived_shape en"
  shows "validate_derived rt en = Inr () \<longleftrightarrow> (\<exists>M. index_repr (en_index en) M \<and> dom M = set (dkeys (en_documents en)))
    \<and> vectors_valid (rt_numpy rt) (en_vectors en) (set (dkeys (en_documents en)))"
proof -
  let ?ids = "set (dkeys (en_documents en))"
  have "validate_derived rt en = Inr () \<longleftrightarrow> (index_validate (en_index en) = Inr () \<and> index_document_ids (en_index en) = ?ids)
      \<and> (case en_vectors en of None \<Rightarrow> True | Some v \<Rightarrow> vec_validate (rt_numpy rt) v = Inr () \<and> vec_document_ids v = ?ids)"
    by (auto simp: validate_derived_def ebind_unit_iff split: option.split)
  also have "(case en_vectors en of None \<Rightarrow> True | Some v \<Rightarrow> vec_validate (rt_numpy rt) v = Inr () \<and> vec_document_ids v = ?ids)
      \<longleftrightarrow> vectors_valid (rt_numpy rt) (en_vectors en) ?ids"
    using validate_vectors_iff [OF assms, of _ rt ?ids] by (cases "en_vectors en") (simp_all add: vectors_valid_def)
  finally show ?thesis by (simp only: validate_index_iff [OF assms])
qed

text \<open>The cache holds every stored text and as many documents as the store: it is the corpus.\<close>

lemma cached_documents_iff:
  assumes "store_ok ud con" "dict_ok docs" "list_all (\<lambda>(d, doc). document_id doc = d) docs"
  shows "length (db_documents (con_durable con)) = length docs \<and> efold (validate_cached docs) (store_docs con) () = Inr ()
    \<longleftrightarrow> docs_repr docs (fst (store_content con))" (is "?len \<and> ?cached \<longleftrightarrow> _")
proof -
  let ?C = "fst (store_content con)"
  have ids: "document_id doc = d" if "map_of docs d = Some doc" for d doc
    using assms(3) map_of_SomeD [OF that] by (auto simp: list_all_iff)
  have one: "validate_cached docs \<lparr>document_id = d, doc_text = t\<rparr> () = Inr () \<longleftrightarrow> map_of docs d = Some \<lparr>document_id = d, doc_text = t\<rparr>" for d t
  proof (cases "map_of docs d")
    case (Some doc)
    with ids [OF this] show ?thesis by (cases doc) (simp add: validate_cached_def)
  qed (simp add: validate_cached_def)
  have C: "?C = map_of (db_documents (con_durable con))" "dict_ok (db_documents (con_durable con))"
    using assms(1) by (simp_all add: store_content_def store_ok_def)
  have "?cached \<longleftrightarrow> (\<forall>doc\<in>set (store_docs con). validate_cached docs doc () = Inr ())"
    using efold_unit_iff [of "\<lambda>doc. validate_cached docs doc ()" "store_docs con"] by simp
  also have "\<dots> \<longleftrightarrow> (\<forall>d t. ?C d = Some t \<longrightarrow> validate_cached docs \<lparr>document_id = d, doc_text = t\<rparr> () = Inr ())"
    unfolding C(1) store_docs_def set_map set_sort ball_simps by (simp only: Ball_def split_paired_All prod.case dict_in_set [OF C(2)])
  finally have cached: "?cached \<longleftrightarrow> (\<forall>d t. ?C d = Some t \<longrightarrow> map_of docs d = Some \<lparr>document_id = d, doc_text = t\<rparr>)" unfolding one .
  have len: "?len \<longleftrightarrow> card (dom ?C) = card (dom (map_of docs))" using dict_length [OF C(2)] dict_length [OF assms(2)] C(1) by simp
  show ?thesis
  proof
    assume "?len \<and> ?cached"
    then have c: "\<And>d t. ?C d = Some t \<Longrightarrow> map_of docs d = Some \<lparr>document_id = d, doc_text = t\<rparr>" "card (dom ?C) = card (dom (map_of docs))"
      using cached len by blast+
    then have "dom ?C \<subseteq> dom (map_of docs)" by blast
    then have "dom ?C = dom (map_of docs)" using c(2) by (intro card_subset_eq) (simp_all add: finite_dom_map_of)
    then have "map_of docs d = map_option (\<lambda>t. \<lparr>document_id = d, doc_text = t\<rparr>) (?C d)" for d
      using c(1) [of d] by (cases "?C d") auto
    then show "docs_repr docs ?C" using assms(2) by (auto simp: docs_repr_def)
  next
    assume r: "docs_repr docs ?C"
    then have "dom (map_of docs) = dom ?C" using docs_repr_dom [OF r] by (simp only: set_dkeys_dom)
    then show "?len \<and> ?cached" using r cached len by (simp add: docs_repr_def)
  qed
qed

lemma calm_count: "calm con \<Longrightarrow> store_ok ud con \<Longrightarrow> store_count con = (Inr (int (length (db_documents (con_durable con)))), con)"
  by (simp add: store_count_def calm_select store_ok_def)

lemma validate_run:
  assumes "store_ok (rt_unicode rt) (en_store en)" "calm (en_store en)"
  shows "engine_validate rt en = (ebind (validate_derived rt en) (\<lambda>_.
     if snd (store_content (en_store en)) \<noteq> en_generation en then Inl IndexInvariantError
     else if int (length (db_documents (con_durable (en_store en)))) \<noteq> int (length (en_documents en)) then Inl IndexInvariantError
     else efold (validate_cached (en_documents en)) (store_docs (en_store en)) ()), en)"
  using assms by (cases "validate_derived rt en")
    (simp_all add: engine_validate_def sbind_def on_store_def calm_generation calm_count calm_for_documents)

lemma validate_accepts:
  assumes "store_ok (rt_unicode rt) (en_store en)" "calm (en_store en)" "derived_shape en"
  shows "snd (engine_validate rt en) = en
    \<and> (fst (engine_validate rt en) = Inr () \<longleftrightarrow> docs_repr (en_documents en) (engine_corpus en)
        \<and> (\<exists>M. index_repr (en_index en) M \<and> dom M = dom (engine_corpus en))
        \<and> vectors_valid (rt_numpy rt) (en_vectors en) (dom (engine_corpus en)) \<and> en_generation en = snd (store_content (en_store en)))
    \<and> (engine_consistent rt en \<and> en_embedder en = None \<longrightarrow> fst (engine_validate rt en) = Inr ())"
proof -
  let ?C = "engine_corpus en" and ?ids = "set (dkeys (en_documents en))"
  have shape: "dict_ok (en_documents en)" "list_all (\<lambda>(d, doc). document_id doc = d) (en_documents en)"
    using assms(3) by (simp_all add: derived_shape_def)
  have dom: "?ids = dom ?C" if "docs_repr (en_documents en) ?C" using docs_repr_dom [OF that] .
  have run: "fst (engine_validate rt en) = Inr () \<longleftrightarrow> validate_derived rt en = Inr () \<and> en_generation en = snd (store_content (en_store en))
      \<and> docs_repr (en_documents en) ?C"
    using cached_documents_iff [OF assms(1) shape] validate_run [OF assms(1,2)] by (auto simp: ebind_unit_iff engine_corpus_def)
  have iff: "fst (engine_validate rt en) = Inr () \<longleftrightarrow> docs_repr (en_documents en) ?C
      \<and> (\<exists>M. index_repr (en_index en) M \<and> dom M = dom ?C)
      \<and> vectors_valid (rt_numpy rt) (en_vectors en) (dom ?C) \<and> en_generation en = snd (store_content (en_store en))"
    unfolding run validate_derived_iff [OF assms(3)] using dom by auto
  have "fst (engine_validate rt en) = Inr ()" if "engine_consistent rt en" "en_embedder en = None"
    using that token_corpus_dom [of "rt_unicode rt" ?C] unfolding iff
    by (auto simp: engine_consistent_def derived_repr_def vectors_repr_def vectors_valid_def)
  moreover have "snd (engine_validate rt en) = en" by (simp add: validate_run [OF assms(1,2)])
  ultimately show ?thesis using iff by blast
qed

lemma consistent_shape:
  assumes "engine_consistent rt en" "en_embedder en = None"
  shows "derived_shape en"
proof -
  have "document_id doc = d" if "(d, doc) \<in> set (en_documents en)" for d doc
  proof -
    have r: "docs_repr (en_documents en) (engine_corpus en)" using assms(1) by (simp add: engine_consistent_def derived_repr_def)
    then have "map_of (en_documents en) d = Some doc" using that by (intro map_of_is_SomeI) (simp_all add: docs_repr_def)
    then show ?thesis using r by (auto simp: docs_repr_def)
  qed
  then show ?thesis using assms
    by (auto simp: derived_shape_def engine_consistent_def derived_repr_def docs_repr_def vectors_repr_def list_all_iff intro: index_repr_shape)
qed

text \<open>It does not notice an index that was built from other texts of the same documents.\<close>

lemma validate_misses_tokens:
  assumes "engine_consistent rt en" "en_embedder en = None" "store_ok (rt_unicode rt) (en_store en)" "calm (en_store en)"
    and "index_repr ix M" "dom M = dom (engine_corpus en)"
  shows "fst (engine_validate rt (en\<lparr>en_index := ix\<rparr>)) = Inr ()"
proof -
  let ?en = "en\<lparr>en_index := ix\<rparr>"
  have "derived_shape ?en"
    using consistent_shape [OF assms(1,2)] index_repr_shape [OF assms(5)] by (simp add: derived_shape_def)
  from validate_accepts [of rt ?en, OF _ _ this] assms show ?thesis
    by (auto simp: engine_consistent_def derived_repr_def engine_corpus_def vectors_repr_def vectors_valid_def)
qed

section \<open>Properties\<close>

text \<open>C34. \<open>SearchEngine.validate\<close> is exact: on a store that answers it changes nothing, and it accepts precisely the engines whose
  document cache is the durable corpus, whose index and vector index stand for some tokens and some vectors of exactly
  its documents, and whose generation is the durable one. A \<open>READY\<close> lexical engine always passes.\<close>

theorem engine_validate_exact:
  assumes "store_ok (rt_unicode rt) (en_store en)" "calm (en_store en)" "derived_shape en"
  shows "snd (engine_validate rt en) = en
    \<and> (fst (engine_validate rt en) = Inr () \<longleftrightarrow> docs_repr (en_documents en) (engine_corpus en)
        \<and> (\<exists>M. index_repr (en_index en) M \<and> dom M = dom (engine_corpus en))
        \<and> vectors_valid (rt_numpy rt) (en_vectors en) (dom (engine_corpus en)) \<and> en_generation en = snd (store_content (en_store en)))
    \<and> (engine_consistent rt en \<and> en_embedder en = None \<longrightarrow> fst (engine_validate rt en) = Inr ())"
  by (rule validate_accepts [OF assms])

theorem engine_validate_exact_witness:
  "fst (engine_validate real_runtime ready_engine) = Inr ()"
  using engine_validate_exact [OF engine_invD(1) [OF ready_engine_facts(1)] ready_engine_facts(3)
      consistent_shape [OF ready_engine_facts(7,4)]] ready_engine_facts(4,7) by blast

end
