(* ===== verification/Restart.thy ===== *)
theory Restart
  imports Application Validation
begin

text \<open>
  Stopping a node and starting it again: what \<open>SearchEngine.close\<close> leaves on disk and what the startup of \<open>app/main.py\<close> makes of
  it. The derived state is rebuilt in the order of the store, not in the order of the writes; no lexical answer depends
  on it, and vectors are embedded again.
\<close>

section \<open>Answers are functions of the corpus\<close>

lemma index_repr_terms_count:
  assumes "index_repr ix M"
  shows "index_unique_term_count ix = int (card {t. \<exists>d toks. M d = Some toks \<and> t \<in> set toks})"
proof -
  have "t \<in> dom (map_of (ix_postings ix)) \<longleftrightarrow> (\<exists>d toks. M d = Some toks \<and> t \<in> set toks)" for t
  proof
    assume "t \<in> dom (map_of (ix_postings ix))"
    then obtain m where m: "map_of (ix_postings ix) t = Some m" by blast
    then have "m \<noteq> []" using assms unfolding index_repr_def by blast
    then obtain d f where "map_of m d = Some f" by (metis dhas_iff list.exhaust list.map(2) list.set_intros(1) not_None_eq)
    then have "posting_of ix t d = Some f" using m by (simp add: posting_of_def index_posting_map_def dget_or_def)
    then show "\<exists>d toks. M d = Some toks \<and> t \<in> set toks"
      using assms by (auto simp: index_repr_def corpus_posting_def split: option.splits if_splits)
  next
    assume "\<exists>d toks. M d = Some toks \<and> t \<in> set toks"
    then obtain d toks where "M d = Some toks" "t \<in> set toks" by blast
    then have "posting_of ix t d = Some (int (count_list toks t))" using assms by (simp add: index_repr_def corpus_posting_def)
    then show "t \<in> dom (map_of (ix_postings ix))" by (auto simp: posting_of_def index_posting_map_def dget_or_def split: option.splits)
  qed
  then have "dom (map_of (ix_postings ix)) = {t. \<exists>d toks. M d = Some toks \<and> t \<in> set toks}" by blast
  then show ?thesis using dict_length [OF index_shapeD(1) [OF index_repr_shape [OF assms]]] by (simp add: index_unique_term_count_def)
qed

lemma index_stats_of_corpus:
  assumes "index_repr ix M" "index_repr ix' M"
  shows "index_get_stats fo ix = index_get_stats fo ix'"
proof -
  have c: "index_document_count ix = index_document_count ix'" "ix_total_length ix = ix_total_length ix'" "index_unique_term_count ix = index_unique_term_count ix'"
    using assms by (simp_all add: index_repr_count index_repr_total index_repr_terms_count)
  have "ix_document_lengths i = [] \<longleftrightarrow> index_document_count i = 0" for i by (simp add: index_document_count_def)
  then show ?thesis using c by (simp add: index_get_stats_def index_average_document_length_def)
qed

lemma engine_stats_of_corpus:
  assumes "engine_inv rt en" "en_state en = READY" "engine_inv rt en'" "en_state en' = READY" "engine_corpus en' = engine_corpus en"
  shows "engine_stats rt en' = engine_stats rt en"
  using index_stats_of_corpus [of "en_index en'" "token_corpus (rt_unicode rt) (engine_corpus en)" "en_index en" "rt_float rt"]
    engine_invD(3) [OF assms(1,2)] engine_invD(3) [OF assms(3,4)] assms(2,4,5)
  by (simp add: engine_consistent_def derived_repr_def engine_stats_def require_operational_def)

lemma engine_search_of_corpus:
  assumes "engine_inv rt en" "en_state en = READY" "engine_inv rt en'" "en_state en' = READY" "engine_corpus en' = engine_corpus en"
    and "en_scorer en' = en_scorer en" "bm25_arithmetic (rt_float rt) (en_scorer en)" "0 \<le> limit"
  shows "engine_search rt en' query limit None = engine_search rt en query limit None"
proof -
  let ?stats = "index_corpus_stats (en_index en) (analyze (rt_unicode rt) query)"
  have d: "stats_describe (rt_unicode rt) (engine_corpus en) (analyze (rt_unicode rt) query) ?stats"
    by (rule consistent_stats [OF engine_invD(3) [OF assms(1,2)]])
  show ?thesis using engine_search_page [OF assms(1,2,7,8) d] engine_search_page [of rt en' limit query ?stats] assms d by simp
qed

section \<open>Starting where nothing fails\<close>

lemma open_calm: "store_open in_memory db [] = (Inr con, db1) \<Longrightarrow> calm con"
  unfolding calm_def store_open_def wrap_sqlite_def with_connection_def db_select_def db_modify_def set_generation_def os_call_def
    db_exec_def db_commit_def sbind_def schema_statements_def by (auto split: if_splits)

lemma start_engine_works:
  assumes db: "disk_ok (rt_unicode rt) db" and e: "case eo of None \<Rightarrow> True | Some e \<Rightarrow> embedder_works (rt_numpy rt) e"
  obtains en where "start_engine rt st (Inr eo) db [] = (Inr en, con_durable (en_store en))" "engine_inv rt en" "en_state en = READY"
    "store_content (en_store en) = disk_content db" "en_embedder en = eo" "en_scorer en = default_bm25_params (rt_float rt)" "calm (en_store en)"
proof -
  let ?memory = "se_storage_path st = ustr '':memory:''"
  from store_open_cases [of ?memory db "[]"] obtain con where con: "store_open ?memory db [] = (Inr con, con_durable con)" "con_working con = con_durable con"
    "con_durable con = db\<lparr>db_generation := Some (case db_generation db of None \<Rightarrow> 0 | Some g \<Rightarrow> g)\<rparr>" by auto
  have ok: "store_ok (rt_unicode rt) con" and calm: "calm con"
    using con db open_calm [of ?memory db con] by (simp_all add: store_ok_def disk_ok_def)
  have content: "store_content con = disk_content db" using store_disk(2) [OF ok] con(3) by (simp add: disk_content_def)
  obtain en where init: "engine_init rt con None eo = Inr en"
    using e by (cases eo) (auto simp: engine_init_def vec_init_def embedder_works_def)
  then have en: "en_store en = con" "en_embedder en = eo" "en_scorer en = default_bm25_params (rt_float rt)"
    by (auto simp: engine_init_def ebind_Inr_iff)
  have inv: "engine_inv rt en" using engine_init_inv [OF init ok] e by (auto simp: embedder_works_def split: option.splits)
  from initialize_cases [OF inv] obtain r en1 where i: "engine_initialize rt en = (r, en1)" "engine_inv rt en1"
      "store_content (en_store en1) = store_content (en_store en)" "en_scorer en1 = en_scorer en" "en_embedder en1 = en_embedder en" by blast
  from initialize_ready [OF inv] calm e en i(1) have r: "\<exists>report. r = Inr report" "en_state en1 = READY" by auto
  have "en_store en1 = con" using calm_initialize [of rt en] i(1) ok calm e en by simp
  with calm show thesis
    by (intro that [of en1]) (use i r con init content en in \<open>auto simp: start_engine_def\<close>)
qed

lemma close_durable: "con_durable (en_store (snd (engine_close en))) = con_durable (en_store en)"
  by (auto simp: engine_close_def sbind_def set_state_def st_defs on_store_def store_close_def wrap_sqlite_def split: prod.splits sum.splits)

lemma engine_semantic_ready:
  assumes "engine_inv rt en" "en_state en = READY" "en_embedder en = Some e"
    and "vec_ok (rt_numpy rt) (si_dimension (em_identity e)) q" "1 \<le> limit"
  shows "engine_semantic_search rt en q limit =
    Inr (ranked_page (engine_corpus en) (similarity (rt_numpy rt) (vec_val (rt_numpy rt) q) (stored_vectors en)) limit)"
  using semantic_page [OF engine_invD(3) [OF assms(1,2)] assms(3-5)] assms(2)
  by (simp add: engine_semantic_search_def require_operational_def)

section \<open>A node that serves\<close>

text \<open>What a script that drives an engine can rely on while storage answers and the embedder works.\<close>

definition serving :: "'f::linorder runtime \<Rightarrow> 'f embedder option \<Rightarrow> (pystr \<rightharpoonup> pystr) \<Rightarrow> int \<Rightarrow> 'f engine \<Rightarrow> bool" where
  "serving rt eo C g en \<longleftrightarrow> engine_inv rt en \<and> en_state en = READY \<and> calm (en_store en) \<and> en_embedder en = eo
     \<and> en_scorer en = default_bm25_params (rt_float rt) \<and> engine_corpus en = C \<and> en_generation en = g"

definition works :: "'f::linorder runtime \<Rightarrow> 'f embedder option \<Rightarrow> bool" where
  "works rt eo \<longleftrightarrow> (case eo of None \<Rightarrow> True | Some e \<Rightarrow> embedder_works (rt_numpy rt) e)"

lemma serving_content: "serving rt eo C g en \<Longrightarrow> store_content (en_store en) = (C, g)"
  using engine_invD(3) [of rt en] by (auto simp: serving_def engine_consistent_def engine_corpus_def prod_eq_iff)

lemma serving_disk: "serving rt eo C g en \<Longrightarrow> disk_ok (rt_unicode rt) (con_durable (en_store en)) \<and> disk_content (con_durable (en_store en)) = (C, g)"
  using store_disk [of "rt_unicode rt" "en_store en"] engine_invD(1) [of rt en] serving_content [of rt eo C g en] by (simp add: serving_def)

lemma serving_start:
  assumes "disk_ok (rt_unicode rt) db" "works rt eo" "disk_content db = (C, g)"
  obtains en where "start_engine rt st (Inr eo) db [] = (Inr en, con_durable (en_store en))" "serving rt eo C g en"
proof -
  from start_engine_works [OF assms(1) assms(2) [unfolded works_def], of st] obtain en where
    s: "start_engine rt st (Inr eo) db [] = (Inr en, con_durable (en_store en))" "engine_inv rt en" "en_state en = READY"
      "store_content (en_store en) = disk_content db" "en_embedder en = eo" "en_scorer en = default_bm25_params (rt_float rt)" "calm (en_store en)" .
  then have "serving rt eo C g en" using engine_invD(3) [OF s(2,3)] assms(3) by (simp add: serving_def engine_consistent_def engine_corpus_def)
  with s(1) show thesis by (rule that)
qed

lemma serving_index:
  assumes "serving rt eo C g en" "works rt eo" "valid_id (rt_unicode rt) d"
  obtains en' where "engine_index_document rt \<lparr>document_id = d, doc_text = t\<rparr> en = (Inr (C d = None), en')" "serving rt eo (C(d \<mapsto> t)) (g + 1) en'"
proof -
  let ?doc = "\<lparr>document_id = d, doc_text = t\<rparr>"
  have en: "engine_inv rt en" "en_state en = READY" "calm (en_store en)" "case en_embedder en of None \<Rightarrow> True | Some e \<Rightarrow> embedder_works (rt_numpy rt) e"
    using assms(1,2) by (auto simp: serving_def works_def)
  from index_document_cases [OF en(1), of ?doc] assms(3) obtain r en' where
    i: "engine_index_document rt ?doc en = (r, en')" "engine_inv rt en'" "en_scorer en' = en_scorer en" "en_embedder en' = en_embedder en"
      "mutation_outcome (engine_corpus en) (en_generation en) ((engine_corpus en)(d \<mapsto> t)) (en_generation en + 1)
         (en_state en) (engine_corpus en') (en_generation en') (en_state en') r"
      "\<forall>created. r = Inr created \<longrightarrow> created = (engine_corpus en d = None)" by auto
  moreover obtain created where r: "r = Inr created" using index_document_works(1) [OF en, of ?doc] i(1) by auto
  moreover have "calm (en_store en')" using index_document_works(2) [OF en, of ?doc] i(1) by simp
  ultimately have "serving rt eo (C(d \<mapsto> t)) (g + 1) en'" "created = (C d = None)" using assms(1) by (simp_all add: serving_def mutation_outcome_def)
  then show thesis using i(1) r by (intro that [of en']) simp_all
qed

lemma calm_delete:
  assumes "calm con"
  shows "fst (store_delete d g con) = Inr (dhas (db_documents (con_working con)) d)" "calm (snd (store_delete d g con))"
  using assms unfolding calm_def store_delete_def wrap_sqlite_def with_connection_def db_modify_def set_generation_def
    db_exec_def db_commit_def sbind_def by simp_all

lemma serving_delete:
  assumes "serving rt eo C g en" "C d \<noteq> None"
  obtains en' where "engine_delete_document d en = (Inr (), en')" "serving rt eo (C(d := None)) (g + 1) en'"
proof -
  have en: "engine_inv rt en" "en_state en = READY" "calm (en_store en)" "engine_corpus en = C" using assms(1) by (simp_all add: serving_def)
  from delete_document_cases [OF en(1), of d] obtain r en' where
    i: "engine_delete_document d en = (r, en')" "engine_inv rt en'" "en_scorer en' = en_scorer en" "en_embedder en' = en_embedder en"
      "mutation_outcome (engine_corpus en) (en_generation en) ((engine_corpus en)(d := None)) (en_generation en + 1)
         (en_state en) (engine_corpus en') (en_generation en') (en_state en') r" by blast
  obtain b con where del: "store_delete d (en_generation en + 1) (en_store en) = (Inr b, con)" "calm con"
    using calm_delete [OF en(3), of d "en_generation en + 1"] by (cases "store_delete d (en_generation en + 1) (en_store en)") auto
  let ?en = "en\<lparr>en_store := con, en_generation := en_generation en + 1\<rparr>"
  have dr: "derived_repr rt en C" using engine_invD(3) [OF en(1,2)] en(4) by (simp add: engine_consistent_def)
  then have "derived_repr rt ?en C" by (rule derived_repr_cong) simp_all
  from remove_derived_ok [OF this assms(2)] obtain en1 where a: "same_frame ?en en1" "remove_derived d ?en = (Inr (), en1)" by blast
  have "dhas (en_documents en) d" using dr assms(2) docs_repr_has by (auto simp: derived_repr_def)
  then have run: "engine_delete_document d en = (Inr (), en1)"
    using en(2) del a(2) by (simp add: engine_delete_document_def require_operational_def sbind_def st_defs on_store_def degrade_on_failure_def)
  then have "serving rt eo (C(d := None)) (g + 1) en1"
    using i a(1) del(2) assms(1) by (simp add: serving_def mutation_outcome_def same_frame_def)
  with run show thesis by (rule that)
qed

text \<open>Loading a corpus: \<open>for document_id, text in CORPUS.items(): engine.index_document(Document(...))\<close>.\<close>

definition index_all :: "'f::linorder runtime \<Rightarrow> (pystr, pystr) dict \<Rightarrow> ('f engine, unit) st" where
  "index_all rt corpus = sfold (\<lambda>(d, t). sbind (slift (mk_document (rt_unicode rt) d t))
     (\<lambda>doc. sbind (engine_index_document rt doc) (\<lambda>_. slift (Inr ())))) corpus"

lemma serving_index_all:
  assumes "serving rt eo C g en" "works rt eo" "list_all (\<lambda>(d, t). valid_id (rt_unicode rt) d) corpus" "dict_ok corpus"
  obtains en' where "index_all rt corpus en = (Inr (), en')" "serving rt eo (C ++ map_of corpus) (g + int (length corpus)) en'"
  using assms
proof (induction corpus arbitrary: C g en thesis)
  case Nil
  then show ?case by (simp add: index_all_def)
next
  case (Cons row rows)
  obtain d t where [simp]: "row = (d, t)" by (cases row)
  have v: "valid_id (rt_unicode rt) d" using Cons.prems(4) by simp
  from Cons.prems(2,3) v obtain en1 where
    w: "engine_index_document rt \<lparr>document_id = d, doc_text = t\<rparr> en = (Inr (C d = None), en1)" "serving rt eo (C(d \<mapsto> t)) (g + 1) en1"
    by (rule serving_index)
  obtain en' where rest: "index_all rt rows en1 = (Inr (), en')" "serving rt eo (C(d \<mapsto> t) ++ map_of rows) (g + 1 + int (length rows)) en'"
    by (rule Cons.IH [OF _ w(2) Cons.prems(3)]) (use Cons.prems(4,5) in simp_all)
  have "index_all rt (row # rows) en = (Inr (), en')"
    using w(1) rest(1) v by (simp add: index_all_def sbind_def slift_def mk_document_Inr_iff [THEN iffD2])
  moreover have "map_of rows d = None" using Cons.prems(5) by (simp add: map_of_eq_None_iff)
  then have eq: "C ++ map_of (row # rows) = C(d \<mapsto> t) ++ map_of rows" by (simp add: fun_eq_iff map_add_def split: option.split)
  have "serving rt eo (C ++ map_of (row # rows)) (g + int (length (row # rows))) en'" unfolding eq using rest(2) by (simp add: add.assoc)
  ultimately show ?case by (rule Cons.prems(1))
qed

lemma serving_search:
  assumes "serving rt eo C g en" "serving rt eo' C g' en'" "bm25_arithmetic (rt_float rt) (default_bm25_params (rt_float rt))" "0 \<le> limit"
  shows "engine_search rt en' query limit None = engine_search rt en query limit None" "\<exists>page. engine_search rt en query limit None = Inr page"
proof -
  have ar: "bm25_arithmetic (rt_float rt) (en_scorer en)" and en: "engine_inv rt en" "en_state en = READY" using assms(1,3) by (simp_all add: serving_def)
  show "engine_search rt en' query limit None = engine_search rt en query limit None"
    by (rule engine_search_of_corpus) (use assms in \<open>simp_all add: serving_def\<close>)
  show "\<exists>page. engine_search rt en query limit None = Inr page"
    using engine_search_page [OF en ar assms(4) consistent_stats [OF engine_invD(3) [OF en]]] by blast
qed

lemma serving_stats:
  assumes "serving rt eo C g en" "serving rt eo' C g' en'"
  shows "engine_stats rt en' = engine_stats rt en" "\<exists>stats. engine_stats rt en = Inr stats"
  using engine_stats_of_corpus [of rt en en'] assms by (simp_all add: serving_def engine_stats_def require_operational_def)

lemma serving_validate:
  assumes "serving rt None C g en"
  shows "engine_validate rt en = (Inr (), en)"
proof -
  have c: "engine_consistent rt en" "en_embedder en = None" "store_ok (rt_unicode rt) (en_store en)" "calm (en_store en)"
    using assms engine_invD(1,3) [of rt en] by (simp_all add: serving_def)
  from validate_accepts [OF c(3,4) consistent_shape [OF c(1,2)]] c(1,2) show ?thesis by (auto simp: prod_eq_iff)
qed

lemma serving_close:
  assumes "serving rt eo C g en"
  shows "\<exists>en'. engine_close en = (Inr (), en') \<and> con_durable (en_store en') = con_durable (en_store en)"
  using assms by (simp add: serving_def calm_def engine_close_def set_state_def st_defs on_store_def store_close_def wrap_sqlite_def)

section \<open>Properties\<close>

text \<open>C35. A restart changes no answer: a copy that was \<open>READY\<close>, closed or killed, comes back \<open>READY\<close> with its corpus and
  generation if storage answers and the embedder works, and gives the same statistics and the same lexical
  results, scores and order included, although its index is rebuilt in another order. Its vectors are
  embedded again from the same texts by the same embedder, one for every document, and semantic search ranks
  the same documents by them; where the embedder returned the same vectors, its answers are the same too.\<close>

theorem restart_changes_no_answer:
  assumes "engine_inv rt en" "en_state en = READY" "en_scorer en = default_bm25_params (rt_float rt)"
    and "bm25_arithmetic (rt_float rt) (default_bm25_params (rt_float rt))"
    and "case en_embedder en of None \<Rightarrow> True | Some e \<Rightarrow> embedder_works (rt_numpy rt) e"
    and "stopped \<in> {en, snd (engine_close en)}"
  shows "\<exists>en2 db2. start_engine rt st (Inr (en_embedder en)) (con_durable (en_store stopped)) [] = (Inr en2, db2)
    \<and> en_state en2 = READY \<and> engine_corpus en2 = engine_corpus en \<and> en_generation en2 = en_generation en \<and> engine_stats rt en2 = engine_stats rt en
    \<and> (\<forall>query limit. 0 \<le> limit \<longrightarrow> engine_search rt en2 query limit None = engine_search rt en query limit None)
    \<and> (\<forall>e. en_embedder en = Some e \<longrightarrow> dom (stored_vectors en2) = dom (engine_corpus en)
        \<and> (\<forall>d t x. engine_corpus en d = Some t \<longrightarrow> stored_vectors en2 d = Some x \<longrightarrow> embeds (rt_numpy rt) e t x)
        \<and> (\<forall>q limit. vec_ok (rt_numpy rt) (si_dimension (em_identity e)) q \<longrightarrow> 1 \<le> limit \<longrightarrow>
             engine_semantic_search rt en2 q limit = Inr (ranked_page (engine_corpus en)
               (similarity (rt_numpy rt) (vec_val (rt_numpy rt) q) (stored_vectors en2)) limit)
             \<and> (stored_vectors en2 = stored_vectors en \<longrightarrow> engine_semantic_search rt en2 q limit = engine_semantic_search rt en q limit)))"
proof -
  note I = engine_invD [OF assms(1)]
  have d: "con_durable (en_store stopped) = con_durable (en_store en)" using assms(6) close_durable by auto
  have "disk_ok (rt_unicode rt) (con_durable (en_store stopped))" unfolding d by (rule store_disk(1) [OF I(1)])
  from start_engine_works [OF this assms(5), of st] obtain en2 where
    s: "start_engine rt st (Inr (en_embedder en)) (con_durable (en_store stopped)) [] = (Inr en2, con_durable (en_store en2))"
      "engine_inv rt en2" "en_state en2 = READY" "store_content (en_store en2) = disk_content (con_durable (en_store stopped))"
      "en_embedder en2 = en_embedder en" "en_scorer en2 = default_bm25_params (rt_float rt)" .
  have c: "store_content (en_store en2) = store_content (en_store en)" using s(4) store_disk(2) [OF I(1)] d by simp
  then have corp: "engine_corpus en2 = engine_corpus en" by (simp add: engine_corpus_def)
  note c2 = engine_invD(3) [OF s(2,3)]
  have gen: "en_generation en2 = en_generation en" using c I(3) [OF assms(2)] c2 by (simp add: engine_consistent_def)
  note same = assms(1,2) s(2,3) corp
  have "engine_search rt en2 query limit None = engine_search rt en query limit None" if "0 \<le> limit" for query limit
    by (rule engine_search_of_corpus [OF same]) (use assms(3,4) s(6) that in simp_all)
  moreover have "dom (stored_vectors en2) = dom (engine_corpus en)"
      "\<forall>d t x. engine_corpus en d = Some t \<longrightarrow> stored_vectors en2 d = Some x \<longrightarrow> embeds (rt_numpy rt) e t x" if "en_embedder en = Some e" for e
    using engine_vectors(2,3) [OF c2] that s(5) corp by simp_all
  moreover have "engine_semantic_search rt en2 q limit = Inr (ranked_page (engine_corpus en)
               (similarity (rt_numpy rt) (vec_val (rt_numpy rt) q) (stored_vectors en2)) limit)
             \<and> (stored_vectors en2 = stored_vectors en \<longrightarrow> engine_semantic_search rt en2 q limit = engine_semantic_search rt en q limit)"
    if "en_embedder en = Some e" "vec_ok (rt_numpy rt) (si_dimension (em_identity e)) q" "1 \<le> limit" for e q limit
    using engine_semantic_ready [OF assms(1,2) that] engine_semantic_ready [OF s(2,3) _ that(2,3)] s(5) that(1) corp by simp
  ultimately show ?thesis using s(1,3) corp gen engine_stats_of_corpus [OF same] by (intro exI [of _ en2] exI [of _ "con_durable (en_store en2)"]) blast
qed

lemma unit_scorer: "en_scorer unit_engine = default_bm25_params (rt_float real_runtime)"
  by (simp add: unit_engine_def engine_init_def unit_embedder_def vec_init_def)

theorem restart_changes_no_answer_witness:
  "\<exists>en2 db2. start_engine real_runtime default_settings (Inr (Some unit_embedder))
       (con_durable (en_store (snd (engine_close (unit_engine_with \<lparr>document_id = ustr ''a'', doc_text = ustr ''x''\<rparr>))))) [] = (Inr en2, db2)
    \<and> en_state en2 = READY \<and> engine_corpus en2 = [ustr ''a'' \<mapsto> ustr ''x'']
    \<and> engine_search real_runtime en2 (ustr ''x'') 10 None =
        engine_search real_runtime (unit_engine_with \<lparr>document_id = ustr ''a'', doc_text = ustr ''x''\<rparr>) (ustr ''x'') 10 None
    \<and> engine_semantic_search real_runtime en2 (nd_vec [2]) 3 =
        Inr (ranked_page [ustr ''a'' \<mapsto> ustr ''x''] (similarity (rt_numpy real_runtime) [2] (stored_vectors en2)) 3)"
proof -
  let ?doc = "\<lparr>document_id = ustr ''a'', doc_text = ustr ''x''\<rparr>"
  have "valid_id ascii_unicode (document_id ?doc)" using valid_a by simp
  note f = unit_engine_with_facts [OF this]
  have ar: "bm25_arithmetic (rt_float real_runtime) (default_bm25_params (rt_float real_runtime))"
    using exact.bm25_arithmetic_axioms by (simp add: real_runtime_def)
  have sc: "en_scorer (unit_engine_with ?doc) = default_bm25_params (rt_float real_runtime)" using f(7) unit_scorer by simp
  have w: "case en_embedder (unit_engine_with ?doc) of None \<Rightarrow> True | Some e \<Rightarrow> embedder_works (rt_numpy real_runtime) e"
    by (simp add: f(3) unit_embedder_works)
  have q: "vec_ok (rt_numpy real_runtime) (si_dimension (em_identity unit_embedder)) (nd_vec [2])" "vec_val (rt_numpy real_runtime) (nd_vec [2]) = [2]"
    by (simp_all add: vec_ok_def vec_val_def nd_vec_def unit_embedder_def real_runtime_def real_numpy_def)
  from restart_changes_no_answer [OF f(1,2) sc ar w, of "snd (engine_close (unit_engine_with ?doc))" default_settings] q
  show ?thesis by (force simp: f(3,4))
qed

end
