(* ===== verification/Evaluation_Data.thy ===== *)
theory Evaluation_Data
  imports Prelude
begin

text \<open>
  \<open>scripts/evaluation_data.py\<close>: the labelled set on which the retrieval modes are compared, as the script writes it. Shown:
  the labels fit the corpus, and the queries that choose the parameters are not those that are reported.
\<close>

section \<open>The corpus and the labelled queries\<close>

definition corpus_texts :: "(string \<times> string) list" where
  "corpus_texts =
    [(''veh-1'', ''automobile repair and servicing for engines and gearboxes''),
     (''veh-2'', ''keeping a motor vehicle running smoothly through the winter months''),
     (''veh-3'', ''brake pads, tyre pressure and other roadworthiness checks''),
     (''veh-4'', ''replacing worn windscreen wipers before the rainy season''),
     (''veh-5'', ''diagnosing a rattle from the exhaust manifold on older models''),
     (''veh-6'', ''an electric drivetrain has far fewer moving parts to service''),
     (''veh-7'', ''topping up coolant and checking for leaks around the radiator''),
     (''veh-8'', ''gearbox oil should be changed on the interval in the handbook''),
     (''ir-1'', ''BM25 ranks documents using term frequency and inverse document frequency''),
     (''ir-2'', ''an inverted index maps each term to the documents that contain it''),
     (''ir-3'', ''vector similarity retrieves passages that mean the same thing''),
     (''ir-4'', ''tokenization splits text into the units an index actually stores''),
     (''ir-5'', ''stop words carry little signal but occupy most of a posting list''),
     (''ir-6'', ''stemming collapses inflected forms so that they share one index entry''),
     (''ir-7'', ''precision and recall pull against each other as the cut-off moves''),
     (''ir-8'', ''reciprocal rank fusion combines two rankings without comparing their scores''),
     (''sys-1'', ''sharding splits a dataset so that each node stores only part of it''),
     (''sys-2'', ''replication keeps a second durable copy so a lost node loses nothing''),
     (''sys-3'', ''a coordinator fans a query out to every shard and merges the answers''),
     (''sys-4'', ''a write is acknowledged only once every copy has committed it durably''),
     (''sys-5'', ''leader election lets a cluster agree on which node may accept writes''),
     (''sys-6'', ''a partition forces a choice between answering and staying consistent''),
     (''sys-7'', ''back pressure protects a service from accepting more than it can finish''),
     (''sys-8'', ''idempotent operations make retries safe when a response is lost''),
     (''cook-1'', ''simmer the sauce gently while the pasta finishes cooking''),
     (''cook-2'', ''a sharp knife and a hot pan matter more than an expensive recipe''),
     (''cook-3'', ''let the dough rest before shaping it into loaves''),
     (''cook-4'', ''season in layers rather than all at the end''),
     (''cook-5'', ''a heavy base spreads heat evenly and stops things catching''),
     (''cook-6'', ''cold butter is what makes pastry flake rather than toughen''),
     (''err-1'', ''error ERR_CONN_RESET_1042 means the peer closed the connection mid-request''),
     (''err-2'', ''error ERR_CONN_RESET_1043 means the peer closed the connection mid-request''),
     (''err-3'', ''error ERR_CONN_RESET_1044 means the peer closed the connection mid-request''),
     (''err-4'', ''error ERR_DISK_FULL_2210 means the write path ran out of space''),
     (''err-5'', ''error ERR_DISK_FULL_2211 means the write path ran out of space''),
     (''err-6'', ''error ERR_CHECKSUM_3301 means a page failed verification on read''),
     (''part-1'', ''PX-9174-Q battery replacement procedure for field engineers''),
     (''part-2'', ''PX-9175-Q battery replacement procedure for field engineers''),
     (''part-3'', ''PX-9174-Q display calibration procedure for field engineers''),
     (''part-4'', ''PX-9176-Q battery replacement procedure for field engineers''),
     (''part-5'', ''QT-4420-B fan assembly removal and refitting instructions''),
     (''part-6'', ''QT-4421-B fan assembly removal and refitting instructions''),
     (''rfc-1'', ''RFC 9110 defines the semantics of HTTP messages and methods''),
     (''rfc-2'', ''RFC 9111 covers HTTP caching and how responses may be reused''),
     (''rfc-3'', ''RFC 8446 specifies version 1.3 of the transport layer security protocol''),
     (''rfc-4'', ''RFC 7519 describes JSON web tokens and how they are validated''),
     (''rfc-5'', ''RFC 6265 explains how cookies are set and returned by user agents''),
     (''ver-1'', ''release 4.2.0 removes the deprecated batch import endpoint''),
     (''ver-2'', ''release 4.3.0 removes the deprecated batch import endpoint''),
     (''ver-3'', ''release 4.2.1 fixes a regression in the batch import endpoint''),
     (''ver-4'', ''release 5.0.0 rewrites the batch import endpoint entirely''),
     (''prod-1'', ''Halberd is the internal scheduler that drains nodes before maintenance''),
     (''prod-2'', ''Marlinspike is the deployment tool that promotes builds between stages''),
     (''prod-3'', ''Tanglefoot is the rate limiter that sits in front of the public API''),
     (''prod-4'', ''Blackthorn is the archival service that moves cold data off primaries''),
     (''prod-5'', ''Wintergreen is the dashboard that operators watch during an incident''),
     (''ops-1'', ''restarting a node drains its traffic before the process exits''),
     (''ops-2'', ''a rolling upgrade replaces one instance at a time to avoid downtime''),
     (''ops-3'', ''disk pressure is the most common cause of a failed write on this fleet''),
     (''ops-4'', ''connection resets during deploys are usually the load balancer, not the app''),
     (''ops-5'', ''check the battery health report before scheduling a field visit''),
     (''ops-6'', ''calibration drifts slowly, so displays are checked at every service''),
     (''gen-1'', ''the office moves to the new building at the end of the quarter''),
     (''gen-2'', ''expenses must be submitted within thirty days of the purchase''),
     (''gen-3'', ''the fire drill happens twice a year and takes about ten minutes''),
     (''gen-4'', ''parking permits are issued per person rather than per vehicle''),
     (''gen-5'', ''the canteen stops serving hot food at two in the afternoon'')]"

text \<open>Query, relevant documents, category and note.\<close>

type_synonym labelled = "string \<times> string list \<times> string \<times> string"

definition development_labels :: "labelled list" where
  "development_labels =
    [(''car maintenance'', [''veh-1'', ''veh-2'', ''veh-3'', ''veh-4'', ''veh-7'', ''veh-8''], ''semantic'',
      [CHR 0x27] @ ''car'' @ [CHR 0x27] @ '' appears in no document''),
     (''keeping food from sticking to the pan'', [''cook-5'', ''cook-2''], ''semantic'',
      ''conceptual, no shared content words''),
     (''what happens when the network splits'', [''sys-6''], ''semantic'',
      ''paraphrase of a partition''),
     (''ERR_DISK_FULL_2210'', [''err-4''], ''lexical'',
      ''code among a near-identical pair''),
     (''RFC 8446'', [''rfc-3''], ''lexical'',
      ''standard number among other RFCs''),
     (''Tanglefoot'', [''prod-3''], ''lexical'',
      ''rare proper noun''),
     (''release 4.2.1'', [''ver-3''], ''lexical'',
      ''version among near-identical releases''),
     (''PX-9175-Q battery swap'', [''part-2''], ''mixed'',
      ''exact part plus a paraphrased action''),
     (''ERR_CONN_RESET_1042 during a deploy'', [''err-1''], ''mixed'',
      ''exact code plus operational context''),
     (''batch import endpoint changes'', [''ver-1'', ''ver-2'', ''ver-3'', ''ver-4''], ''distractor'',
      ''four near-identical release notes are all relevant''),
     (''fan assembly instructions'', [''part-5'', ''part-6''], ''distractor'',
      ''two parts share the whole description''),
     (''why did the connection drop'', [''err-1'', ''err-2'', ''err-3'', ''ops-4''], ''distractor'',
      ''several documents describe the same symptom'')]"

definition evaluation_labels :: "labelled list" where
  "evaluation_labels =
    [(''fixing a broken engine'', [''veh-1'', ''veh-5'', ''veh-8''], ''semantic'',
      ''paraphrase with partial overlap''),
     (''searching by meaning rather than keywords'', [''ir-3''], ''semantic'',
      ''conceptual, little lexical overlap''),
     (''surviving the loss of a machine'', [''sys-2''], ''semantic'',
      ''paraphrase of replication''),
     (''splitting data across machines'', [''sys-1''], ''semantic'',
      ''paraphrase of sharding''),
     (''making dinner'', [''cook-1'', ''cook-2'', ''cook-3'', ''cook-4'', ''cook-5'', ''cook-6''], ''semantic'',
      ''topic paraphrase''),
     (''making retries safe'', [''sys-8''], ''semantic'',
      ''paraphrase of idempotence''),
     (''ERR_CHECKSUM_3301'', [''err-6''], ''lexical'',
      ''unique code''),
     (''ERR_CONN_RESET_1044'', [''err-3''], ''lexical'',
      ''code among three near-identical documents''),
     (''PX-9176-Q'', [''part-4''], ''lexical'',
      ''part among three near-identical documents''),
     (''RFC 7519'', [''rfc-4''], ''lexical'',
      ''standard number''),
     (''Blackthorn'', [''prod-4''], ''lexical'',
      ''rare proper noun''),
     (''release 5.0.0'', [''ver-4''], ''lexical'',
      ''version among near-identical releases''),
     (''PX-9174-Q battery failure'', [''part-1''], ''mixed'',
      ''exact part; a sibling part and a sibling procedure both distract''),
     (''Halberd node draining'', [''prod-1''], ''mixed'',
      ''proper noun plus a concept another document also describes''),
     (''RFC 9111 response reuse'', [''rfc-2''], ''mixed'',
      ''standard number plus a paraphrase of its subject''),
     (''combining two rankings'', [''ir-8''], ''mixed'',
      ''concept stated in the document'' @ [CHR 0x27] @ ''s own words''),
     (''battery replacement procedure'', [''part-1'', ''part-2'', ''part-4''], ''distractor'',
      ''three parts share the procedure; a fourth document is calibration''),
     (''running out of disk space'', [''err-4'', ''err-5'', ''ops-3''], ''distractor'',
      ''codes and an operational note describe the same failure''),
     (''display calibration'', [''part-3'', ''ops-6''], ''distractor'',
      ''one part document and one operational note''),
     (''upgrading without downtime'', [''ops-2'', ''ops-1''], ''distractor'',
      ''two operational notes, one only partly on topic'')]"

definition category_names :: "string list" where
  "category_names = [''semantic'', ''lexical'', ''mixed'', ''distractor'']"

record labelled_query =
  lq_query :: pystr
  lq_relevant :: "pystr set"
  lq_category :: pystr
  lq_note :: pystr

fun labelled_query_of :: "labelled \<Rightarrow> labelled_query" where
  "labelled_query_of (query, relevant, category, note) =
     \<lparr>lq_query = ustr query, lq_relevant = set (map ustr relevant), lq_category = ustr category, lq_note = ustr note\<rparr>"

definition evaluation_corpus :: "(pystr, pystr) dict" where
  "evaluation_corpus = map (\<lambda>(d, t). (ustr d, ustr t)) corpus_texts"

definition development_queries :: "labelled_query list" where
  "development_queries = map labelled_query_of development_labels"

definition evaluation_queries :: "labelled_query list" where
  "evaluation_queries = map labelled_query_of evaluation_labels"

definition categories :: "pystr list" where
  "categories = map ustr category_names"

section \<open>The set is sound\<close>

lemma ustr_inj: "ustr a = ustr b \<longleftrightarrow> a = b"
  unfolding ustr_def by (rule inj_map_eq_map) (simp add: inj_def)

lemma corpus_distinct: "distinct (map fst corpus_texts)"
  by code_simp

lemma evaluation_corpus_ok: "dict_ok evaluation_corpus"
proof -
  have "dkeys evaluation_corpus = map ustr (map fst corpus_texts)" by (simp add: evaluation_corpus_def case_prod_beta comp_def)
  then show ?thesis using corpus_distinct by (simp only: distinct_map) (simp add: inj_on_def ustr_inj)
qed

lemma labels_fit:
  "list_all (\<lambda>(query, relevant, category, note). relevant \<noteq> [] \<and> set relevant \<subseteq> set (map fst corpus_texts) \<and> category \<in> set category_names)
     (development_labels @ evaluation_labels)"
  by code_simp

lemma labels_distinct: "distinct (map fst (development_labels @ evaluation_labels))"
  by code_simp

lemma categories_used: "list_all (\<lambda>c. c \<in> set (map (fst \<circ> snd \<circ> snd) evaluation_labels)) category_names"
  by code_simp

lemma labelled_queries_fit:
  assumes "q \<in> set (development_queries @ evaluation_queries)"
  shows "lq_relevant q \<noteq> {} \<and> finite (lq_relevant q) \<and> lq_relevant q \<subseteq> dom (map_of evaluation_corpus) \<and> lq_category q \<in> set categories"
proof -
  from assms obtain l where l: "l \<in> set (development_labels @ evaluation_labels)" "q = labelled_query_of l"
    by (auto simp: development_queries_def evaluation_queries_def)
  obtain query relevant category note' where p: "l = (query, relevant, category, note')" by (cases l)
  have "case l of (query, relevant, category, note) \<Rightarrow> relevant \<noteq> [] \<and> set relevant \<subseteq> set (map fst corpus_texts) \<and> category \<in> set category_names"
    by (rule bspec [OF labels_fit [unfolded list_all_iff] l(1)])
  then have q: "relevant \<noteq> []" "set relevant \<subseteq> set (map fst corpus_texts)" "category \<in> set category_names"
      "lq_relevant q = ustr ` set relevant" "lq_category q = ustr category" using l(2) p by simp_all
  have "dom (map_of evaluation_corpus) = ustr ` set (map fst corpus_texts)"
    by (force simp: evaluation_corpus_def simp flip: set_dkeys_dom)
  with q show ?thesis by (auto simp: categories_def)
qed

lemma labelled_queries_distinct: "distinct (map lq_query (development_queries @ evaluation_queries))"
proof -
  have "lq_query (labelled_query_of l) = ustr (fst l)" for l by (cases l) simp
  then have "map lq_query (development_queries @ evaluation_queries) = map ustr (map fst (development_labels @ evaluation_labels))"
    by (simp add: development_queries_def evaluation_queries_def)
  then show ?thesis using labels_distinct by (simp only: distinct_map) (simp add: inj_on_def ustr_inj)
qed

end
