(* ===== verification/Evaluation.thy ===== *)
theory Evaluation
  imports Restart Evaluation_Data
begin

text \<open>
  \<open>scripts/evaluate_retrieval.py\<close>: the retrieval metrics, the three retrieval modes they compare and the choice
  of the fusion parameters, on the labelled set of \<open>Evaluation_Data\<close>. Printing is left out.
\<close>

section \<open>Metrics\<close>

definition recall_at_k :: "'f fops \<Rightarrow> pystr list \<Rightarrow> pystr set \<Rightarrow> nat \<Rightarrow> 'f" where
  "recall_at_k fo ranked relevant k =
     (if relevant = {} then f_rat fo 0
      else f_rat fo (of_nat (card (set (take k ranked) \<inter> relevant)) / of_nat (card relevant)))"

fun rank_from :: "'f fops \<Rightarrow> nat \<Rightarrow> pystr list \<Rightarrow> pystr set \<Rightarrow> 'f" where
  "rank_from fo position [] relevant = f_rat fo 0"
| "rank_from fo position (d # ds) relevant =
     (if d \<in> relevant then f_quot fo (f_rat fo 1) (f_rat fo (of_nat position)) else rank_from fo (Suc position) ds relevant)"

definition reciprocal_rank :: "'f fops \<Rightarrow> pystr list \<Rightarrow> pystr set \<Rightarrow> 'f" where
  "reciprocal_rank fo ranked relevant = rank_from fo 1 ranked relevant"

record 'f scores =
  sv_recall_at_5 :: 'f
  sv_recall_at_10 :: 'f
  sv_mrr :: 'f
  sv_per_query :: "(pystr, 'f) dict"

definition f_sum :: "'f fops \<Rightarrow> 'f list \<Rightarrow> 'f" where
  "f_sum fo xs = foldl (f_add fo) (f_rat fo 0) xs"

definition retrieve :: int where
  "retrieve = 20"

definition evaluate :: "'f::linorder fops \<Rightarrow> (pystr \<Rightarrow> int \<Rightarrow> pystr list res) \<Rightarrow> labelled_query list \<Rightarrow> 'f scores res" where
  "evaluate fo search queries =
     ebind (emap (\<lambda>labelled. ebind (search (lq_query labelled) retrieve) (\<lambda>ranked.
       Inr (recall_at_k fo ranked (lq_relevant labelled) 5, recall_at_k fo ranked (lq_relevant labelled) 10,
            reciprocal_rank fo ranked (lq_relevant labelled)))) queries) (\<lambda>rows.
     let count = f_rat fo (of_nat (length queries))
     in ebind (f_div fo (f_sum fo (map fst rows)) count) (\<lambda>recall5.
        ebind (f_div fo (f_sum fo (map (fst \<circ> snd) rows)) count) (\<lambda>recall10.
        ebind (f_div fo (f_sum fo (map (snd \<circ> snd) rows)) count) (\<lambda>mrr.
          Inr \<lparr>sv_recall_at_5 = recall5, sv_recall_at_10 = recall10, sv_mrr = mrr,
               sv_per_query = fold (\<lambda>(labelled, row). AList.update (lq_query labelled) (snd (snd row))) (zip queries rows) []\<rparr>))))"

section \<open>The retrieval modes\<close>

definition build_engine :: "'f::linorder runtime \<Rightarrow> 'f embedder res \<Rightarrow> bool list \<Rightarrow> 'f engine res" where
  "build_engine rt embedder faults =
     ebind (fst (start_engine rt (default_settings\<lparr>se_storage_path := ustr '':memory:''\<rparr>) (ebind embedder (\<lambda>e. Inr (Some e)))
       \<lparr>db_documents = [], db_generation = None\<rparr> faults)) (\<lambda>en.
     case index_all rt evaluation_corpus en of
       (Inl x, _) \<Rightarrow> Inl x | (Inr _, en1) \<Rightarrow> Inr en1)"

definition bm25_searcher :: "'f::linorder runtime \<Rightarrow> 'f engine \<Rightarrow> pystr \<Rightarrow> int \<Rightarrow> pystr list res" where
  "bm25_searcher rt en query limit =
     ebind (engine_search rt en query limit None) (\<lambda>r. Inr (map sr_document_id (srs_results r)))"

definition semantic_searcher :: "'f::linorder runtime \<Rightarrow> 'f engine \<Rightarrow> pystr \<Rightarrow> int \<Rightarrow> pystr list res" where
  "semantic_searcher rt en query limit =
     ebind (engine_embed_query en query) (\<lambda>v.
     ebind (engine_semantic_search rt en v limit) (\<lambda>r. Inr (map sr_document_id (srs_results r))))"

definition hybrid_searcher :: "'f::linorder runtime \<Rightarrow> 'f engine \<Rightarrow> fusion_config \<Rightarrow> pystr \<Rightarrow> int \<Rightarrow> pystr list res" where
  "hybrid_searcher rt en config query limit =
     ebind (engine_hybrid_search rt en query limit (Some config)) (\<lambda>r. Inr (map hh_document_id (hr_results r)))"

section \<open>Choosing the parameters\<close>

text \<open>The candidates in the order of the loops, and the first best of them by \<open>(mrr, recall_at_5)\<close>.\<close>

definition candidates :: "(int \<times> int) list" where
  "candidates = concat (map (\<lambda>multiplier. map (\<lambda>rrf_k. (rrf_k, multiplier)) [10, 30, 60]) [1, 2, 5])"

definition better :: "'f::linorder scores \<Rightarrow> 'f scores \<Rightarrow> bool" where
  "better s t \<longleftrightarrow> sv_mrr t < sv_mrr s \<or> sv_mrr s = sv_mrr t \<and> sv_recall_at_5 t < sv_recall_at_5 s"

fun first_best :: "('a \<times> 'f::linorder scores) option \<Rightarrow> ('a \<times> 'f scores) list \<Rightarrow> ('a \<times> 'f scores) option" where
  "first_best best [] = best"
| "first_best best (c # cs) =
     first_best (case best of None \<Rightarrow> Some c | Some b \<Rightarrow> if better (snd c) (snd b) then Some c else Some b) cs"

definition develop :: "'f::linorder runtime \<Rightarrow> 'f engine \<Rightarrow> ((int \<times> int) \<times> 'f scores) option res" where
  "develop rt en =
     ebind (emap (\<lambda>search. evaluate (rt_float rt) search development_queries) [bm25_searcher rt en, semantic_searcher rt en]) (\<lambda>baselines.
     ebind (emap (\<lambda>(rrf_k, multiplier). ebind (mk_fusion_config rrf_k multiplier (fc_max_candidate_depth default_fusion_config)) (\<lambda>config.
       ebind (evaluate (rt_float rt) (hybrid_searcher rt en config) development_queries) (\<lambda>scores. Inr ((rrf_k, multiplier), scores)))) candidates) (\<lambda>tried.
     Inr (first_best None tried)))"

section \<open>The report\<close>

definition category_mean :: "'f::linorder fops \<Rightarrow> 'f scores \<Rightarrow> labelled_query list \<Rightarrow> 'f res" where
  "category_mean fo scores members =
     ebind (emap (\<lambda>labelled. dget_item (sv_per_query scores) (lq_query labelled)) members) (\<lambda>xs.
       f_div fo (f_sum fo xs) (f_rat fo (of_nat (length members))))"

definition below_best_input :: "'f::linorder fops \<Rightarrow> 'f scores \<Rightarrow> 'f scores \<Rightarrow> 'f scores \<Rightarrow> pystr \<Rightarrow> bool res" where
  "below_best_input fo bm25 semantic hybrid query =
     ebind (dget_item (sv_per_query bm25) query) (\<lambda>b.
     ebind (dget_item (sv_per_query semantic) query) (\<lambda>s.
     ebind (dget_item (sv_per_query hybrid) query) (\<lambda>h.
       Inr (h < f_sub fo (max b s) (f_rat fo (1 / 10 ^ 9))))))"

text \<open>The scores of the three modes, the means of each category that has queries, and the queries on which the
  fused ranking is worse than its better input.\<close>

definition report :: "'f::linorder runtime \<Rightarrow> 'f engine \<Rightarrow> ('f scores list \<times> (pystr \<times> 'f list) list \<times> pystr list) res" where
  "report rt en =
     ebind (emap (\<lambda>search. evaluate (rt_float rt) search evaluation_queries)
       [bm25_searcher rt en, semantic_searcher rt en, hybrid_searcher rt en default_fusion_config]) (\<lambda>scored.
     ebind (emap (\<lambda>category. let members = filter (\<lambda>q. lq_category q = category) evaluation_queries
         in ebind (emap (\<lambda>scores. category_mean (rt_float rt) scores members) scored) (\<lambda>row. Inr (category, row)))
       (filter (\<lambda>category. \<exists>q\<in>set evaluation_queries. lq_category q = category) categories)) (\<lambda>rows.
     ebind (emap (\<lambda>q. ebind (below_best_input (rt_float rt) (scored ! 0) (scored ! 1) (scored ! 2) (lq_query q)) (\<lambda>worse. Inr (lq_query q, worse))) evaluation_queries) (\<lambda>judged.
     Inr (scored, rows, map fst (filter snd judged)))))"

text \<open>\<open>main\<close>: the choice of parameters or the report, on an engine that holds the corpus.\<close>

definition evaluation_main :: "'f::linorder runtime \<Rightarrow> 'f embedder res \<Rightarrow> bool list \<Rightarrow> bool
    \<Rightarrow> (((int \<times> int) \<times> 'f scores) option + ('f scores list \<times> (pystr \<times> 'f list) list \<times> pystr list)) res" where
  "evaluation_main rt embedder faults choosing =
     ebind (build_engine rt embedder faults) (\<lambda>en.
       if choosing then ebind (develop rt en) (\<lambda>best. Inr (Inl best)) else ebind (report rt en) (\<lambda>r. Inr (Inr r)))"

section \<open>The engine under evaluation\<close>

text \<open>Where storage answers and the model works, the engine holds exactly the corpus.\<close>

lemma build_engine_holds_corpus:
  assumes "embedder_works (rt_numpy rt) e" "list_all (\<lambda>(d, t). valid_id (rt_unicode rt) d) evaluation_corpus"
  obtains en where "build_engine rt (Inr e) [] = Inr en" "serving rt (Some e) (map_of evaluation_corpus) (int (length evaluation_corpus)) en"
proof -
  let ?db = "\<lparr>db_documents = [], db_generation = None\<rparr>" and ?st = "default_settings\<lparr>se_storage_path := ustr '':memory:''\<rparr>"
  have w: "works rt (Some e)" using assms(1) by (simp add: works_def)
  have "disk_ok (rt_unicode rt) ?db" "disk_content ?db = (Map.empty, 0)" by (simp_all add: disk_ok_def disk_content_def)
  from serving_start [OF this(1) w this(2), of ?st] obtain en where
    en: "start_engine rt ?st (Inr (Some e)) ?db [] = (Inr en, con_durable (en_store en))" "serving rt (Some e) Map.empty 0 en" .
  from serving_index_all [OF en(2) w assms(2) evaluation_corpus_ok] obtain en' where
    "index_all rt evaluation_corpus en = (Inr (), en')" "serving rt (Some e) (Map.empty ++ map_of evaluation_corpus) (0 + int (length evaluation_corpus)) en'" .
  then show thesis using en(1) by (intro that [of en']) (simp_all add: build_engine_def)
qed

section \<open>The metrics are fractions\<close>

lemma recall_range:
  assumes "finite relevant"
  shows "0 \<le> recall_at_k real_ops ranked relevant k \<and> recall_at_k real_ops ranked relevant k \<le> 1"
proof -
  have "card (set (take k ranked) \<inter> relevant) \<le> card relevant" using assms by (intro card_mono) auto
  then show ?thesis using assms by (auto simp: recall_at_k_def of_rat_divide card_gt_0_iff)
qed

lemma recall_mono:
  assumes "finite relevant" "k \<le> l"
  shows "recall_at_k real_ops ranked relevant k \<le> recall_at_k real_ops ranked relevant l"
proof -
  have "card (set (take k ranked) \<inter> relevant) \<le> card (set (take l ranked) \<inter> relevant)"
    using assms set_take_subset_set_take [of k l ranked] by (intro card_mono) auto
  then show ?thesis by (auto simp: recall_at_k_def of_rat_divide intro!: divide_right_mono)
qed

text \<open>Everything relevant was found exactly if the recall is one.\<close>

lemma recall_complete:
  assumes "finite relevant" "relevant \<noteq> {}"
  shows "recall_at_k real_ops ranked relevant k = 1 \<longleftrightarrow> relevant \<subseteq> set (take k ranked)"
proof -
  have "card (set (take k ranked) \<inter> relevant) = card relevant \<longleftrightarrow> set (take k ranked) \<inter> relevant = relevant"
    using assms(1) card_subset_eq [of relevant "set (take k ranked) \<inter> relevant"] by auto
  moreover have "0 < card relevant" using assms by (simp add: card_gt_0_iff)
  ultimately show ?thesis using assms(2) by (auto simp: recall_at_k_def of_rat_divide)
qed

lemma rank_from_first:
  assumes "i < length ranked" "ranked ! i \<in> relevant" "\<forall>j<i. ranked ! j \<notin> relevant"
  shows "rank_from real_ops p ranked relevant = 1 / real (p + i)"
  using assms
proof (induction ranked arbitrary: p i)
  case (Cons d ds)
  show ?case
  proof (cases i)
    case 0
    then show ?thesis using Cons.prems(2) by (simp add: of_rat_add)
  next
    case (Suc j)
    then have "d \<notin> relevant" using Cons.prems(3) by auto
    then show ?thesis using Cons.IH [of j "Suc p"] Cons.prems Suc by fastforce
  qed
qed simp

text \<open>The reciprocal rank is that of the first relevant document, and zero if there is none.\<close>

lemma reciprocal_rank_first:
  assumes "i < length ranked" "ranked ! i \<in> relevant" "\<forall>j<i. ranked ! j \<notin> relevant"
  shows "reciprocal_rank real_ops ranked relevant = 1 / real (Suc i)"
  using rank_from_first [OF assms, of 1] by (simp add: reciprocal_rank_def)

lemma reciprocal_rank_none: "set ranked \<inter> relevant = {} \<Longrightarrow> reciprocal_rank real_ops ranked relevant = 0"
proof -
  have "rank_from real_ops p ranked relevant = 0" if "set ranked \<inter> relevant = {}" for p using that by (induction ranked arbitrary: p) auto
  then show "set ranked \<inter> relevant = {} \<Longrightarrow> reciprocal_rank real_ops ranked relevant = 0" by (simp add: reciprocal_rank_def)
qed

section \<open>The scores of a retrieval mode\<close>

text \<open>The two measures as they are meant: the share of the relevant documents among the first \<open>k\<close>, and one over
  the position, counted from one, of the first relevant document.\<close>

definition recall_score :: "pystr list \<Rightarrow> pystr set \<Rightarrow> nat \<Rightarrow> real" where
  "recall_score ranked relevant k = real (card (relevant \<inter> set (take k ranked))) / real (card relevant)"

definition rank_score :: "pystr list \<Rightarrow> pystr set \<Rightarrow> real" where
  "rank_score ranked relevant =
     (let misses = length (takeWhile (\<lambda>d. d \<notin> relevant) ranked)
      in if misses < length ranked then 1 / (1 + real misses) else 0)"

lemma recall_at_k_score: "recall_at_k real_ops ranked relevant k = recall_score ranked relevant k"
  by (simp add: recall_at_k_def recall_score_def of_rat_divide Int_commute)

lemma reciprocal_rank_score: "reciprocal_rank real_ops ranked relevant = rank_score ranked relevant"
proof -
  have "rank_from real_ops p ranked relevant =
      (if length (takeWhile (\<lambda>d. d \<notin> relevant) ranked) < length ranked
       then 1 / real (p + length (takeWhile (\<lambda>d. d \<notin> relevant) ranked)) else 0)" for p
    by (induction ranked arbitrary: p) (simp_all add: of_rat_divide)
  then show ?thesis by (simp add: reciprocal_rank_def rank_score_def)
qed

lemma f_sum_real: "f_sum real_ops xs = sum_list xs"
proof -
  have "foldl (+) a xs = a + sum_list xs" for a :: real by (induction xs arbitrary: a) (simp_all add: add.assoc)
  then show ?thesis by (simp add: f_sum_def)
qed

lemma reciprocal_rank_range: "0 \<le> reciprocal_rank real_ops ranked relevant \<and> reciprocal_rank real_ops ranked relevant \<le> 1"
proof -
  have "0 \<le> rank_from real_ops p ranked relevant \<and> rank_from real_ops p ranked relevant \<le> 1" if "1 \<le> p" for p
    using that by (induction ranked arbitrary: p) (auto simp: divide_le_eq)
  then show ?thesis by (simp add: reciprocal_rank_def)
qed

lemma mean_range:
  fixes f :: "'a \<Rightarrow> real"
  assumes "xs \<noteq> []" "\<And>x. x \<in> set xs \<Longrightarrow> 0 \<le> f x \<and> f x \<le> g x \<and> g x \<le> 1"
  shows "0 \<le> sum_list (map f xs) / real (length xs) \<and> sum_list (map f xs) / real (length xs) \<le> sum_list (map g xs) / real (length xs)
    \<and> sum_list (map g xs) / real (length xs) \<le> 1"
proof -
  have "0 \<le> sum_list (map f xs)" using assms(2) by (intro sum_list_nonneg) auto
  moreover have "sum_list (map f xs) \<le> sum_list (map g xs)" using assms(2) by (intro sum_list_mono) auto
  moreover have "sum_list (map g xs) \<le> sum_list (map (\<lambda>_. 1) xs)" using assms(2) by (intro sum_list_mono) auto
  then have "sum_list (map g xs) \<le> real (length xs)" by (simp add: sum_list_triv)
  ultimately show ?thesis using assms(1) by (simp add: divide_right_mono)
qed

lemma per_query_lookup:
  assumes "distinct (map lq_query queries)" "q \<in> set queries"
  shows "map_of (fold (\<lambda>(labelled, row). AList.update (lq_query labelled) (h row)) (zip queries (map f queries)) d) (lq_query q) = Some (h (f q))"
  using assms
proof (induction queries arbitrary: d)
  case (Cons p queries)
  have keep: "map_of (fold (\<lambda>(labelled, row). AList.update (lq_query labelled) (h row)) (zip us (map f us)) d) k = map_of d k"
    if "k \<notin> set (map lq_query us)" for us d k
    using that by (induction us arbitrary: d) (auto simp: dict_simps)
  show ?case
  proof (cases "q = p")
    case True
    then show ?thesis using Cons.prems(1) keep [of "lq_query p" queries] by (simp add: dict_simps)
  next
    case False
    then show ?thesis using Cons by simp
  qed
qed simp

lemma evaluate_real:
  assumes "queries \<noteq> []" "distinct (map lq_query queries)" "\<And>q. q \<in> set queries \<Longrightarrow> finite (lq_relevant q)"
    "\<And>q. q \<in> set queries \<Longrightarrow> search (lq_query q) retrieve = Inr (ranked q)"
  shows "\<exists>s. evaluate real_ops search queries = Inr s \<and> 0 \<le> sv_recall_at_5 s \<and> sv_recall_at_5 s \<le> sv_recall_at_10 s \<and> sv_recall_at_10 s \<le> 1
    \<and> 0 \<le> sv_mrr s \<and> sv_mrr s \<le> 1
    \<and> sv_recall_at_5 s = (\<Sum>q\<leftarrow>queries. recall_score (ranked q) (lq_relevant q) 5) / real (length queries)
    \<and> sv_recall_at_10 s = (\<Sum>q\<leftarrow>queries. recall_score (ranked q) (lq_relevant q) 10) / real (length queries)
    \<and> sv_mrr s = (\<Sum>q\<leftarrow>queries. rank_score (ranked q) (lq_relevant q)) / real (length queries)
    \<and> (\<forall>q\<in>set queries. map_of (sv_per_query s) (lq_query q) = Some (rank_score (ranked q) (lq_relevant q)))"
proof -
  let ?row = "\<lambda>q. (recall_at_k real_ops (ranked q) (lq_relevant q) 5, recall_at_k real_ops (ranked q) (lq_relevant q) 10,
      reciprocal_rank real_ops (ranked q) (lq_relevant q))"
  have rows: "emap (\<lambda>labelled. ebind (search (lq_query labelled) retrieve) (\<lambda>ranked.
       Inr (recall_at_k real_ops ranked (lq_relevant labelled) 5, recall_at_k real_ops ranked (lq_relevant labelled) 10,
            reciprocal_rank real_ops ranked (lq_relevant labelled)))) queries = Inr (map ?row queries)"
    by (rule emap_all_Inr) (simp add: assms(4))
  have count: "f_div real_ops x (f_rat real_ops (of_nat (length queries))) = Inr (x / real (length queries))" for x
    using assms(1) by (simp add: f_div_def)
  let ?s = "\<lparr>sv_recall_at_5 = sum_list (map (\<lambda>q. recall_at_k real_ops (ranked q) (lq_relevant q) 5) queries) / real (length queries),
      sv_recall_at_10 = sum_list (map (\<lambda>q. recall_at_k real_ops (ranked q) (lq_relevant q) 10) queries) / real (length queries),
      sv_mrr = sum_list (map (\<lambda>q. reciprocal_rank real_ops (ranked q) (lq_relevant q)) queries) / real (length queries),
      sv_per_query = fold (\<lambda>(labelled, row). AList.update (lq_query labelled) (snd (snd row))) (zip queries (map ?row queries)) []\<rparr>"
  have "evaluate real_ops search queries = Inr ?s"
    unfolding evaluate_def rows by (simp add: count f_sum_real comp_def del: real_ops_simps)
  moreover have "0 \<le> recall_at_k real_ops (ranked q) (lq_relevant q) 5
      \<and> recall_at_k real_ops (ranked q) (lq_relevant q) 5 \<le> recall_at_k real_ops (ranked q) (lq_relevant q) 10
      \<and> recall_at_k real_ops (ranked q) (lq_relevant q) 10 \<le> 1" if "q \<in> set queries" for q
    using recall_range recall_mono assms(3) [OF that] by simp
  note mean_range [OF assms(1) this] mean_range [OF assms(1), of "\<lambda>q. reciprocal_rank real_ops (ranked q) (lq_relevant q)" "\<lambda>q. reciprocal_rank real_ops (ranked q) (lq_relevant q)"]
  ultimately show ?thesis using reciprocal_rank_range per_query_lookup [OF assms(2), of _ "snd \<circ> snd" ?row "[]"]
    by (simp add: recall_at_k_score reciprocal_rank_score)
qed

section \<open>The choice is a best one\<close>

lemma better_trans: "\<not> better s t \<Longrightarrow> \<not> better t u \<Longrightarrow> \<not> better s u"
  unfolding better_def by (cases "sv_mrr s" "sv_mrr t" rule: linorder_cases; cases "sv_mrr t" "sv_mrr u" rule: linorder_cases) auto

lemma better_asym: "better s t \<Longrightarrow> \<not> better t s"
  unfolding better_def by auto

lemma first_best_maximal:
  "first_best best cs = Some c \<Longrightarrow> c \<in> set_option best \<union> set cs \<and> (\<forall>d \<in> set_option best \<union> set cs. \<not> better (snd d) (snd c))"
proof (induction cs arbitrary: best)
  case Nil
  then show ?case by (auto simp: better_def)
next
  case (Cons d ds)
  show ?case
  proof (cases best)
    case None
    then show ?thesis using Cons.IH [of "Some d"] Cons.prems by auto
  next
    case (Some b)
    define e where "e = (if better (snd d) (snd b) then d else b)"
    have "c \<in> insert e (set ds)" "\<forall>x \<in> insert e (set ds). \<not> better (snd x) (snd c)"
      using Cons.IH [of "Some e"] Cons.prems Some by (auto simp: e_def split: if_splits)
    moreover have "\<not> better (snd b) (snd e)" "\<not> better (snd d) (snd e)"
      using better_asym [of "snd d" "snd b"] better_asym [of "snd b" "snd b"] better_asym [of "snd d" "snd d"] by (auto simp: e_def)
    ultimately have "\<not> better (snd b) (snd c)" "\<not> better (snd d) (snd c)" "c \<in> insert b (insert d (set ds))"
      using better_trans [of "snd b" "snd e" "snd c"] better_trans [of "snd d" "snd e" "snd c"] by (auto simp: e_def split: if_splits)
    with \<open>\<forall>x \<in> insert e (set ds). \<not> better (snd x) (snd c)\<close> show ?thesis using Some by auto
  qed
qed

section \<open>Properties\<close>

text \<open>The labelled set fits: every label names documents of the corpus and a known category, and no reported query was used to
  choose the parameters.\<close>

lemma evaluation_set_fits:
  "evaluation_queries \<noteq> []" "distinct (map lq_query evaluation_queries)" "q \<in> set evaluation_queries \<Longrightarrow> finite (lq_relevant q)"
  "set (map lq_query development_queries) \<inter> set (map lq_query evaluation_queries) = {}"
proof -
  note d = labelled_queries_distinct [unfolded map_append distinct_append]
  show "evaluation_queries \<noteq> []" by (simp add: evaluation_queries_def evaluation_labels_def)
  show "distinct (map lq_query evaluation_queries)" "set (map lq_query development_queries) \<inter> set (map lq_query evaluation_queries) = {}"
    using d by blast+
  show "q \<in> set evaluation_queries \<Longrightarrow> finite (lq_relevant q)" using labelled_queries_fit by simp
qed

text \<open>C39. The evaluation computes the measures it reports, in exact arithmetic: for a retrieval mode that answers
  every query of a labelled set with different queries, recall at 5 and at 10 are the means over the queries of the
  share of the relevant documents found among the first 5 and 10, the mean reciprocal rank is the mean of one
  over the position of the first relevant document (zero if there is none), and each query is reported with its own
  value; all of them lie between zero and one and recall grows with the cut-off. An empty set raises
  \<open>ZeroDivisionError\<close>.\<close>

theorem evaluation_scores_exact:
  assumes "queries \<noteq> []" "distinct (map lq_query queries)" "\<forall>q\<in>set queries. finite (lq_relevant q)"
    and "\<forall>q\<in>set queries. search (lq_query q) retrieve = Inr (ranked q)"
  shows "(\<exists>s. evaluate real_ops search queries = Inr s
      \<and> sv_recall_at_5 s = (\<Sum>q\<leftarrow>queries. real (card (lq_relevant q \<inter> set (take 5 (ranked q)))) / real (card (lq_relevant q))) / real (length queries)
      \<and> sv_recall_at_10 s = (\<Sum>q\<leftarrow>queries. real (card (lq_relevant q \<inter> set (take 10 (ranked q)))) / real (card (lq_relevant q))) / real (length queries)
      \<and> sv_mrr s = (\<Sum>q\<leftarrow>queries. rank_score (ranked q) (lq_relevant q)) / real (length queries)
      \<and> (\<forall>q\<in>set queries. map_of (sv_per_query s) (lq_query q) = Some (rank_score (ranked q) (lq_relevant q)))
      \<and> 0 \<le> sv_recall_at_5 s \<and> sv_recall_at_5 s \<le> sv_recall_at_10 s \<and> sv_recall_at_10 s \<le> 1 \<and> 0 \<le> sv_mrr s \<and> sv_mrr s \<le> 1)
    \<and> evaluate real_ops search [] = Inl ZeroDivisionError"
proof
  from evaluate_real [OF assms(1,2), of search ranked] assms(3,4) obtain s where
    "evaluate real_ops search queries = Inr s" "0 \<le> sv_recall_at_5 s" "sv_recall_at_5 s \<le> sv_recall_at_10 s" "sv_recall_at_10 s \<le> 1"
    "0 \<le> sv_mrr s" "sv_mrr s \<le> 1"
    "sv_recall_at_5 s = (\<Sum>q\<leftarrow>queries. recall_score (ranked q) (lq_relevant q) 5) / real (length queries)"
    "sv_recall_at_10 s = (\<Sum>q\<leftarrow>queries. recall_score (ranked q) (lq_relevant q) 10) / real (length queries)"
    "sv_mrr s = (\<Sum>q\<leftarrow>queries. rank_score (ranked q) (lq_relevant q)) / real (length queries)"
    "\<forall>q\<in>set queries. map_of (sv_per_query s) (lq_query q) = Some (rank_score (ranked q) (lq_relevant q))" by blast
  then show "\<exists>s. evaluate real_ops search queries = Inr s
      \<and> sv_recall_at_5 s = (\<Sum>q\<leftarrow>queries. real (card (lq_relevant q \<inter> set (take 5 (ranked q)))) / real (card (lq_relevant q))) / real (length queries)
      \<and> sv_recall_at_10 s = (\<Sum>q\<leftarrow>queries. real (card (lq_relevant q \<inter> set (take 10 (ranked q)))) / real (card (lq_relevant q))) / real (length queries)
      \<and> sv_mrr s = (\<Sum>q\<leftarrow>queries. rank_score (ranked q) (lq_relevant q)) / real (length queries)
      \<and> (\<forall>q\<in>set queries. map_of (sv_per_query s) (lq_query q) = Some (rank_score (ranked q) (lq_relevant q)))
      \<and> 0 \<le> sv_recall_at_5 s \<and> sv_recall_at_5 s \<le> sv_recall_at_10 s \<and> sv_recall_at_10 s \<le> 1 \<and> 0 \<le> sv_mrr s \<and> sv_mrr s \<le> 1"
    unfolding recall_score_def by blast
  show "evaluate real_ops search [] = Inl ZeroDivisionError" by (simp add: evaluate_def f_div_def f_sum_def)
qed

theorem evaluation_scores_exact_witness:
  "\<exists>s. evaluate real_ops (\<lambda>query limit. Inr [ustr ''veh-2'', ustr ''veh-1'']) evaluation_queries = Inr s \<and> sv_recall_at_10 s \<le> 1
    \<and> list_all (\<lambda>q. map_of (sv_per_query s) (lq_query q) = Some (rank_score [ustr ''veh-2'', ustr ''veh-1''] (lq_relevant q))) evaluation_queries
    \<and> rank_score [ustr ''veh-2'', ustr ''veh-1''] {ustr ''veh-1''} = 1 / 2"
proof -
  have r: "rank_score [ustr ''veh-2'', ustr ''veh-1''] {ustr ''veh-1''} = 1 / 2" by (simp add: rank_score_def ustr_def)
  from evaluation_scores_exact [OF evaluation_set_fits(1,2), of "\<lambda>query limit. Inr [ustr ''veh-2'', ustr ''veh-1'']"
      "\<lambda>q. [ustr ''veh-2'', ustr ''veh-1'']"] evaluation_set_fits(3) r
  show ?thesis by (auto simp: list_all_iff)
qed

end
