(* ===== verification/Demo.thy ===== *)
theory Demo
  imports Restart
begin

text \<open>
  The scripts that walk through the public interface of an engine: \<open>scripts/demo.py\<close>, \<open>scripts/rebuild_benchmark.py\<close> and
  \<open>scripts/semantic_benchmark.py\<close>. What they print is their result here, as values; the formatting, the times they measure and the
  temporary directory are left out. A database file is the state it is left in.
\<close>

section \<open>The demonstration\<close>

definition demo_corpus :: "(pystr, pystr) dict" where
  "demo_corpus = map (\<lambda>(d, t). (ustr d, ustr t))
    [(''doc-1'', ''Distributed systems make search scalable across many machines.''),
     (''doc-2'', ''Search engines rank documents by relevance to a query.''),
     (''doc-3'', ''BM25 is the ranking function used by most lexical search engines.''),
     (''doc-4'', ''An inverted index maps each term to the documents containing it.''),
     (''doc-5'', ''Sharding splits an index so that each node holds part of the data.''),
     (''doc-6'', ''Cooking pasta well requires salted, vigorously boiling water.'')]"

definition demo_queries :: "pystr list" where
  "demo_queries = map ustr [''search'', ''search engines'', ''ranking function'', ''pasta'', ''quantum'']"

text \<open>The tokens of the first document, and the document frequency and the postings of two terms.\<close>

definition show_index_internals :: "unicode \<Rightarrow> (pystr list \<times> (pystr \<times> int \<times> posting list) list) res" where
  "show_index_internals ud =
     ebind (dget_item demo_corpus (ustr ''doc-1'')) (\<lambda>sample.
       case sfold (\<lambda>(d, t). index_add_document d (analyze ud t)) demo_corpus index_empty of
         (Inl e, _) \<Rightarrow> Inl e
       | (Inr _, index) \<Rightarrow> Inr (analyze ud sample, map (\<lambda>term. (term, index_document_frequency index term,
           sort_key po_document_id (index_postings index term))) [ustr ''search'', ustr ''index'']))"

definition print_results :: "'f::linorder runtime \<Rightarrow> pystr \<Rightarrow> ('f engine, 'f search_results) st" where
  "print_results rt query en = (engine_search rt en query 3 None, en)"

definition print_all_results :: "'f::linorder runtime \<Rightarrow> pystr list \<Rightarrow> ('f engine, 'f search_results list) st" where
  "print_all_results rt queries en = (emap (\<lambda>query. fst (print_results rt query en)) queries, en)"

definition print_stats :: "'f::linorder runtime \<Rightarrow> ('f engine, 'f index_stats) st" where
  "print_stats rt en = (engine_stats rt en, en)"

definition demo_start_engine :: "'f::linorder runtime \<Rightarrow> 'f embedder option \<Rightarrow> database \<Rightarrow> bool list \<Rightarrow> 'f engine res \<times> database" where
  "demo_start_engine rt eo db faults = start_engine rt (default_settings\<lparr>se_storage_path := ustr ''demo.db''\<rparr>) (Inr eo) db faults"

text \<open>\<open>try: ... finally: engine.close()\<close>: an exception of \<open>close\<close> replaces the outcome. The result has the file's content.\<close>

definition closing :: "'f engine res \<times> database \<Rightarrow> ('f engine, 'a) st \<Rightarrow> 'a res \<times> database" where
  "closing started body =
     (case started of
        (Inl e, db) \<Rightarrow> (Inl e, db)
      | (Inr en, _) \<Rightarrow>
          (case body en of (r, en1) \<Rightarrow>
           case engine_close en1 of (c, en2) \<Rightarrow> (ebind c (\<lambda>_. r), con_durable (en_store en2))))"

definition replacement :: pystr where
  "replacement = ustr ''Replication keeps copies of a shard on other nodes.''"

definition show_engine :: "'f::linorder runtime \<Rightarrow> database \<Rightarrow> bool list \<Rightarrow> ('f index_stats \<times> 'f search_results list) res \<times> database" where
  "show_engine rt db faults =
     closing (demo_start_engine rt None db faults)
       (sbind (index_all rt demo_corpus)
         (\<lambda>_. sbind (print_stats rt)
         (\<lambda>stats. sbind (print_all_results rt demo_queries)
         (\<lambda>pages. sbind (slift (mk_document (rt_unicode rt) (ustr ''doc-6'') replacement))
         (\<lambda>doc. sbind (engine_index_document rt doc)
         (\<lambda>_. sbind (print_results rt (ustr ''pasta''))
         (\<lambda>pasta. sbind (print_results rt (ustr ''replication''))
         (\<lambda>replication. sbind (engine_delete_document (ustr ''doc-1''))
         (\<lambda>_. sbind (print_results rt (ustr ''search''))
         (\<lambda>search. sbind (engine_validate rt)
         (\<lambda>_. slift (Inr (stats, pages @ [pasta, replication, search])))))))))))))"

definition show_restart :: "'f::linorder runtime \<Rightarrow> database \<Rightarrow> bool list \<Rightarrow> ('f index_stats \<times> 'f search_results list) res \<times> database" where
  "show_restart rt db faults =
     closing (demo_start_engine rt None db faults)
       (sbind (print_stats rt)
         (\<lambda>stats. sbind (print_all_results rt [ustr ''search'', ustr ''replication'', ustr ''pasta''])
         (\<lambda>pages. sbind (engine_validate rt)
         (\<lambda>_. slift (Inr (stats, pages))))))"

text \<open>\<open>load_embedder\<close>: whatever loading the model raises means no semantic section.\<close>

definition load_embedder :: "'f embedder res \<Rightarrow> 'f embedder option" where
  "load_embedder loaded = (case loaded of Inl _ \<Rightarrow> None | Inr e \<Rightarrow> Some e)"

definition compare_modes ::
    "'f::linorder runtime \<Rightarrow> 'f engine \<Rightarrow> pystr \<Rightarrow> ('f search_results \<times> 'f search_results \<times> 'f hybrid_results) res" where
  "compare_modes rt en query =
     ebind (engine_search rt en query 3 None) (\<lambda>lexical.
     ebind (ebind (engine_embed_query en query) (\<lambda>v. engine_semantic_search rt en v 3)) (\<lambda>semantic.
     ebind (engine_hybrid_search rt en query 3 (Some default_fusion_config)) (\<lambda>hybrid.
     Inr (lexical, semantic, hybrid))))"

definition show_semantic_and_hybrid ::
    "'f::linorder runtime \<Rightarrow> 'f embedder res \<Rightarrow> database \<Rightarrow> bool list
     \<Rightarrow> ('f search_results \<times> 'f search_results \<times> 'f hybrid_results) list option res \<times> database" where
  "show_semantic_and_hybrid rt loaded db faults =
     (case load_embedder loaded of
        None \<Rightarrow> (Inr None, db)
      | Some e \<Rightarrow> closing (demo_start_engine rt (Some e) db faults)
          (sbind (index_all rt demo_corpus)
            (\<lambda>_ en. (ebind (emap (compare_modes rt en) [ustr ''preparing a meal'', ustr ''splitting data over many computers'']) (\<lambda>rows. Inr (Some rows)), en))))"

definition new_file :: database where
  "new_file = \<lparr>db_documents = [], db_generation = None\<rparr>"

definition demo_main ::
    "'f::linorder runtime \<Rightarrow> 'f embedder res \<Rightarrow> bool list \<Rightarrow> bool list \<Rightarrow> bool list
     \<Rightarrow> (('f index_stats \<times> 'f search_results list) \<times> ('f index_stats \<times> 'f search_results list)
        \<times> ('f search_results \<times> 'f search_results \<times> 'f hybrid_results) list option) res" where
  "demo_main rt loaded faults1 faults2 faults3 =
     ebind (show_index_internals (rt_unicode rt)) (\<lambda>_.
     case show_engine rt new_file faults1 of (first, db) \<Rightarrow>
     ebind first (\<lambda>first.
     ebind (fst (show_restart rt db faults2)) (\<lambda>second.
     ebind (fst (show_semantic_and_hybrid rt loaded new_file faults3)) (\<lambda>third.
     Inr (first, second, third)))))"

section \<open>The benchmarks\<close>

definition vocabulary :: "pystr list" where
  "vocabulary = map ustr [''distributed'', ''search'', ''index'', ''ranking'', ''function'', ''document'', ''term'', ''posting'', ''list'',
     ''frequency'', ''shard'', ''replica'', ''node'', ''cluster'', ''query'', ''scoring'', ''relevance'', ''corpus'', ''token'', ''analysis'', ''storage'']"

definition semantic_vocabulary :: "pystr list" where
  "semantic_vocabulary = vocabulary @ map ustr [''vector'', ''embedding'', ''similarity'', ''semantic'', ''retrieval'', ''neighbour'', ''cosine'', ''dimension'']"

definition words_per_document :: nat where
  "words_per_document = 40"

definition synthetic_text :: "pystr list \<Rightarrow> nat \<Rightarrow> pystr" where
  "synthetic_text words seed =
     py_join (ustr '' '') (map (\<lambda>offset. words ! ((seed * 7 + offset) mod length words)) [0..<words_per_document])"

definition synthetic_corpus :: "pystr list \<Rightarrow> nat \<Rightarrow> (pystr, pystr) dict" where
  "synthetic_corpus words count = map (\<lambda>n. (ustr ''doc-'' @ py_str_int (int n), synthetic_text words n)) [0..<count]"

text \<open>One corpus size: fill a new file, close it, and start again over it. \<open>Inr\<close> has the restarted engine.\<close>

definition fill_and_restart :: "'f::linorder runtime \<Rightarrow> 'f embedder option \<Rightarrow> pystr list \<Rightarrow> nat \<Rightarrow> bool list \<Rightarrow> bool list \<Rightarrow> 'f engine res" where
  "fill_and_restart rt eo words count faults1 faults2 =
     ebind (fst (demo_start_engine rt eo new_file faults1)) (\<lambda>en.
       case sbind (index_all rt (synthetic_corpus words count)) (\<lambda>_. engine_close) en of
         (Inl e, _) \<Rightarrow> Inl e
       | (Inr _, en1) \<Rightarrow> fst (demo_start_engine rt eo (con_durable (en_store en1)) faults2))"

definition rebuild_measure :: "'f::linorder runtime \<Rightarrow> nat \<Rightarrow> bool list \<Rightarrow> bool list \<Rightarrow> unit res" where
  "rebuild_measure rt count faults1 faults2 =
     ebind (fill_and_restart rt None vocabulary count faults1 faults2) (\<lambda>restarted. fst (engine_close restarted))"

definition rebuild_main :: "'f::linorder runtime \<Rightarrow> (nat \<Rightarrow> bool list \<times> bool list) \<Rightarrow> unit res" where
  "rebuild_main rt faults =
     ebind (emap (\<lambda>count. rebuild_measure rt count (fst (faults count)) (snd (faults count))) [100, 1000, 10000]) (\<lambda>_. Inr ())"

definition semantic_query :: pystr where
  "semantic_query = ustr ''distributed vector similarity over a sharded corpus''"

definition semantic_measure :: "'f::linorder runtime \<Rightarrow> 'f embedder \<Rightarrow> nat \<Rightarrow> bool list \<Rightarrow> bool list \<Rightarrow> unit res" where
  "semantic_measure rt e count faults1 faults2 =
     ebind (fill_and_restart rt (Some e) semantic_vocabulary count faults1 faults2) (\<lambda>restarted.
     ebind (engine_embed_query restarted semantic_query) (\<lambda>vector.
     ebind (emap (\<lambda>_. engine_semantic_search rt restarted vector 10) (replicate 100 ())) (\<lambda>_. fst (engine_close restarted))))"

definition semantic_main :: "'f::linorder runtime \<Rightarrow> 'f embedder res \<Rightarrow> (nat \<Rightarrow> bool list \<times> bool list) \<Rightarrow> unit res" where
  "semantic_main rt loaded faults =
     ebind loaded (\<lambda>e.
     ebind (em_embed_documents e (map (synthetic_text semantic_vocabulary) [0..<256])) (\<lambda>_.
     ebind (emap (\<lambda>_. em_embed_query e semantic_query) (replicate 200 ())) (\<lambda>_.
     ebind (emap (\<lambda>count. semantic_measure rt e count (fst (faults count)) (snd (faults count))) [100, 1000, 5000]) (\<lambda>_. Inr ()))))"

section \<open>What the scripts show\<close>

lemma demo_corpus_ok: "dict_ok demo_corpus" "length demo_corpus = 6"
  by (simp_all add: demo_corpus_def ustr_def)

lemma new_file_ok: "disk_ok ud new_file" "disk_content new_file = (Map.empty, 0)"
  by (simp_all add: disk_ok_def disk_content_def new_file_def)

lemma demo_started:
  assumes "disk_ok (rt_unicode rt) db" "works rt eo" "disk_content db = (C, g)"
  obtains en where "demo_start_engine rt eo db [] = (Inr en, con_durable (en_store en))" "serving rt eo C g en"
  using serving_start [OF assms] unfolding demo_start_engine_def by blast

lemma pages_printed:
  assumes "serving rt eo C g en" "bm25_arithmetic (rt_float rt) (default_bm25_params (rt_float rt))"
  shows "\<exists>page. engine_search rt en query 3 None = Inr page"
    and "\<exists>pages. print_all_results rt queries en = (Inr pages, en) \<and> length pages = length queries"
proof -
  have page: "\<exists>page. engine_search rt en query 3 None = Inr page" for query
    using serving_search(2) [OF assms(1,1,2), of 3 query] by simp
  then show "\<exists>page. engine_search rt en query 3 None = Inr page" .
  have "\<exists>pages. emap (\<lambda>query. engine_search rt en query 3 None) queries = Inr pages \<and> length pages = length queries"
  proof (induction queries)
    case (Cons q qs)
    then show ?case using page [of q] by auto
  qed simp
  then show "\<exists>pages. print_all_results rt queries en = (Inr pages, en) \<and> length pages = length queries"
    by (simp add: print_all_results_def print_results_def)
qed

lemma closing_serving:
  assumes "started = (Inr en, db)" "body en = (Inr r, en1)" "serving rt eo C g en1"
  shows "closing started body = (Inr r, con_durable (en_store en1)) \<and> disk_ok (rt_unicode rt) (con_durable (en_store en1))
    \<and> disk_content (con_durable (en_store en1)) = (C, g)"
proof -
  from serving_close [OF assms(3)] obtain en2 where "engine_close en1 = (Inr (), en2)" "con_durable (en_store en2) = con_durable (en_store en1)" by blast
  then show ?thesis using assms serving_disk [OF assms(3)] by (simp add: closing_def)
qed

lemma closing_result: "fst (closing started body) = Inr r \<Longrightarrow> \<exists>en. fst (body en) = Inr r"
  by (auto simp: closing_def ebind_Inr_iff split: prod.splits sum.splits) (metis fst_conv)

lemma semantic_section_skipped: "fst (show_semantic_and_hybrid rt loaded db faults) = Inr None \<longleftrightarrow> (\<exists>e. loaded = Inl e)"
proof (cases loaded)
  case (Inr e)
  let ?body = "sbind (index_all rt demo_corpus)
    (\<lambda>_ en. (ebind (emap (compare_modes rt en) [ustr ''preparing a meal'', ustr ''splitting data over many computers'']) (\<lambda>rows. Inr (Some rows)), en))"
  have "fst (?body en) \<noteq> Inr None" for en by (auto simp: sbind_def ebind_Inr_iff split: prod.splits sum.splits)
  with closing_result [of "demo_start_engine rt (Some e) db faults" ?body None] Inr
  show ?thesis by (auto simp: show_semantic_and_hybrid_def load_embedder_def)
qed (simp add: show_semantic_and_hybrid_def load_embedder_def)

text \<open>The first session: what it leaves in the file, and the page it printed last.\<close>

definition demo_final :: "pystr \<rightharpoonup> pystr" where
  "demo_final = (map_of demo_corpus)(ustr ''doc-6'' \<mapsto> replacement, ustr ''doc-1'' := None)"

lemma show_engine_run:
  assumes valid: "list_all (\<lambda>(d, t). valid_id (rt_unicode rt) d) demo_corpus"
    and ar: "bm25_arithmetic (rt_float rt) (default_bm25_params (rt_float rt))"
  obtains en stats pages page where "show_engine rt new_file [] = (Inr (stats, pages @ [page]), con_durable (en_store en))"
    "serving rt None demo_final 8 en" "engine_search rt en (ustr ''search'') 3 None = Inr page" "length pages = 7"
proof -
  have w: "works rt (None :: 'a embedder option)" by (simp add: works_def)
  obtain en0 where s: "demo_start_engine rt None new_file [] = (Inr en0, con_durable (en_store en0))" "serving rt None Map.empty 0 en0"
    by (rule demo_started [OF new_file_ok(1) w new_file_ok(2)])
  obtain en1 where a: "index_all rt demo_corpus en0 = (Inr (), en1)" "serving rt None (Map.empty ++ map_of demo_corpus) (0 + int (length demo_corpus)) en1"
    by (rule serving_index_all [OF s(2) w valid demo_corpus_ok(1)])
  then have one: "serving rt None (map_of demo_corpus) 6 en1" by (simp add: demo_corpus_ok(2))
  obtain stats where st: "engine_stats rt en1 = Inr stats" using serving_stats(2) [OF one one] by blast
  obtain pages where p: "print_all_results rt demo_queries en1 = (Inr pages, en1)" "length pages = length demo_queries"
    using pages_printed(2) [OF one ar] by blast
  have six: "valid_id (rt_unicode rt) (ustr ''doc-6'')" using valid by (simp add: demo_corpus_def)
  obtain en2 where b: "engine_index_document rt \<lparr>document_id = ustr ''doc-6'', doc_text = replacement\<rparr> en1 = (Inr (map_of demo_corpus (ustr ''doc-6'') = None), en2)"
      "serving rt None ((map_of demo_corpus)(ustr ''doc-6'' \<mapsto> replacement)) (6 + 1) en2"
    by (rule serving_index [OF one w six])
  obtain q1 q2 where q: "engine_search rt en2 (ustr ''pasta'') 3 None = Inr q1" "engine_search rt en2 (ustr ''replication'') 3 None = Inr q2"
    using pages_printed(1) [OF b(2) ar] by blast
  have "((map_of demo_corpus)(ustr ''doc-6'' \<mapsto> replacement)) (ustr ''doc-1'') \<noteq> None" by (simp add: demo_corpus_def ustr_def)
  from serving_delete [OF b(2) this] obtain en3 where
    c: "engine_delete_document (ustr ''doc-1'') en2 = (Inr (), en3)" "serving rt None demo_final (6 + 1 + 1) en3"
    unfolding demo_final_def .
  obtain q3 where q3: "engine_search rt en3 (ustr ''search'') 3 None = Inr q3" using pages_printed(1) [OF c(2) ar] by blast
  have "show_engine rt new_file [] = (Inr (stats, pages @ [q1, q2, q3]), con_durable (en_store en3))"
    unfolding show_engine_def
    by (rule closing_serving [OF s(1) _ c(2), THEN conjunct1])
      (simp add: a(1) st p(1) b(1) q c(1) q3 serving_validate [OF c(2)] print_stats_def print_results_def slift_def
        mk_document_Inr_iff [THEN iffD2, OF conjI [OF six refl]])
  then show thesis using c(2) q3 p(2) by (intro that [of stats "pages @ [q1, q2]" q3 en3]) (simp_all add: demo_queries_def)
qed

lemma show_restart_run:
  assumes "disk_ok (rt_unicode rt) db" "disk_content db = (C, g)" and ar: "bm25_arithmetic (rt_float rt) (default_bm25_params (rt_float rt))"
  obtains en stats page pages where "show_restart rt db [] = (Inr (stats, page # pages), con_durable (en_store en))" "serving rt None C g en"
    "engine_search rt en (ustr ''search'') 3 None = Inr page" "length pages = 2"
proof -
  have w: "works rt (None :: 'a embedder option)" by (simp add: works_def)
  obtain en where s: "demo_start_engine rt None db [] = (Inr en, con_durable (en_store en))" "serving rt None C g en"
    by (rule demo_started [OF assms(1) w assms(2)])
  obtain stats where st: "engine_stats rt en = Inr stats" using serving_stats(2) [OF s(2,2)] by blast
  obtain q1 q2 q3 where q: "engine_search rt en (ustr ''search'') 3 None = Inr q1" "engine_search rt en (ustr ''replication'') 3 None = Inr q2"
      "engine_search rt en (ustr ''pasta'') 3 None = Inr q3" using pages_printed(1) [OF s(2) ar] by blast
  have "show_restart rt db [] = (Inr (stats, [q1, q2, q3]), con_durable (en_store en))"
    unfolding show_restart_def
    by (rule closing_serving [OF s(1) _ s(2), THEN conjunct1])
      (simp add: st q serving_validate [OF s(2)] print_stats_def print_results_def print_all_results_def slift_def)
  then show thesis using s(2) q(1) by (intro that [of stats q1 "[q2, q3]" en]) simp_all
qed

text \<open>A benchmark fills a file with the documents it names, and the engine that is started again over it has exactly those.\<close>

lemma synthetic_corpus_ok: "dict_ok (synthetic_corpus words count)" "length (synthetic_corpus words count) = count"
proof -
  have "inj (\<lambda>n. ustr ''doc-'' @ py_str_int (int n))" by (rule injI) (use py_str_int_inj in \<open>auto dest: injD\<close>)
  then show "dict_ok (synthetic_corpus words count)" by (auto simp: synthetic_corpus_def comp_def distinct_map intro: inj_on_subset)
qed (simp add: synthetic_corpus_def)

lemma fill_and_restart_run:
  assumes "works rt eo" "list_all (\<lambda>(d, t). valid_id (rt_unicode rt) d) (synthetic_corpus words count)"
  obtains en where "fill_and_restart rt eo words count [] [] = Inr en" "serving rt eo (map_of (synthetic_corpus words count)) (int count) en"
    "card (dom (engine_corpus en)) = count"
proof -
  let ?C = "map_of (synthetic_corpus words count)"
  obtain en0 where s: "demo_start_engine rt eo new_file [] = (Inr en0, con_durable (en_store en0))" "serving rt eo Map.empty 0 en0"
    by (rule demo_started [OF new_file_ok(1) assms(1) new_file_ok(2)])
  obtain en1 where a: "index_all rt (synthetic_corpus words count) en0 = (Inr (), en1)"
      "serving rt eo (Map.empty ++ ?C) (0 + int (length (synthetic_corpus words count))) en1"
    by (rule serving_index_all [OF s(2) assms synthetic_corpus_ok(1)])
  then have one: "serving rt eo ?C (int count) en1" by (simp add: synthetic_corpus_ok(2))
  obtain en2 where c: "engine_close en1 = (Inr (), en2)" "con_durable (en_store en2) = con_durable (en_store en1)" using serving_close [OF one] by blast
  obtain en3 where r: "demo_start_engine rt eo (con_durable (en_store en1)) [] = (Inr en3, con_durable (en_store en3))" "serving rt eo ?C (int count) en3"
    by (rule demo_started [OF conjunct1 [OF serving_disk [OF one]] assms(1) conjunct2 [OF serving_disk [OF one]]])
  have "card (dom (engine_corpus en3)) = count"
    using r(2) dict_length [OF synthetic_corpus_ok(1)] synthetic_corpus_ok(2) by (simp add: serving_def)
  with r show thesis using s(1) a(1) c by (intro that [of en3]) (simp_all add: fill_and_restart_def)
qed

section \<open>Properties\<close>

text \<open>C38. The demonstration runs and shows what it claims: where storage answers, its first session indexes the corpus, replaces
  one document, deletes another and passes validation, leaving exactly that in the file at generation 8; the second session over the
  same file passes validation, leaves the file's content alone, and prints for its first query the page the first session printed last. The
  semantic section is skipped exactly if the model could not be loaded.\<close>

theorem demo_survives_restart:
  assumes "list_all (\<lambda>(d, t). valid_id (rt_unicode rt) d) demo_corpus"
    and "bm25_arithmetic (rt_float rt) (default_bm25_params (rt_float rt))"
  shows "\<exists>stats pages page db stats' pages' db'. show_engine rt new_file [] = (Inr (stats, pages @ [page]), db)
    \<and> show_restart rt db [] = (Inr (stats', page # pages'), db') \<and> length pages = 7 \<and> length pages' = 2
    \<and> disk_content db = ((map_of demo_corpus)(ustr ''doc-6'' \<mapsto> replacement, ustr ''doc-1'' := None), 8) \<and> disk_content db' = disk_content db
    \<and> (fst (show_semantic_and_hybrid rt loaded new_file faults) = Inr None \<longleftrightarrow> (\<exists>e. loaded = Inl e))"
proof -
  obtain en stats pages page where
    f: "show_engine rt new_file [] = (Inr (stats, pages @ [page]), con_durable (en_store en))" "serving rt None demo_final 8 en"
      "engine_search rt en (ustr ''search'') 3 None = Inr page" "length pages = 7" by (rule show_engine_run [OF assms])
  have disk: "disk_ok (rt_unicode rt) (con_durable (en_store en))" "disk_content (con_durable (en_store en)) = (demo_final, 8)"
    using serving_disk [OF f(2)] by blast+
  obtain en' stats' page' pages' where
    r: "show_restart rt (con_durable (en_store en)) [] = (Inr (stats', page' # pages'), con_durable (en_store en'))" "serving rt None demo_final 8 en'"
      "engine_search rt en' (ustr ''search'') 3 None = Inr page'" "length pages' = 2" by (rule show_restart_run [OF disk assms(2)])
  have "page' = page" using serving_search(1) [OF f(2) r(2) assms(2), of 3 "ustr ''search''"] f(3) r(3) by simp
  with r(1) have "show_restart rt (con_durable (en_store en)) [] = (Inr (stats', page # pages'), con_durable (en_store en'))" by simp
  then show ?thesis using f(1,4) r(4) disk(2) serving_disk [OF r(2)] semantic_section_skipped [of rt loaded new_file faults]
    unfolding demo_final_def by auto
qed

theorem demo_survives_restart_witness:
  "\<exists>stats pages page db stats' pages' db'. show_engine real_runtime new_file [] = (Inr (stats, pages @ [page]), db)
    \<and> show_restart real_runtime db [] = (Inr (stats', page # pages'), db')"
proof -
  have "list_all (\<lambda>(d, t). valid_id ascii_unicode d) demo_corpus" by code_simp
  moreover have "bm25_arithmetic (rt_float real_runtime) (default_bm25_params (rt_float real_runtime))"
    using exact.bm25_arithmetic_axioms by (simp add: real_runtime_def)
  ultimately show ?thesis using demo_survives_restart [of real_runtime] by (simp add: real_runtime_def) blast
qed

end
