(* ===== verification/Wire.thy ===== *)
theory Wire
  imports Replication Json
begin

text \<open>
  The messages between nodes: the bodies that \<open>app/cluster/client.py\<close> and \<open>app/cluster/replication.py\<close> send, the pydantic
  models of \<open>app/api/internal.py\<close> that read them and write the answers, and how the senders read those. \<open>Node\<close> and
  \<open>Replication\<close> call an endpoint with the values themselves; shown here: calling it through its messages is the same.
  A message is a JSON value; its text on the wire, which FastAPI and the HTTP client write and read, is left out.
\<close>

section \<open>Reading JSON\<close>

text \<open>
  \<open>payload[k]\<close> and the values of the type the sender expects. Python does not look at the type there; a value of another
  type, which no endpoint answers, is a \<open>TypeError\<close>.
\<close>

definition item :: "pystr \<Rightarrow> 'f json \<Rightarrow> 'f json res" where
  "item k j = (case j of JDict d \<Rightarrow> dget_item d k | _ \<Rightarrow> Inl TypeError)"

definition as_str :: "'f json \<Rightarrow> pystr res" where
  "as_str j = (case j of JStr s \<Rightarrow> Inr s | _ \<Rightarrow> Inl TypeError)"

definition as_int :: "'f json \<Rightarrow> int res" where
  "as_int j = (case j of JInt i \<Rightarrow> Inr i | _ \<Rightarrow> Inl TypeError)"

definition as_float :: "'f json \<Rightarrow> 'f res" where
  "as_float j = (case j of JFloat x \<Rightarrow> Inr x | _ \<Rightarrow> Inl TypeError)"

definition as_bool :: "'f json \<Rightarrow> bool res" where
  "as_bool j = (case j of JBool b \<Rightarrow> Inr b | _ \<Rightarrow> Inl TypeError)"

definition as_list :: "('f json \<Rightarrow> 'a res) \<Rightarrow> 'f json \<Rightarrow> 'a list res" where
  "as_list f j = (case j of JList xs \<Rightarrow> emap f xs | _ \<Rightarrow> Inl TypeError)"

definition as_dict :: "('f json \<Rightarrow> 'a res) \<Rightarrow> 'f json \<Rightarrow> (pystr, 'a) dict res" where
  "as_dict f j = (case j of JDict d \<Rightarrow> emap (\<lambda>(k, v). ebind (f v) (\<lambda>x. Inr (k, x))) d | _ \<Rightarrow> Inl TypeError)"

text \<open>
  Pydantic reads a field by its annotated type: what it makes of a JSON value there is a parameter. It documents that a
  string, an integer and a float are accepted as they are, each for its own type.
\<close>

record 'f pydantic =
  pd_str :: "'f json \<Rightarrow> pystr option"
  pd_int :: "'f json \<Rightarrow> int option"
  pd_float :: "'f json \<Rightarrow> 'f option"

definition pydantic_reads :: "'f pydantic \<Rightarrow> bool" where
  "pydantic_reads pd \<longleftrightarrow> (\<forall>s. pd_str pd (JStr s) = Some s) \<and> (\<forall>i. pd_int pd (JInt i) = Some i) \<and> (\<forall>x. pd_float pd (JFloat x) = Some x)"

definition pd_field :: "pystr \<Rightarrow> ('f json \<Rightarrow> 'a option) \<Rightarrow> 'f json \<Rightarrow> 'a option" where
  "pd_field k f j = (case j of JDict d \<Rightarrow> Option.bind (map_of d k) f | _ \<Rightarrow> None)"

definition pd_list :: "('f json \<Rightarrow> 'a option) \<Rightarrow> 'f json \<Rightarrow> 'a list option" where
  "pd_list f j = (case j of JList xs \<Rightarrow> those (map f xs) | _ \<Rightarrow> None)"

definition pd_dict :: "('f json \<Rightarrow> 'a option) \<Rightarrow> 'f json \<Rightarrow> (pystr, 'a) dict option" where
  "pd_dict f j = (case j of JDict d \<Rightarrow> those (map (\<lambda>(k, v). map_option (Pair k) (f v)) d) | _ \<Rightarrow> None)"

section \<open>Requests\<close>

definition put_body :: "pystr \<Rightarrow> 'f json" where
  "put_body text = JDict [(ustr ''text'', JStr text)]"

definition IndexDocumentRequest :: "'f pydantic \<Rightarrow> 'f json \<Rightarrow> pystr option" where
  "IndexDocumentRequest pd = pd_field (ustr ''text'') (pd_str pd)"

definition stats_json :: "corpus_stats \<Rightarrow> 'f json" where
  "stats_json stats = JDict
     [(ustr ''document_count'', JInt (cs_document_count stats)),
      (ustr ''total_document_length'', JInt (cs_total_document_length stats)),
      (ustr ''document_frequencies'', JDict (map (\<lambda>(t, n). (t, JInt n)) (cs_document_frequencies stats)))]"

definition CorpusStatsModel :: "'f pydantic \<Rightarrow> 'f json \<Rightarrow> corpus_stats option" where
  "CorpusStatsModel pd j =
     Option.bind (pd_field (ustr ''document_count'') (pd_int pd) j) (\<lambda>n.
     Option.bind (pd_field (ustr ''total_document_length'') (pd_int pd) j) (\<lambda>l.
     Option.bind (pd_field (ustr ''document_frequencies'') (pd_dict (pd_int pd)) j) (\<lambda>df.
     Some \<lparr>cs_document_count = n, cs_total_document_length = l, cs_document_frequencies = df\<rparr>)))"

definition search_body :: "pystr \<Rightarrow> int \<Rightarrow> corpus_stats \<Rightarrow> 'f json" where
  "search_body query limit stats = JDict
     [(ustr ''query'', JStr query), (ustr ''limit'', JInt limit), (ustr ''corpus_stats'', stats_json stats)]"

definition InternalSearchRequest :: "'f pydantic \<Rightarrow> 'f json \<Rightarrow> (pystr \<times> int \<times> corpus_stats) option" where
  "InternalSearchRequest pd j =
     Option.bind (pd_field (ustr ''query'') (pd_str pd) j) (\<lambda>q.
     Option.bind (pd_field (ustr ''limit'') (pd_int pd) j) (\<lambda>l.
     Option.bind (pd_field (ustr ''corpus_stats'') (CorpusStatsModel pd) j) (\<lambda>s. Some (q, l, s))))"

definition identity_json :: "semantic_identity \<Rightarrow> 'f json" where
  "identity_json identity = JDict
     [(ustr ''implementation'', JStr (si_implementation identity)), (ustr ''model_id'', JStr (si_model_id identity)),
      (ustr ''model_revision'', JStr (si_model_revision identity)), (ustr ''dimension'', JInt (int (si_dimension identity))),
      (ustr ''normalization'', JStr (si_normalization identity))]"

definition semantic_body :: "'f list \<Rightarrow> int \<Rightarrow> semantic_identity \<Rightarrow> 'f json" where
  "semantic_body vector limit identity = JDict
     [(ustr ''vector'', JList (map JFloat vector)), (ustr ''limit'', JInt limit), (ustr ''identity'', identity_json identity)]"

text \<open>The identity in a request may have any integer as its dimension; the identity of an embedder has a natural number.\<close>

record identity_model =
  im_implementation :: pystr
  im_model_id :: pystr
  im_model_revision :: pystr
  im_dimension :: int
  im_normalization :: pystr

definition SemanticIdentityModel :: "'f pydantic \<Rightarrow> 'f json \<Rightarrow> identity_model option" where
  "SemanticIdentityModel pd j =
     Option.bind (pd_field (ustr ''implementation'') (pd_str pd) j) (\<lambda>i.
     Option.bind (pd_field (ustr ''model_id'') (pd_str pd) j) (\<lambda>m.
     Option.bind (pd_field (ustr ''model_revision'') (pd_str pd) j) (\<lambda>r.
     Option.bind (pd_field (ustr ''dimension'') (pd_int pd) j) (\<lambda>d.
     Option.bind (pd_field (ustr ''normalization'') (pd_str pd) j) (\<lambda>n.
     Some \<lparr>im_implementation = i, im_model_id = m, im_model_revision = r, im_dimension = d, im_normalization = n\<rparr>)))))"

definition to_identity :: "identity_model \<Rightarrow> semantic_identity option" where
  "to_identity im =
     (if im_dimension im < 0 then None
      else Some \<lparr>si_implementation = im_implementation im, si_model_id = im_model_id im, si_model_revision = im_model_revision im,
             si_dimension = nat (im_dimension im), si_normalization = im_normalization im\<rparr>)"

definition InternalSemanticSearchRequest :: "'f pydantic \<Rightarrow> 'f json \<Rightarrow> ('f list \<times> int \<times> identity_model) option" where
  "InternalSemanticSearchRequest pd j =
     Option.bind (pd_field (ustr ''vector'') (pd_list (pd_float pd)) j) (\<lambda>v.
     Option.bind (pd_field (ustr ''limit'') (pd_int pd) j) (\<lambda>l.
     Option.bind (pd_field (ustr ''identity'') (SemanticIdentityModel pd) j) (\<lambda>i. Some (v, l, i))))"

definition replicate_body :: "pystr \<Rightarrow> int \<Rightarrow> 'f json" where
  "replicate_body text generation = JDict [(ustr ''text'', JStr text), (ustr ''generation'', JInt generation)]"

definition ReplicateDocumentRequest :: "'f pydantic \<Rightarrow> 'f json \<Rightarrow> (pystr \<times> int) option" where
  "ReplicateDocumentRequest pd j =
     Option.bind (pd_field (ustr ''text'') (pd_str pd) j) (\<lambda>t.
     Option.bind (pd_field (ustr ''generation'') (pd_int pd) j) (\<lambda>g. Some (t, g)))"

section \<open>Answers\<close>

definition IndexDocumentResponse :: "index_document_response \<Rightarrow> 'f json" where
  "IndexDocumentResponse r = JDict [(ustr ''document_id'', JStr (idr_document_id r)), (ustr ''created'', JBool (idr_created r))]"

definition InternalHit :: "'f search_result \<Rightarrow> 'f json" where
  "InternalHit hit = JDict
     [(ustr ''document_id'', JStr (sr_document_id hit)), (ustr ''score'', JFloat (sr_score hit)), (ustr ''text'', JStr (sr_text hit))]"

definition InternalSearchResponse :: "'f search_results \<Rightarrow> 'f json" where
  "InternalSearchResponse r = JDict
     [(ustr ''total'', JInt (srs_total r)), (ustr ''results'', JList (map InternalHit (srs_results r)))]"

definition InternalIndexStatsResponse :: "'f index_stats \<Rightarrow> 'f json" where
  "InternalIndexStatsResponse s = JDict
     [(ustr ''document_count'', JInt (is_document_count s)), (ustr ''unique_term_count'', JInt (is_unique_term_count s)),
      (ustr ''average_document_length'', JFloat (is_average_document_length s)), (ustr ''total_token_count'', JInt (is_total_token_count s))]"

definition NodeStatusResponse :: "node_status_response \<Rightarrow> 'f json" where
  "NodeStatusResponse s = JDict
     [(ustr ''node_id'', JStr (ns_node_id s)), (ustr ''shard_id'', JInt (ns_shard_id s)), (ustr ''replica_role'', JStr (ns_replica_role s)),
      (ustr ''state'', JStr (ns_state s)), (ustr ''ready'', JBool (ns_ready s)), (ustr ''generation'', JInt (ns_generation s)),
      (ustr ''semantic_enabled'', JBool (nr_semantic_enabled s)),
      (ustr ''semantic_identity'', case nr_semantic_identity s of None \<Rightarrow> JNull | Some f \<Rightarrow> JStr f),
      (ustr ''vector_count'', case nr_vector_count s of None \<Rightarrow> JNull | Some n \<Rightarrow> JInt n)]"

definition ReplicationResponse :: "replication_response \<Rightarrow> 'f json" where
  "ReplicationResponse r = JDict [(ustr ''outcome'', JStr (rp_outcome r)), (ustr ''generation'', JInt (rp_generation r))]"

definition ExportedDocument :: "document \<Rightarrow> 'f json" where
  "ExportedDocument doc = JDict [(ustr ''document_id'', JStr (document_id doc)), (ustr ''text'', JStr (doc_text doc))]"

definition ExportResponse :: "document list \<times> int \<Rightarrow> 'f json" where
  "ExportResponse r = JDict [(ustr ''generation'', JInt (snd r)), (ustr ''documents'', JList (map ExportedDocument (fst r)))]"

text \<open>How the senders read them.\<close>

definition read_created :: "'f json \<Rightarrow> bool res" where
  "read_created payload = ebind (item (ustr ''created'') payload) as_bool"

definition read_hit :: "'f json \<Rightarrow> 'f search_result res" where
  "read_hit hit =
     ebind (ebind (item (ustr ''document_id'') hit) as_str) (\<lambda>d.
     ebind (ebind (item (ustr ''score'') hit) as_float) (\<lambda>s.
     ebind (ebind (item (ustr ''text'') hit) as_str) (\<lambda>t.
     Inr \<lparr>sr_document_id = d, sr_score = s, sr_text = t\<rparr>)))"

definition read_results :: "'f json \<Rightarrow> 'f search_results res" where
  "read_results payload =
     ebind (ebind (item (ustr ''total'') payload) as_int) (\<lambda>n.
     ebind (ebind (item (ustr ''results'') payload) (as_list read_hit)) (\<lambda>rs.
     Inr \<lparr>srs_total = n, srs_results = rs\<rparr>))"

definition read_stats :: "'f json \<Rightarrow> corpus_stats res" where
  "read_stats payload =
     ebind (ebind (item (ustr ''document_count'') payload) as_int) (\<lambda>n.
     ebind (ebind (item (ustr ''total_document_length'') payload) as_int) (\<lambda>l.
     ebind (ebind (item (ustr ''document_frequencies'') payload) (as_dict as_int)) (\<lambda>df.
     Inr \<lparr>cs_document_count = n, cs_total_document_length = l, cs_document_frequencies = df\<rparr>)))"

definition read_index_stats :: "'f json \<Rightarrow> 'f index_stats res" where
  "read_index_stats payload =
     ebind (ebind (item (ustr ''document_count'') payload) as_int) (\<lambda>n.
     ebind (ebind (item (ustr ''unique_term_count'') payload) as_int) (\<lambda>u.
     ebind (ebind (item (ustr ''average_document_length'') payload) as_float) (\<lambda>a.
     ebind (ebind (item (ustr ''total_token_count'') payload) as_int) (\<lambda>t.
     Inr \<lparr>is_document_count = n, is_unique_term_count = u, is_average_document_length = a, is_total_token_count = t\<rparr>))))"

definition read_node_status :: "'f json \<Rightarrow> node_status res" where
  "read_node_status payload =
     ebind (ebind (item (ustr ''node_id'') payload) as_str) (\<lambda>i.
     ebind (ebind (item (ustr ''shard_id'') payload) as_int) (\<lambda>s.
     ebind (ebind (item (ustr ''replica_role'') payload) as_str) (\<lambda>r.
     ebind (ebind (item (ustr ''state'') payload) as_str) (\<lambda>st.
     ebind (ebind (item (ustr ''ready'') payload) as_bool) (\<lambda>rd.
     ebind (ebind (item (ustr ''generation'') payload) as_int) (\<lambda>g.
     Inr \<lparr>ns_node_id = i, ns_shard_id = s, ns_replica_role = r, ns_state = st, ns_ready = rd, ns_generation = g\<rparr>))))))"

definition read_generation :: "'f json \<Rightarrow> int res" where
  "read_generation payload = ebind (item (ustr ''generation'') payload) as_int"

definition read_entry :: "unicode \<Rightarrow> 'f json \<Rightarrow> document res" where
  "read_entry ud entry =
     ebind (ebind (item (ustr ''document_id'') entry) as_str) (\<lambda>d.
     ebind (ebind (item (ustr ''text'') entry) as_str) (mk_document ud d))"

definition read_export :: "unicode \<Rightarrow> 'f json \<Rightarrow> (document list \<times> int) res" where
  "read_export ud payload =
     ebind (ebind (item (ustr ''documents'') payload) (as_list (read_entry ud))) (\<lambda>docs.
     ebind (read_generation payload) (\<lambda>g. Inr (docs, g)))"

section \<open>Endpoints and calls through messages\<close>

text \<open>What FastAPI does around an endpoint: the answer is written by its model; a body the model does not accept is answered
  422, unless a dependency refuses the request first.\<close>

definition answering :: "('b \<Rightarrow> 'f json) \<Rightarrow> ('s \<Rightarrow> 'b response \<times> 's) \<Rightarrow> 's \<Rightarrow> 'f json response \<times> 's" where
  "answering write handler s = (case handler s of (response, s') \<Rightarrow> (map_response write response, s'))"

definition json_endpoint ::
    "('s, unit) st \<Rightarrow> ('f json \<Rightarrow> 'a option) \<Rightarrow> ('b \<Rightarrow> 'f json) \<Rightarrow> ('a \<Rightarrow> 's \<Rightarrow> 'b response \<times> 's) \<Rightarrow> 'f json \<Rightarrow> 's \<Rightarrow> 'f json response \<times> 's" where
  "json_endpoint dependency read write handler body s =
     (case read body of
        Some payload \<Rightarrow> answering write (handler payload) s
      | None \<Rightarrow> serve (\<lambda>_. 200) (sbind dependency (\<lambda>_. slift (Inl (HTTPException 422)))) s)"

definition json_search :: "'f::linorder runtime \<Rightarrow> 'f pydantic \<Rightarrow> delivery \<Rightarrow> 'f node \<Rightarrow> pystr \<Rightarrow> int \<Rightarrow> corpus_stats \<Rightarrow> 'f search_results res" where
  "json_search rt pd dl n query limit stats =
     ebind (http_read dl (json_endpoint (slift (Inr ())) (InternalSearchRequest pd) InternalSearchResponse
       (\<lambda>(q, l, s). internal_search rt q l s) (search_body query limit stats)) n) read_results"

definition json_corpus_stats :: "delivery \<Rightarrow> 'f node \<Rightarrow> pystr list \<Rightarrow> corpus_stats res" where
  "json_corpus_stats dl n terms =
     ebind (http_read dl (answering (stats_json :: corpus_stats \<Rightarrow> 'f json) (internal_corpus_stats terms)) n) read_stats"

text \<open>An identity whose dimension is negative is that of no embedder.\<close>

definition semantic_payload :: "'f::linorder runtime \<Rightarrow> 'f list \<times> int \<times> identity_model \<Rightarrow> 'f node \<Rightarrow> 'f search_results response \<times> 'f node" where
  "semantic_payload rt payload =
     (case payload of (vector, limit, im) \<Rightarrow>
        (case to_identity im of
           Some incoming \<Rightarrow> internal_semantic_search rt \<lparr>nd_shape = [length vector], nd_data = vector\<rparr> limit incoming
         | None \<Rightarrow> serve (\<lambda>_. 200) (sbind (slift (check_limit limit))
             (\<lambda>_ n. (Inl (HTTPException (if engine_semantic_identity (no_engine n) = None then 503 else 409)), n)))))"

definition json_semantic_search :: "'f::linorder runtime \<Rightarrow> 'f pydantic \<Rightarrow> delivery \<Rightarrow> 'f node \<Rightarrow> 'f list \<Rightarrow> int \<Rightarrow> semantic_identity \<Rightarrow> 'f search_results res" where
  "json_semantic_search rt pd dl n vector limit identity =
     ebind (http_read dl (json_endpoint (slift (Inr ())) (InternalSemanticSearchRequest pd) InternalSearchResponse
       (semantic_payload rt) (semantic_body vector limit identity)) n) read_results"

definition json_index_stats :: "'f runtime \<Rightarrow> delivery \<Rightarrow> 'f node \<Rightarrow> 'f index_stats res" where
  "json_index_stats rt dl n = ebind (http_read dl (answering InternalIndexStatsResponse (internal_index_stats rt)) n) read_index_stats"

definition json_node_status :: "delivery \<Rightarrow> 'f node \<Rightarrow> node_status res" where
  "json_node_status dl n =
     ebind (http_read dl (answering (NodeStatusResponse :: _ \<Rightarrow> 'f json) internal_node_status) n) read_node_status"

definition json_put_document ::
    "'f runtime \<Rightarrow> 'f pydantic \<Rightarrow> (pystr \<Rightarrow> pystr option) \<Rightarrow> delivery \<Rightarrow> document \<Rightarrow> ('f shard_group, bool) st" where
  "json_put_document rt pd path_id dl doc =
     sbind (http_request False dl (routed path_id (document_id doc) (\<lambda>d.
         json_endpoint (on_primary require_primary) (IndexDocumentRequest pd) IndexDocumentResponse
           (internal_index_document rt path_id d) (put_body (doc_text doc)))))
       (\<lambda>response. slift (ebind (json_body response) read_created))"

definition json_apply_put ::
    "'f runtime \<Rightarrow> 'f pydantic \<Rightarrow> (pystr \<Rightarrow> pystr option) \<Rightarrow> document \<Rightarrow> int \<Rightarrow> delivery \<Rightarrow> ('f node, unit) st" where
  "json_apply_put rt pd path_id doc g dl =
     sbind (link_request dl (routed path_id (document_id doc) (\<lambda>d.
         json_endpoint require_replica (ReplicateDocumentRequest pd) ReplicationResponse
           (\<lambda>(t, g). replicate_document rt d t g) (replicate_body (doc_text doc) g))))
       (\<lambda>_. slift (Inr ()))"

definition json_generation :: "delivery \<Rightarrow> ('f node, int) st" where
  "json_generation dl =
     sbind (link_request dl (answering (NodeStatusResponse :: _ \<Rightarrow> 'f json) internal_node_status))
       (\<lambda>response. slift (ebind (json_body response) read_generation))"

definition json_export :: "unicode \<Rightarrow> delivery \<Rightarrow> ('f node, document list \<times> int) st" where
  "json_export ud dl =
     sbind (link_request dl (answering (ExportResponse :: _ \<Rightarrow> 'f json) export_documents))
       (\<lambda>response. slift (ebind (json_body response) (read_export ud)))"

section \<open>Messages are read as they were meant\<close>

lemma those_Some: "(\<forall>x\<in>set xs. f x = Some (g x)) \<Longrightarrow> those (map f xs) = Some (map g xs)"
  by (induction xs) auto

lemma emap_map_Inr: "(\<forall>x\<in>set xs. f (h x) = Inr (g x)) \<Longrightarrow> emap f (map h xs) = Inr (map g xs)"
  by (induction xs) auto

named_theorems messages

lemmas [messages] = item_def as_str_def as_int_def as_float_def as_bool_def as_list_def as_dict_def dget_item_def
  pd_field_def pd_list_def pd_dict_def pydantic_reads_def ustr_def

lemma requests_read:
  assumes "pydantic_reads pd"
  shows "IndexDocumentRequest pd (put_body text) = Some text"
    and "CorpusStatsModel pd (stats_json stats) = Some stats"
    and "InternalSearchRequest pd (search_body query limit stats) = Some (query, limit, stats)"
    and "ReplicateDocumentRequest pd (replicate_body text g) = Some (text, g)"
proof -
  have df: "those (map (\<lambda>(k, v). map_option (Pair k) (pd_int pd v)) (map (\<lambda>(t, n). (t, JInt n)) df)) = Some df" for df :: "(pystr \<times> int) list"
    using those_Some [of df "\<lambda>(t, n). map_option (Pair t) (pd_int pd (JInt n))" id] assms
    by (simp add: pydantic_reads_def comp_def case_prod_beta)
  show stats: "CorpusStatsModel pd (stats_json stats) = Some stats" for stats
    using assms df by (simp add: CorpusStatsModel_def stats_json_def messages)
  show "InternalSearchRequest pd (search_body query limit stats) = Some (query, limit, stats)"
    using assms stats by (simp add: InternalSearchRequest_def search_body_def messages)
qed (use assms in \<open>simp_all add: IndexDocumentRequest_def put_body_def ReplicateDocumentRequest_def replicate_body_def messages\<close>)

lemma semantic_request_read:
  assumes "pydantic_reads pd"
  obtains im where "InternalSemanticSearchRequest pd (semantic_body vector limit identity) = Some (vector, limit, im)"
    and "to_identity im = Some identity"
proof
  let ?im = "\<lparr>im_implementation = si_implementation identity, im_model_id = si_model_id identity, im_model_revision = si_model_revision identity,
      im_dimension = int (si_dimension identity), im_normalization = si_normalization identity\<rparr>"
  have "those (map (pd_float pd) (map JFloat vector)) = Some vector"
    using those_Some [of vector "pd_float pd \<circ> JFloat" id] assms by (simp add: pydantic_reads_def)
  moreover have "SemanticIdentityModel pd (identity_json identity) = Some ?im"
    using assms by (simp add: SemanticIdentityModel_def identity_json_def messages)
  ultimately show "InternalSemanticSearchRequest pd (semantic_body vector limit identity) = Some (vector, limit, ?im)"
    using assms by (simp add: InternalSemanticSearchRequest_def semantic_body_def messages)
  show "to_identity ?im = Some identity" by (simp add: to_identity_def)
qed

lemma read_frequencies: "emap (\<lambda>(k, v). ebind (as_int v) (\<lambda>x. Inr (k, x))) (map (\<lambda>(t, n). (t, JInt n)) df) = Inr df"
  by (induction df) (auto simp: as_int_def)

lemma read_entries:
  "emap (read_entry ud) (map ExportedDocument docs) = emap (\<lambda>entry. mk_document ud (document_id entry) (doc_text entry)) docs"
  by (induction docs) (simp_all add: read_entry_def ExportedDocument_def messages)

lemma answers_read:
  fixes rs :: "'f search_results" and s :: "'f index_stats"
  shows "read_created (IndexDocumentResponse r) = Inr (idr_created r)"
  "read_results (InternalSearchResponse rs) = Inr rs"
  "read_stats (stats_json stats) = Inr stats"
  "read_index_stats (InternalIndexStatsResponse s) = Inr s"
  "read_node_status (NodeStatusResponse ns) = Inr (node_status.truncate ns)"
  "read_generation (NodeStatusResponse ns) = Inr (ns_generation ns)"
  "read_export ud (ExportResponse e) =
     ebind (emap (\<lambda>entry. mk_document ud (document_id entry) (doc_text entry)) (fst e)) (\<lambda>docs. Inr (docs, snd e))"
proof -
  have hit: "read_hit (InternalHit h) = Inr h" for h :: "'f search_result" by (simp add: read_hit_def InternalHit_def messages)
  have "emap read_hit (map InternalHit (srs_results rs)) = Inr (srs_results rs)"
    using emap_map_Inr [of "srs_results rs" read_hit InternalHit id] hit by simp
  then show "read_results (InternalSearchResponse rs) = Inr rs" by (simp add: read_results_def InternalSearchResponse_def messages)
  show "read_stats (stats_json stats) = Inr stats" by (simp add: read_stats_def stats_json_def messages read_frequencies [unfolded as_int_def])
  show "read_export ud (ExportResponse e) =
     ebind (emap (\<lambda>entry. mk_document ud (document_id entry) (doc_text entry)) (fst e)) (\<lambda>docs. Inr (docs, snd e))"
    by (simp add: read_export_def read_generation_def ExportResponse_def messages read_entries)
qed (simp_all add: read_created_def IndexDocumentResponse_def read_index_stats_def InternalIndexStatsResponse_def
    read_node_status_def read_generation_def NodeStatusResponse_def node_status.truncate_def messages)

section \<open>Calls through messages\<close>

lemma json_endpoint_read: "read body = Some payload \<Longrightarrow> json_endpoint dependency read write handler body = answering write (handler payload)"
  by (rule ext) (simp add: json_endpoint_def)

lemma routed_answering: "routed path_id d (\<lambda>d. answering write (handler d)) = answering write (routed path_id d handler)"
  by (rule ext) (simp add: routed_def answering_def split: option.split)

lemma http_request_answering:
  "http_request absent dl (answering write handler) s = (case http_request absent dl handler s of (r, s') \<Rightarrow> (map_sum id (map_response write) r, s'))"
  by (cases dl; cases "handler s"; cases "fst (handler s)") (simp_all add: http_request_def answering_def)

lemma link_request_answering:
  "link_request dl (answering write handler) s = (case link_request dl handler s of (r, s') \<Rightarrow> (map_sum id (map_response write) r, s'))"
  by (cases dl; cases "handler s"; cases "fst (handler s)") (simp_all add: link_request_def answering_def)

lemma json_body_answering: "json_body (map_response write r) = ebind (json_body r) (\<lambda>b. Inr (write b))"
  by (cases r) (simp add: json_body_def split: option.split)

lemma ebind_written: "ebind (ebind m (\<lambda>b. Inr (write b))) read = ebind m (\<lambda>b. read (write b))"
  by (cases m) simp_all

text \<open>A call whose answer is written and read gives what the caller makes of the answer itself.\<close>

lemma http_read_answering: "ebind (http_read dl (answering write handler) s) read = ebind (http_read dl handler s) (\<lambda>b. read (write b))"
proof -
  have "http_read dl (answering write handler) s = ebind (http_read dl handler s) (\<lambda>b. Inr (write b))"
    by (cases "http_request False dl handler s"; cases "fst (http_request False dl handler s)")
      (simp_all add: http_read_def http_request_answering json_body_answering)
  then show ?thesis by (simp add: ebind_written)
qed

lemma http_request_read:
  "sbind (http_request absent dl (answering write handler)) (\<lambda>response. slift (ebind (json_body response) read)) =
   sbind (http_request absent dl handler) (\<lambda>response. slift (ebind (json_body response) (\<lambda>b. read (write b))))"
proof
  fix s
  show "sbind (http_request absent dl (answering write handler)) (\<lambda>response. slift (ebind (json_body response) read)) s =
   sbind (http_request absent dl handler) (\<lambda>response. slift (ebind (json_body response) (\<lambda>b. read (write b)))) s"
    by (cases "http_request absent dl handler s"; cases "fst (http_request absent dl handler s)")
      (simp_all add: sbind_def http_request_answering json_body_answering ebind_written)
qed

lemma link_request_read:
  "sbind (link_request dl (answering write handler)) (\<lambda>response. slift (ebind (json_body response) read)) =
   sbind (link_request dl handler) (\<lambda>response. slift (ebind (json_body response) (\<lambda>b. read (write b))))"
proof
  fix s
  show "sbind (link_request dl (answering write handler)) (\<lambda>response. slift (ebind (json_body response) read)) s =
   sbind (link_request dl handler) (\<lambda>response. slift (ebind (json_body response) (\<lambda>b. read (write b)))) s"
    by (cases "link_request dl handler s"; cases "fst (link_request dl handler s)")
      (simp_all add: sbind_def link_request_answering json_body_answering ebind_written)
qed

lemma link_request_done:
  "sbind (link_request dl (answering write handler)) (\<lambda>_. slift (Inr ())) = sbind (link_request dl handler) (\<lambda>_. slift (Inr ()))"
proof
  fix s
  show "sbind (link_request dl (answering write handler)) (\<lambda>_. slift (Inr ())) s = sbind (link_request dl handler) (\<lambda>_. slift (Inr ())) s"
    by (cases "link_request dl handler s"; cases "fst (link_request dl handler s)") (simp_all add: sbind_def link_request_answering)
qed

lemma ebind_Inr_right [simp]: "ebind m Inr = m"
  by (cases m) simp_all

section \<open>Properties\<close>

text \<open>C33. The messages between nodes lose nothing: every call of the coordinator's client and of the link between copies that goes
  through JSON, with its body read by the endpoint's model and its answer written by one, has the result and the effect on the node
  of the call with the values themselves, whatever the network does to it, if pydantic accepts each value for its own type.\<close>

theorem json_protocol_transparent:
  fixes rt :: "'f::linorder runtime"
  assumes "pydantic_reads pd"
  shows "json_search rt pd dl n query limit stats = http_read dl (internal_search rt query limit stats) n
    \<and> json_corpus_stats dl n terms = http_read dl (internal_corpus_stats terms) n
    \<and> json_semantic_search rt pd dl n vector limit identity
         = http_semantic_search rt dl n \<lparr>nd_shape = [length vector], nd_data = vector\<rparr> limit identity
    \<and> json_index_stats rt dl n = http_read dl (internal_index_stats rt) n
    \<and> json_node_status dl n = http_node_status dl n
    \<and> json_put_document rt pd path_id dl doc = http_put_document path_id dl (internal_index_document rt path_id) doc
    \<and> json_apply_put rt pd path_id doc g dl = link_apply_put rt path_id doc g dl
    \<and> json_generation dl = (link_generation dl :: ('f node, int) st)
    \<and> json_export (rt_unicode rt) dl = (link_export (rt_unicode rt) dl :: ('f node, document list \<times> int) st)"
proof (intro conjI)
  note [simp] = json_endpoint_read http_read_answering answers_read routed_answering requests_read [OF assms]
  show "json_search rt pd dl n query limit stats = http_read dl (internal_search rt query limit stats) n"
    by (simp add: json_search_def)
  show "json_corpus_stats dl n terms = http_read dl (internal_corpus_stats terms) n"
    by (simp add: json_corpus_stats_def)
  obtain im where im: "InternalSemanticSearchRequest pd (semantic_body vector limit identity) = Some (vector, limit, im)" "to_identity im = Some identity"
    by (rule semantic_request_read [OF assms])
  show "json_semantic_search rt pd dl n vector limit identity
      = http_semantic_search rt dl n \<lparr>nd_shape = [length vector], nd_data = vector\<rparr> limit identity"
    by (simp add: json_semantic_search_def im semantic_payload_def http_semantic_search_def)
  show "json_index_stats rt dl n = http_read dl (internal_index_stats rt) n" by (simp add: json_index_stats_def)
  show "json_node_status dl n = http_node_status dl n" by (simp add: json_node_status_def http_node_status_def)
  show "json_put_document rt pd path_id dl doc = http_put_document path_id dl (internal_index_document rt path_id) doc"
    by (simp add: json_put_document_def http_put_document_def http_request_read)
  show "json_apply_put rt pd path_id doc g dl = link_apply_put rt path_id doc g dl"
    by (simp add: json_apply_put_def link_apply_put_def link_request_done)
  show "json_generation dl = (link_generation dl :: ('f node, int) st)"
    by (simp add: json_generation_def link_generation_def link_request_read)
  show "json_export (rt_unicode rt) dl = (link_export (rt_unicode rt) dl :: ('f node, document list \<times> int) st)"
    by (simp add: json_export_def link_export_def link_request_read case_prod_unfold)
qed

text \<open>A reader that converts nothing, and a write and a search through messages.\<close>

definition strict_pydantic :: "'f pydantic" where
  "strict_pydantic = \<lparr>pd_str = (\<lambda>j. case j of JStr s \<Rightarrow> Some s | _ \<Rightarrow> None), pd_int = (\<lambda>j. case j of JInt i \<Rightarrow> Some i | _ \<Rightarrow> None),
     pd_float = (\<lambda>j. case j of JFloat x \<Rightarrow> Some x | _ \<Rightarrow> None)\<rparr>"

lemma strict_pydantic_reads: "pydantic_reads strict_pydantic"
  by (simp add: pydantic_reads_def strict_pydantic_def)

theorem json_protocol_transparent_witness:
  "json_put_document real_runtime strict_pydantic Some Delivered \<lparr>document_id = ustr ''a'', doc_text = ustr ''x''\<rparr>
     = http_put_document Some Delivered (internal_index_document real_runtime Some) \<lparr>document_id = ustr ''a'', doc_text = ustr ''x''\<rparr>"
  using json_protocol_transparent [OF strict_pydantic_reads, of real_runtime Delivered] by blast

end
