(* ===== verification/Spec2Isabelle.thy ===== *)
theory Spec2Isabelle
  imports Ownership Replication_System Synchronization Launcher Evaluation Demo Wire
begin

text \<open>
  \<^bold>\<open>pysearch: a verified model of a replicated search engine.\<close>

  The program (under \<open>src/\<close>) is a full-text and semantic search service in Python. One process is a single node,
  a physical copy of a shard, or a coordinator. A copy keeps its documents in SQLite and derives from them, in
  memory, an inverted index, a document cache and a vector index; a write commits to SQLite first and then
  updates the derived state under the engine's lock. A shard has a primary, which replicates each write to
  every replica before it answers, numbered by a generation; a replica that misses one stops serving and is
  repaired from a snapshot. The coordinator routes writes by a hash of the identifier and answers a search in two
  rounds over one copy per shard, merging statistics first and results second.

  \<^bold>\<open>The theories and what they model.\<close>

  \<^item> \<open>Prelude\<close>: strings as lists of code points, the exception classes, state-passing computations that can raise
    (\<open>st\<close>, \<open>res\<close>), dictionaries with insertion order, slices, the ranking order, floating point operations as a
    record, NumPy arrays. \<open>Interfaces\<close>: the contracts of a derived structure and of a document store, as locales.
  \<^item> \<open>Analysis\<close> (\<open>app/search/analysis.py\<close>, \<open>document.py\<close>): normalisation, the tokeniser loop, documents.
  \<^item> \<open>Inverted_Index\<close> (\<open>app/search/index.py\<close>), \<open>Ranking\<close> (\<open>ranking.py\<close>), \<open>Fusion\<close> (\<open>results.py\<close>, \<open>app/hybrid/fusion.py\<close>),
    \<open>Embedder\<close> and \<open>Vector_Index\<close> (\<open>app/semantic/\<close>), \<open>Storage\<close> (\<open>app/storage/sqlite_store.py\<close>): one record and one
    function per method of each class, exceptions as values of a sum type.
  \<^item> \<open>Engine\<close> (\<open>app/search/engine.py\<close>): the fields of \<open>SearchEngine\<close> and its methods, each one critical section.
    \<open>Engine_Invariant\<close> and \<open>Engine_Queries\<close>: its invariant and what it answers.
  \<^item> \<open>Routing\<close>, \<open>Topology\<close> (\<open>app/cluster/routing.py\<close>, \<open>topology.py\<close>, \<open>app/core/config.py\<close>): UTF-8 and BLAKE2b on 64-bit
    words, the router, shard copies, settings and their validation.
  \<^item> \<open>Http\<close> (error handlers of \<open>app/main.py\<close>, the endpoints of \<open>app/api/\<close>), \<open>Node\<close> (\<open>app/api/internal.py\<close>,
    \<open>dependencies.py\<close>, \<open>app/cluster/client.py\<close>), \<open>Cluster_Api\<close> (\<open>app/api/cluster.py\<close>): endpoints as functions from
    a state to a response and a state, requests between nodes under any behaviour of the network.
  \<^item> \<open>Coordinator\<close> (\<open>app/cluster/coordinator.py\<close>); \<open>Coordinator_Search\<close> and \<open>Cluster_Queries\<close>: what it promises.
  \<^item> \<open>Replication\<close> (\<open>app/cluster/replication.py\<close>); \<open>Replicated_Writes\<close>, \<open>Synchronization\<close>, \<open>Ownership\<close> and \<open>Replication_System\<close>:
    what replication and routing guarantee. \<open>Wire\<close>: the JSON messages between nodes, with the models of \<open>app/api/internal.py\<close>
    that read and write them.
  \<^item> \<open>Json\<close> and \<open>Logging\<close> (\<open>app/core/logging.py\<close>): the formatter, the context filter and the configuration of the loggers, over
    a model of the loggers and of \<open>json.dumps\<close>. \<open>Application\<close> (\<open>app/main.py\<close>): startup of each role and \<open>create_app\<close>.
  \<^item> \<open>Validation\<close> and \<open>Restart\<close>: what \<open>SearchEngine.validate\<close> finds, and an engine from one start to the next.
  \<^item> \<open>Launcher\<close> (\<open>scripts/run_cluster.py\<close>), \<open>Evaluation_Data\<close> and \<open>Evaluation\<close> (\<open>scripts/evaluation_data.py\<close>, \<open>evaluate_retrieval.py\<close>), \<open>Demo\<close>
    (\<open>scripts/demo.py\<close>, \<open>rebuild_benchmark.py\<close>, \<open>semantic_benchmark.py\<close>).

  \<^bold>\<open>What is shown.\<close>

  \<^item> Derived state. The index and the vector index implement a finite map (locale \<open>derived_structure\<close>, interpreted
    on both); their \<open>validate\<close> methods accept exactly the structures that stand for one; the store does all of an
    operation or nothing of it, at every point where the driver may fail (locale \<open>document_store\<close>).
  \<^item> One copy. Every method keeps \<open>engine_inv\<close>: a \<open>READY\<close> copy agrees with its durable corpus, whatever storage and
    the embedding model do. So lexical search is a function of the corpus and semantic search one of the corpus and
    the vectors stored for it, a failed write has no
    effect or leaves the copy \<open>DEGRADED\<close>, and recovery and snapshots restore exactly the corpus. \<open>mark_ready\<close> verifies
    nothing itself; it may be called on a copy that agrees with its storage, as the synchroniser does. A copy that is not \<open>READY\<close> keeps
    its state and refuses until it is initialised, resynchronised or marked ready. Stopping a copy and starting it
    again changes no lexical answer, and \<open>validate\<close> accepts exactly the copies whose derived
    state fits the documents of their corpus (it does not analyse the texts again).
  \<^item> A cluster. Over the contract of its clients (locale \<open>shard_transport\<close>, interpreted on the HTTP client) a
    distributed search equals the search of one node that holds the union of one ready copy per shard (for semantic search,
    with the vectors those copies store), or it fails and names the shards that lost it, in either round; readiness and
    status report each copy as it answers; the endpoint of the coordinator gives the response of a single node. The contract asks
    for disjoint shards, which \<open>Ownership\<close> shows that routed writes keep.
  \<^item> A shard. An acknowledged write is on every copy; a replica that cannot be reached fails every write, which stays on the
    primary; the synchroniser reports success exactly if its replica serves the primary's state, and a repair succeeds when nothing
    fails. \<open>Replication_System\<close>
    has the protocol as a step relation with late and repeated requests, crashes and restarts, and shows by rule
    induction that every copy durably holds a prefix of the writes with every acknowledged one in it.
  \<^item> The operations around it. Calls through JSON messages are the calls with the values; a log line is one line of ASCII that
    determines its fields, and after \<open>configure_logging\<close> every record is written once with the fields of its node; the local launcher
    starts a cluster whose settings are accepted; the evaluation computes the measures it reports; and
    the demonstration runs and shows what it says.
  \<^item> Scoring. BM25 is local to a document, positive, bounded and monotone where it should be (exact arithmetic);
    merged statistics are those of the union; fusion returns the top of the fused ranking.

  \<^bold>\<open>Parameters and hypotheses.\<close> The Unicode database, the floating point operations, NumPy's dot product and norm, the
  embedding model and the reading back of a URL path are parameters. Where a theorem needs a law of them it is a
  named hypothesis: \<open>bm25_arithmetic\<close> (no zero divisor or logarithm outside its domain for an index's quantities,
  interpreted on exact arithmetic), \<open>embedder_wf\<close> and \<open>embedder_works\<close> (what the protocol of an embedder
  documents; no theorem asks for bit-identical vectors of a text), \<open>path_id d = Some d\<close> (the identifier survives the path), \<open>printable_ascii\<close>, \<open>pydantic_reads\<close> (a value is accepted for its own
  type), \<open>float_text\<close> (the texts of floats), and \<open>sleeps\<close> for the clock. Scores are
  elements of a linear order; not-a-number scores are outside the model.

  \<^bold>\<open>Bounds and loops.\<close> There is no fuel. Loops over data are structural recursion or have a termination proof (\<open>batches\<close>,
  \<open>py_digits\<close>, the blocks of BLAKE2b). The polling loop of the launcher may run forever as written; it is a partial
  function, and it is shown to return when the clock advances.

  \<^bold>\<open>Concurrency.\<close> The engine's methods are atomic because each holds the lock; what a method computes before it takes the
  lock does not touch the state. The coordinator's lock is what lets a client stand for one state of its copy during an
  operation; a write that outlives its request is outside that. \<open>Replication_System\<close> interleaves everything else, with
  one repair per replica at a time; \<open>stale_snapshot_accepted\<close> shows what two at once can do.

  \<^bold>\<open>Not modelled.\<close> The log calls themselves; messages of exceptions; the durations in reports and the times the benchmarks measure;
  the text of JSON on the wire and the FastAPI and HTTP client objects, closing them and their timeouts (a timeout is one of
  the things the network can do); the reading of the environment into \<open>Settings\<close> and its cache by pydantic and \<open>functools\<close>; SQLite's own
  limits (64-bit integers, surrogates in text); the formatting of what the scripts print, their argument parsers, and the operating
  system processes of the launcher. \<open>app/storage/base.py\<close> is a protocol: its contract is the locale \<open>document_store\<close>.
\<close>

end
